(* ===== verification/JS_Prelude.thy ===== *)
theory JS_Prelude
  imports Complex_Main "HOL-Library.Word"
begin

section \<open>The part of JavaScript the sources use\<close>

text \<open>
  Shared vocabulary of the development: numbers, strings and property maps as the TypeScript
  sources under \<^verbatim>\<open>src/typescript/src\<close> see them, thrown errors, and the generic
  lemmas the component theories rest on.

  \<^item> A finite double is the rational it denotes; every arithmetic expression of the sources that
    the development computes stays inside the exactly representable range, which the theorems
    say where it matters.
  \<^item> A string is a list of 16-bit code units, a byte an 8-bit word.
  \<^item> A value whose type the sources do not trust (\<^verbatim>\<open>unknown\<close>, provider results, option bags)
    is a \<open>jsval\<close>. Property names are ASCII in the sources and are plain \<open>string\<close>s here.
  \<^item> A throwing function returns \<open>jserror + 'a\<close> (\<open>Inl\<close> is the thrown error).
\<close>

named_theorems js_simps \<open>rewrite rules that decide type guards of the sources on concrete values\<close>

subsection \<open>Numbers\<close>

datatype jsnum = Fin rat | PosInf | NegInf | NaN

definition MAX_SAFE_INTEGER :: int where
  "MAX_SAFE_INTEGER = 9007199254740991"

definition rat_is_int :: "rat \<Rightarrow> bool" where
  "rat_is_int q \<longleftrightarrow> of_int \<lfloor>q\<rfloor> = q"

fun num_isFinite :: "jsnum \<Rightarrow> bool" where
  "num_isFinite (Fin _) = True"
| "num_isFinite _ = False"

fun num_isSafeInteger :: "jsnum \<Rightarrow> bool" where
  "num_isSafeInteger (Fin q) = (rat_is_int q \<and> \<bar>q\<bar> \<le> of_int MAX_SAFE_INTEGER)"
| "num_isSafeInteger _ = False"

text \<open>The relational operators on numbers; every comparison with NaN is false.\<close>

fun num_lt :: "jsnum \<Rightarrow> jsnum \<Rightarrow> bool" where
  "num_lt (Fin a) (Fin b) = (a < b)"
| "num_lt (Fin _) PosInf = True"
| "num_lt NegInf (Fin _) = True"
| "num_lt NegInf PosInf = True"
| "num_lt _ _ = False"

definition num_le :: "jsnum \<Rightarrow> jsnum \<Rightarrow> bool" where
  "num_le a b \<longleftrightarrow> a \<noteq> NaN \<and> b \<noteq> NaN \<and> (a = b \<or> num_lt a b)"

abbreviation num_of_int :: "int \<Rightarrow> jsnum" where
  "num_of_int n \<equiv> Fin (of_int n)"

lemma num_le_simps [simp]:
  "num_le (Fin a) (Fin b) = (a \<le> b)" "num_le NaN y = False" "num_le x NaN = False"
  "num_le (Fin a) PosInf" "num_le PosInf (Fin a) = False" "num_le NegInf (Fin a)"
  "num_le (Fin a) NegInf = False"
  by (auto simp: num_le_def)

lemma rat_is_int_of_int [simp]: "rat_is_int (of_int n)"
  by (simp add: rat_is_int_def)

lemma rat_is_int_numeral [simp]: "rat_is_int (numeral n)" "rat_is_int 0" "rat_is_int 1"
  by (simp_all add: rat_is_int_def)

lemma rat_is_int_iff: "rat_is_int q \<longleftrightarrow> (\<exists>n. q = of_int n)"
  by (auto simp: rat_is_int_def)

lemma num_isSafeInteger_of_int:
  "num_isSafeInteger (num_of_int n) \<longleftrightarrow> \<bar>n\<bar> \<le> MAX_SAFE_INTEGER"
  by (simp flip: of_int_abs)

text \<open>
  Conversion of a natural number (a BigInt read from a buffer, or a run of decimal digits) to a
  double: round to nearest, ties to even, on 53 bits; infinity past the largest finite double.
\<close>

fun bit_length :: "nat \<Rightarrow> nat" where
  "bit_length n = (if n = 0 then 0 else Suc (bit_length (n div 2)))"

declare bit_length.simps [simp del]

definition round53 :: "nat \<Rightarrow> nat" where
  "round53 n =
     (if n \<le> 2 ^ 53 then n
      else let e = bit_length n - 53; q = n div 2 ^ e; r = n mod 2 ^ e
           in if r * 2 < 2 ^ e \<or> r * 2 = 2 ^ e \<and> even q then q * 2 ^ e else (q + 1) * 2 ^ e)"

definition number_of_nat :: "nat \<Rightarrow> jsnum" where
  "number_of_nat n =
     (if n \<ge> 2 ^ 1024 - 2 ^ 970 then PosInf else Fin (of_nat (round53 n)))"

lemma bit_length_le: "n < 2 ^ k \<Longrightarrow> bit_length n \<le> k"
proof (induction n arbitrary: k rule: bit_length.induct)
  case (1 n)
  show ?case
  proof (cases "n = 0")
    case True
    then show ?thesis by (subst bit_length.simps) simp
  next
    case False
    with "1.prems" obtain k' where k: "k = Suc k'" by (cases k) auto
    with "1.prems" have "n div 2 < 2 ^ k'" by auto
    with False have "bit_length (n div 2) \<le> k'" by (rule "1.IH")
    with False k show ?thesis by (subst bit_length.simps) simp
  qed
qed

lemma bit_length_gt: "n \<noteq> 0 \<Longrightarrow> 2 ^ (bit_length n - 1) \<le> n"
proof (induction n rule: bit_length.induct)
  case (1 n)
  show ?case
  proof (cases "n div 2 = 0")
    case True
    then have "bit_length (n div 2) = 0" by (subst bit_length.simps) simp
    with "1.prems" show ?thesis by (subst bit_length.simps) simp
  next
    case False
    with "1.IH" "1.prems" have ih: "2 ^ (bit_length (n div 2) - 1) \<le> n div 2" by blast
    from False have pos: "bit_length (n div 2) \<noteq> 0" by (subst bit_length.simps) simp
    have "2 ^ (bit_length n - 1) = (2::nat) * 2 ^ (bit_length (n div 2) - 1)"
      using "1.prems" pos by (subst bit_length.simps) (cases "bit_length (n div 2)"; simp)
    with ih show ?thesis by linarith
  qed
qed

lemma less_pow_bit_length: "n < 2 ^ bit_length n"
proof (induction n rule: bit_length.induct)
  case (1 n)
  then show ?case by (subst bit_length.simps) auto
qed

lemma round53_exact: "n \<le> 2 ^ 53 \<Longrightarrow> round53 n = n"
  by (simp add: round53_def)

lemma round53_ge:
  assumes "2 ^ 53 \<le> n"
  shows "2 ^ 53 \<le> round53 n"
proof (cases "n = 2 ^ 53")
  case True
  then show ?thesis by (simp add: round53_def)
next
  case False
  define e where "e = bit_length n - 53"
  from assms have n0: "n \<noteq> 0" by auto
  have "\<not> bit_length n \<le> 53"
  proof
    assume "bit_length n \<le> 53"
    then have "n < 2 ^ 53" using less_pow_bit_length [of n]
      by (meson less_le_trans power_increasing one_le_numeral)
    with assms show False by simp
  qed
  then have b: "bit_length n - 1 = 52 + e" by (simp add: e_def)
  from bit_length_gt [OF n0] have "2 ^ (52 + e) \<le> n" unfolding b .
  then have "2 ^ 52 * 2 ^ e \<le> n" by (simp only: power_add)
  then have q: "2 ^ 52 \<le> n div 2 ^ e" by (subst less_eq_div_iff_mult_less_eq) simp_all
  have e1: "1 \<le> e" using \<open>\<not> bit_length n \<le> 53\<close> by (simp add: e_def)
  have "(2::nat) ^ 53 \<le> 2 ^ 52 * 2 ^ e"
  proof -
    have "(2::nat) ^ 1 \<le> 2 ^ e" using e1 by (rule power_increasing) simp
    then show ?thesis by simp
  qed
  also have "\<dots> \<le> n div 2 ^ e * 2 ^ e" using q by (rule mult_le_mono1)
  finally have lo: "2 ^ 53 \<le> n div 2 ^ e * 2 ^ e" .
  then have "2 ^ 53 \<le> (n div 2 ^ e + 1) * 2 ^ e" by (simp add: add_mult_distrib)
  with lo False assms show ?thesis
    by (simp only: round53_def Let_def e_def split: if_split) simp
qed

text \<open>
  The only question the sources ask of a converted number is whether it is a safe integer, and
  rounding never changes that answer.
\<close>

lemma number_of_nat_safe:
  "num_isSafeInteger (number_of_nat n) \<longleftrightarrow> int n \<le> MAX_SAFE_INTEGER"
proof (cases "n < 2 ^ 53")
  case True
  then have "n < 2 ^ 1024 - 2 ^ 970" by (rule less_le_trans) simp
  with True show ?thesis
    by (simp add: number_of_nat_def round53_exact rat_is_int_def MAX_SAFE_INTEGER_def)
next
  case False
  then have "2 ^ 53 \<le> round53 n" by (intro round53_ge) simp
  moreover from False have "\<not> int n \<le> MAX_SAFE_INTEGER"
    by (simp add: MAX_SAFE_INTEGER_def)
  ultimately show ?thesis
    by (simp add: number_of_nat_def MAX_SAFE_INTEGER_def)
qed


subsection \<open>Strings, bytes and untyped values\<close>

type_synonym jsstring = "16 word list"
type_synonym byte = "8 word"
type_synonym bytes = "8 word list"

text \<open>A string literal of the sources.\<close>

definition js :: "string \<Rightarrow> jsstring" where
  "js s = map of_char s"

datatype jsval =
    JUndef
  | JNull
  | JBool bool
  | JNum jsnum
  | JBigInt int
  | JStr jsstring
  | JArr "jsval list"
  | JObj "(string \<times> jsval) list"
  | JFun

text \<open>
  \<open>get_prop v name\<close> is \<^verbatim>\<open>v?.name\<close>: undefined on anything that is not a plain object.
  \<open>hasOwn\<close> is \<^verbatim>\<open>Object.hasOwn\<close>; a property may be present with the value undefined.
  \<open>is_plain_object\<close> is the guard \<^verbatim>\<open>v !== null && typeof v === "object" && !Array.isArray(v)\<close>.
\<close>

fun get_prop :: "jsval \<Rightarrow> string \<Rightarrow> jsval" where
  "get_prop (JObj ps) n = (case map_of ps n of None \<Rightarrow> JUndef | Some v \<Rightarrow> v)"
| "get_prop _ _ = JUndef"

fun hasOwn :: "jsval \<Rightarrow> string \<Rightarrow> bool" where
  "hasOwn (JObj ps) n = (n \<in> fst ` set ps)"
| "hasOwn _ _ = False"

fun is_plain_object :: "jsval \<Rightarrow> bool" where
  "is_plain_object (JObj _) = True"
| "is_plain_object _ = False"

fun is_array :: "jsval \<Rightarrow> bool" where
  "is_array (JArr _) = True"
| "is_array _ = False"

fun is_boolean :: "jsval \<Rightarrow> bool" where
  "is_boolean (JBool _) = True"
| "is_boolean _ = False"

fun is_number :: "jsval \<Rightarrow> bool" where
  "is_number (JNum _) = True"
| "is_number _ = False"

text \<open>\<^verbatim>\<open>a !== undefined ? a : b\<close>, the merge step every sparse overlay uses.\<close>

definition or_else :: "jsval \<Rightarrow> jsval \<Rightarrow> jsval" where
  "or_else a b = (if a \<noteq> JUndef then a else b)"

text \<open>\<^verbatim>\<open>...(v === undefined ? {} : { name: v })\<close>, the sparse object literal.\<close>

definition opt_prop :: "string \<Rightarrow> jsval \<Rightarrow> (string \<times> jsval) list" where
  "opt_prop n v = (if v = JUndef then [] else [(n, v)])"

lemma or_else_simps [simp]:
  "or_else JUndef b = b" "or_else a JUndef = a" "a \<noteq> JUndef \<Longrightarrow> or_else a b = a"
  by (auto simp: or_else_def)

lemma or_else_assoc: "or_else (or_else a b) c = or_else a (or_else b c)"
  by (simp add: or_else_def)

lemma opt_prop_undef [simp]: "opt_prop n JUndef = []"
  by (simp add: opt_prop_def)

lemma map_of_opt_prop: "map_of (opt_prop n v) m = (if m = n \<and> v \<noteq> JUndef then Some v else None)"
  by (simp add: opt_prop_def)

lemma map_of_opt_prop_append:
  "map_of (opt_prop n v @ ps) m = (if m = n \<and> v \<noteq> JUndef then Some v else map_of ps m)"
  by (simp add: opt_prop_def)

lemma fst_set_opt_prop: "fst ` set (opt_prop n v) = (if v = JUndef then {} else {n})"
  by (simp add: opt_prop_def)

text \<open>Reading a property of a sparse object literal, one written property at a time.\<close>

lemma get_prop_sparse:
  "get_prop (JObj (opt_prop n v @ ps)) m =
     (if m = n then or_else v (get_prop (JObj ps) m) else get_prop (JObj ps) m)"
  "get_prop (JObj (opt_prop n v)) m = (if m = n then v else JUndef)"
  "get_prop (JObj ((n, v) # ps)) m = (if m = n then v else get_prop (JObj ps) m)"
  "get_prop (JObj []) m = JUndef"
  by (simp_all add: opt_prop_def or_else_def)

lemma hasOwn_sparse:
  "hasOwn (JObj (opt_prop n v @ ps)) m \<longleftrightarrow> m = n \<and> v \<noteq> JUndef \<or> hasOwn (JObj ps) m"
  "hasOwn (JObj (opt_prop n v)) m \<longleftrightarrow> m = n \<and> v \<noteq> JUndef"
  "hasOwn (JObj ((n, v) # ps)) m \<longleftrightarrow> m = n \<or> hasOwn (JObj ps) m"
  "\<not> hasOwn (JObj []) m"
  by (auto simp: opt_prop_def)

lemmas sparse_simps = get_prop_sparse hasOwn_sparse

lemma is_plain_object_iff: "is_plain_object v \<longleftrightarrow> (\<exists>ps. v = JObj ps)"
  by (cases v) auto

lemma is_boolean_iff: "is_boolean v \<longleftrightarrow> (\<exists>b. v = JBool b)"
  by (cases v) auto

lemma is_number_iff: "is_number v \<longleftrightarrow> (\<exists>x. v = JNum x)"
  by (cases v) auto

subsection \<open>Thrown errors\<close>

text \<open>
  The error classes the sources construct (\<^verbatim>\<open>errors.ts\<close>, \<^verbatim>\<open>redis-client.ts\<close> and the built-in
  ones), and \<open>External n\<close>: a value thrown by code the application or a client library supplies,
  identified by \<open>n\<close>. Messages are kept where the sources distinguish failures only by them.
\<close>

datatype jserror =
    TypeError string
  | RangeError string
  | URIError
  | SyntaxError
  | PlainError string
  | FallbackTimeoutError jsstring int
  | RedisReadTimeoutError jsstring int
  | UseCaseIsAlreadyRegisteredError jsstring
  | UseCaseNameIsReservedError jsstring
  | DialCacheRedisPayloadError
  | DialCacheRedisPayloadEncodingError
  | DialCacheRedisProtocolError string
  | External nat

type_synonym 'a res = "jserror + 'a"

text \<open>Sequencing of throwing steps.\<close>

definition res_bind :: "'a res \<Rightarrow> ('a \<Rightarrow> 'b res) \<Rightarrow> 'b res" where
  "res_bind r f = (case r of Inl e \<Rightarrow> Inl e | Inr x \<Rightarrow> f x)"

definition check :: "bool \<Rightarrow> jserror \<Rightarrow> unit res" where
  "check ok e = (if ok then Inr () else Inl e)"

lemma res_bind_simps [simp]:
  "res_bind (Inl e) f = Inl e" "res_bind (Inr x) f = f x"
  by (simp_all add: res_bind_def)

lemma res_bind_Inr: "res_bind r f = Inr y \<longleftrightarrow> (\<exists>x. r = Inr x \<and> f x = Inr y)"
  by (cases r) auto

lemma res_bind_Inl: "res_bind r f = Inl e \<longleftrightarrow> r = Inl e \<or> (\<exists>x. r = Inr x \<and> f x = Inl e)"
  by (cases r) auto

lemma res_bind_assoc: "res_bind (res_bind r f) g = res_bind r (\<lambda>x. res_bind (f x) g)"
  by (cases r) auto

lemma check_simps [simp]:
  "check True e = Inr ()" "check False e = Inl e"
  "check ok e = Inr u \<longleftrightarrow> ok" "check ok e = Inl d \<longleftrightarrow> \<not> ok \<and> d = e"
  by (auto simp: check_def)

lemmas res_simps = res_bind_Inr res_bind_Inl res_bind_assoc

end
