(* ===== verification/Effects.thy ===== *)
theory Effects
  imports JS_Prelude
begin

section \<open>Effectful code as programs that ask and continue\<close>

text \<open>
  An async function of the sources runs until it needs something from outside: the clock, a Redis
  command, the serializer, the application's loader, a metrics adapter. Here it is a value of type
  \<open>prog\<close>: \<open>Ret\<close> returns, \<open>Thr\<close> throws, \<open>Req q k\<close> asks \<open>q\<close> and continues with \<open>k a\<close> for
  the answer \<open>a\<close>. Nothing is assumed about what happens between two requests, so a statement about
  every run of a program holds whatever other invocations do to shared state meanwhile.

  \<open>runs W p tr out\<close> is the big-step semantics: \<open>tr\<close> lists the requests with their answers and
  \<open>W q a\<close> says which answers a request can receive. \<open>always\<close> is its weakest precondition, which
  the simplifier computes over the sequencing operators; \<open>replay\<close> evaluates a program on a list of
  answers.
\<close>

datatype ('q, 'a, 'r) prog = Ret 'r | Thr jserror | Req 'q "'a \<Rightarrow> ('q, 'a, 'r) prog"

type_synonym ('q, 'a) trace = "('q \<times> 'a) list"

primrec pbind :: "('q, 'a, 'r) prog \<Rightarrow> ('r \<Rightarrow> ('q, 'a, 's) prog) \<Rightarrow> ('q, 'a, 's) prog" where
  "pbind (Ret x) f = f x"
| "pbind (Thr e) f = Thr e"
| "pbind (Req q k) f = Req q (\<lambda>a. pbind (k a) f)"

text \<open>\<^verbatim>\<open>try { p } catch (e) { h(e) }\<close>\<close>

primrec pcatch :: "('q, 'a, 'r) prog \<Rightarrow> (jserror \<Rightarrow> ('q, 'a, 'r) prog) \<Rightarrow> ('q, 'a, 'r) prog" where
  "pcatch (Ret x) h = Ret x"
| "pcatch (Thr e) h = h e"
| "pcatch (Req q k) h = Req q (\<lambda>a. pcatch (k a) h)"

text \<open>\<^verbatim>\<open>try { p } finally { f }\<close>\<close>

definition attempt :: "('q, 'a, 'r) prog \<Rightarrow> ('q, 'a, 'r res) prog" where
  "attempt p = pcatch (pbind p (\<lambda>x. Ret (Inr x))) (\<lambda>e. Ret (Inl e))"

definition of_res :: "'r res \<Rightarrow> ('q, 'a, 'r) prog" where
  "of_res r = (case r of Inl e \<Rightarrow> Thr e | Inr x \<Rightarrow> Ret x)"

definition pfinally :: "('q, 'a, 'r) prog \<Rightarrow> ('q, 'a, unit) prog \<Rightarrow> ('q, 'a, 'r) prog" where
  "pfinally p f = pbind (attempt p) (\<lambda>r. pbind f (\<lambda>_. of_res r))"

abbreviation pthen :: "('q, 'a, unit) prog \<Rightarrow> ('q, 'a, 's) prog \<Rightarrow> ('q, 'a, 's) prog" where
  "pthen p p' \<equiv> pbind p (\<lambda>_. p')"

subsection \<open>Semantics\<close>

inductive runs :: "('q \<Rightarrow> 'a \<Rightarrow> bool) \<Rightarrow> ('q, 'a, 'r) prog \<Rightarrow> ('q, 'a) trace \<Rightarrow> 'r res \<Rightarrow> bool"
  for W where
  runs_Ret: "runs W (Ret x) [] (Inr x)"
| runs_Thr: "runs W (Thr e) [] (Inl e)"
| runs_Req: "W q a \<Longrightarrow> runs W (k a) tr out \<Longrightarrow> runs W (Req q k) ((q, a) # tr) out"

inductive_simps runs_Ret_iff [simp]: "runs W (Ret x) tr out"
inductive_simps runs_Thr_iff [simp]: "runs W (Thr e) tr out"
inductive_simps runs_Req_iff: "runs W (Req q k) tr out"

primrec always ::
  "('q \<Rightarrow> 'a \<Rightarrow> bool) \<Rightarrow> ('q, 'a, 'r) prog \<Rightarrow> (('q, 'a) trace \<Rightarrow> 'r res \<Rightarrow> bool) \<Rightarrow> bool" where
  "always W (Ret x) = (\<lambda>Q. Q [] (Inr x))"
| "always W (Thr e) = (\<lambda>Q. Q [] (Inl e))"
| "always W (Req q k) = (\<lambda>Q. \<forall>a. W q a \<longrightarrow> always W (k a) (\<lambda>tr. Q ((q, a) # tr)))"

primrec replay :: "('q, 'a, 'r) prog \<Rightarrow> 'a list \<Rightarrow> (('q, 'a) trace \<times> 'r res) option" where
  "replay (Ret x) = (\<lambda>as. Some ([], Inr x))"
| "replay (Thr e) = (\<lambda>as. Some ([], Inl e))"
| "replay (Req q k) = (\<lambda>as. case as of [] \<Rightarrow> None
     | a # as' \<Rightarrow> map_option (\<lambda>(tr, out). ((q, a) # tr, out)) (replay (k a) as'))"

text \<open>\<open>always\<close> speaks about exactly the runs.\<close>

lemma always_iff_runs: "always W p Q \<longleftrightarrow> (\<forall>tr out. runs W p tr out \<longrightarrow> Q tr out)"
proof (induction p arbitrary: Q)
  case (Req q k)
  have "always W (Req q k) Q \<longleftrightarrow>
      (\<forall>a. W q a \<longrightarrow> (\<forall>tr out. runs W (k a) tr out \<longrightarrow> Q ((q, a) # tr) out))"
    using Req.IH [OF rangeI] by simp
  also have "\<dots> \<longleftrightarrow> (\<forall>tr out. runs W (Req q k) tr out \<longrightarrow> Q tr out)"
    by (auto simp: runs_Req_iff)
  finally show ?case .
qed auto

lemma always_runs: "always W p Q \<Longrightarrow> runs W p tr out \<Longrightarrow> Q tr out"
  by (simp add: always_iff_runs)

lemma alwaysI: "(\<And>tr out. runs W p tr out \<Longrightarrow> Q tr out) \<Longrightarrow> always W p Q"
  by (simp add: always_iff_runs)

lemma always_mono: "always W p Q \<Longrightarrow> (\<And>tr out. Q tr out \<Longrightarrow> Q' tr out) \<Longrightarrow> always W p Q'"
  by (auto simp: always_iff_runs)

lemma always_conj: "always W p (\<lambda>tr out. Q tr out \<and> Q' tr out) \<longleftrightarrow> always W p Q \<and> always W p Q'"
  by (auto simp: always_iff_runs)

lemma always_True [simp]: "always W p (\<lambda>tr out. True)"
  by (simp add: always_iff_runs)

lemma replay_runs:
  "replay p as = Some (tr, out) \<Longrightarrow> list_all (\<lambda>(q, a). W q a) tr \<Longrightarrow> runs W p tr out"
  by (induction p arbitrary: as tr)
     (auto split: list.splits intro!: runs.intros)

lemma always_replay:
  "always W p Q \<Longrightarrow> replay p as = Some (tr, out) \<Longrightarrow> list_all (\<lambda>(q, a). W q a) tr \<Longrightarrow> Q tr out"
  by (blast intro: always_runs replay_runs)

text \<open>Every program finishes on some run as soon as every request has an answer.\<close>

lemma runs_exists: "(\<And>q. \<exists>a. W q a) \<Longrightarrow> \<exists>tr out. runs W p tr out"
proof (induction p)
  case (Req q k)
  then obtain a where "W q a" by blast
  moreover from Req obtain tr out where "runs W (k a) tr out" by blast
  ultimately show ?case by (blast intro: runs.intros)
qed (auto intro: runs.intros)

subsection \<open>Sequencing rules\<close>

lemma pbind_assoc: "pbind (pbind p f) g = pbind p (\<lambda>x. pbind (f x) g)"
  by (induction p) auto

lemma pbind_Ret_right: "pbind p Ret = p"
  by (induction p) auto

lemma of_res_simps [simp]: "of_res (Inl e) = Thr e" "of_res (Inr x) = Ret x"
  by (simp_all add: of_res_def)

lemma always_pbind:
  "always W (pbind p f) Q \<longleftrightarrow>
   always W p (\<lambda>tr out. case out of Inl e \<Rightarrow> Q tr (Inl e)
                        | Inr x \<Rightarrow> always W (f x) (\<lambda>tr'. Q (tr @ tr')))"
  by (induction p arbitrary: Q) auto

lemma always_pcatch:
  "always W (pcatch p h) Q \<longleftrightarrow>
   always W p (\<lambda>tr out. case out of Inr x \<Rightarrow> Q tr (Inr x)
                        | Inl e \<Rightarrow> always W (h e) (\<lambda>tr'. Q (tr @ tr')))"
  by (induction p arbitrary: Q) auto

lemma always_attempt: "always W (attempt p) Q \<longleftrightarrow> always W p (\<lambda>tr out. Q tr (Inr out))"
  unfolding attempt_def always_pcatch always_pbind
  by (rule arg_cong [where f = "always W p"]) (auto intro!: ext split: sum.splits)

lemma always_pfinally:
  "always W (pfinally p f) Q \<longleftrightarrow>
   always W p (\<lambda>tr out. always W f (\<lambda>tr' out'. Q (tr @ tr')
      (case out' of Inl e \<Rightarrow> Inl e | Inr _ \<Rightarrow> out)))"
proof -
  have *: "(case out' of Inl e \<Rightarrow> Q (tr @ tr') (Inl e)
            | Inr x \<Rightarrow> always W (of_res out) (\<lambda>tra. Q (tr @ tr' @ tra))) =
           Q (tr @ tr') (case out' of Inl e \<Rightarrow> Inl e | Inr _ \<Rightarrow> out)"
    for tr tr' and out' :: "unit res" and out
    by (cases out'; cases out) auto
  show ?thesis
    by (simp add: pfinally_def always_pbind always_attempt * cong: sum.case_cong)
qed

lemmas always_simps = always_pbind always_pcatch always_attempt always_pfinally

text \<open>
  The consequence rule for a call: to show something of every run of \<open>p\<close> followed by \<open>f\<close>, take
  the specification of \<open>p\<close> and continue.
\<close>

lemma always_pbindI:
  assumes "always W p R"
    and "\<And>tr e. R tr (Inl e) \<Longrightarrow> Q tr (Inl e)"
    and "\<And>tr x. R tr (Inr x) \<Longrightarrow> always W (f x) (\<lambda>tr'. Q (tr @ tr'))"
  shows "always W (pbind p f) Q"
  unfolding always_pbind
  by (rule always_mono [OF assms(1)]) (auto split: sum.split intro: assms(2,3))

lemma always_pcatchI:
  assumes "always W p R"
    and "\<And>tr x. R tr (Inr x) \<Longrightarrow> Q tr (Inr x)"
    and "\<And>tr e. R tr (Inl e) \<Longrightarrow> always W (h e) (\<lambda>tr'. Q (tr @ tr'))"
  shows "always W (pcatch p h) Q"
  unfolding always_pcatch
  by (rule always_mono [OF assms(1)]) (auto split: sum.split intro: assms(2,3))

subsection \<open>Handlers\<close>

text \<open>A program run against a handler of its requests, which keeps its own state.\<close>

primrec serve :: "('q \<Rightarrow> 's \<Rightarrow> 'a \<times> 's) \<Rightarrow> ('q, 'a, 'r) prog \<Rightarrow> 's \<Rightarrow> 'r res \<times> 's" where
  "serve h (Ret x) s = (Inr x, s)"
| "serve h (Thr e) s = (Inl e, s)"
| "serve h (Req q k) s = serve h (k (fst (h q s))) (snd (h q s))"

lemma serve_pbind: "serve h (pbind p f) s = (case serve h p s of (Inl e, s') \<Rightarrow> (Inl e, s') | (Inr x, s') \<Rightarrow> serve h (f x) s')"
  by (induction p arbitrary: s) auto

end
