(* ===== verification/Durations.thy ===== *)
theory Durations
  imports JS_Prelude
begin

section \<open>Durations and their input domains\<close>

text \<open>
  \<^verbatim>\<open>internal/duration.ts\<close> and the deadline bound of \<^verbatim>\<open>internal/deadline.ts\<close>: the guards every
  TTL, invalidation buffer and timeout passes before it is used. A duration that passed its guard is
  an \<open>int\<close> in the rest of the development.
\<close>

definition MAX_SUPPORTED_DURATION_MS :: int where
  "MAX_SUPPORTED_DURATION_MS = 365 * 24 * 60 * 60 * 1000"

definition MAX_CACHE_TTL_SEC :: int where
  "MAX_CACHE_TTL_SEC = MAX_SUPPORTED_DURATION_MS div 1000"

definition MAX_TRACKED_REDIS_VALUE_TTL_MS :: int where
  "MAX_TRACKED_REDIS_VALUE_TTL_MS = 60 * 60 * 1000"

definition MAX_TIMER_DELAY_MS :: int where
  "MAX_TIMER_DELAY_MS = 2147483647"

fun isSupportedCacheTtlSec :: "jsval \<Rightarrow> bool" where
  "isSupportedCacheTtlSec (JNum x) =
     (num_isSafeInteger x \<and> num_lt (Fin 0) x \<and> num_le x (num_of_int MAX_CACHE_TTL_SEC))"
| "isSupportedCacheTtlSec _ = False"

definition cacheTtlSecToMs :: "int \<Rightarrow> int res" where
  "cacheTtlSecToMs ttlSec =
     (if \<not> isSupportedCacheTtlSec (JNum (num_of_int ttlSec))
      then Inl (RangeError ''DialCache cache TTL must be a positive safe integer'')
      else Inr (ttlSec * 1000))"

text \<open>\<^verbatim>\<open>Math.ceil\<close>\<close>

fun num_ceil :: "jsnum \<Rightarrow> jsnum" where
  "num_ceil (Fin q) = num_of_int \<lceil>q\<rceil>"
| "num_ceil x = x"

definition ceilSupportedCacheTtlMs :: "jsval \<Rightarrow> jsnum res" where
  "ceilSupportedCacheTtlMs cacheTtlMs =
     (let ceiled = (case cacheTtlMs of JNum x \<Rightarrow> num_ceil x | _ \<Rightarrow> NaN)
      in if \<not> num_isFinite ceiled \<or> num_le ceiled (Fin 0)
            \<or> num_lt (num_of_int MAX_SUPPORTED_DURATION_MS) ceiled
         then Inl (RangeError ''DialCache Redis write cacheTtlMs must be a positive duration'')
         else Inr ceiled)"

definition assertSupportedFutureBufferMs :: "jsval \<Rightarrow> unit res" where
  "assertSupportedFutureBufferMs v =
     (case v of
        JNum x \<Rightarrow> check (num_isSafeInteger x \<and> \<not> num_lt x (Fin 0)
                         \<and> \<not> num_lt (num_of_int MAX_SUPPORTED_DURATION_MS) x)
                   (RangeError ''DialCache invalidation futureBufferMs must be a nonnegative safe integer'')
      | _ \<Rightarrow> Inl (RangeError ''DialCache invalidation futureBufferMs must be a nonnegative safe integer''))"

definition assertValidDeadlineMs :: "jsval \<Rightarrow> string \<Rightarrow> unit res" where
  "assertValidDeadlineMs v name =
     (case v of
        JNum x \<Rightarrow> check (num_isSafeInteger x \<and> \<not> num_le x (Fin 0)
                         \<and> \<not> num_lt (num_of_int MAX_TIMER_DELAY_MS) x)
                   (RangeError (name @ '' must be a positive safe integer''))
      | _ \<Rightarrow> Inl (RangeError (name @ '' must be a positive safe integer'')))"

text \<open>The integer a validated numeric leaf denotes.\<close>

fun int_of_val :: "jsval \<Rightarrow> int" where
  "int_of_val (JNum (Fin q)) = \<lfloor>q\<rfloor>"
| "int_of_val _ = 0"

subsection \<open>What the guards accept\<close>

lemmas duration_consts = MAX_SUPPORTED_DURATION_MS_def MAX_CACHE_TTL_SEC_def
  MAX_TRACKED_REDIS_VALUE_TTL_MS_def MAX_TIMER_DELAY_MS_def MAX_SAFE_INTEGER_def

lemma MAX_CACHE_TTL_SEC_eq: "MAX_CACHE_TTL_SEC = 31536000"
  by (simp add: duration_consts)

lemma isSafeInteger_iff:
  "num_isSafeInteger x \<longleftrightarrow> (\<exists>n. x = num_of_int n \<and> \<bar>n\<bar> \<le> MAX_SAFE_INTEGER)"
proof (cases x)
  case (Fin q)
  then show ?thesis
    by (auto simp: rat_is_int_iff simp flip: of_int_abs) 
qed auto

lemma int_of_val_of_int [simp]: "int_of_val (JNum (num_of_int n)) = n"
  by simp

lemma isSupportedCacheTtlSec_iff:
  "isSupportedCacheTtlSec v \<longleftrightarrow> (\<exists>n. v = JNum (num_of_int n) \<and> 1 \<le> n \<and> n \<le> MAX_CACHE_TTL_SEC)"
proof (cases v)
  case (JNum x)
  show ?thesis
  proof
    assume "isSupportedCacheTtlSec v"
    with JNum obtain n where "x = num_of_int n" "num_lt (Fin 0) x" "num_le x (num_of_int MAX_CACHE_TTL_SEC)"
      by (auto simp: isSafeInteger_iff)
    then show "\<exists>n. v = JNum (num_of_int n) \<and> 1 \<le> n \<and> n \<le> MAX_CACHE_TTL_SEC"
      using JNum by (intro exI [of _ n]) auto
  next
    assume "\<exists>n. v = JNum (num_of_int n) \<and> 1 \<le> n \<and> n \<le> MAX_CACHE_TTL_SEC"
    then obtain n where n: "v = JNum (num_of_int n)" "1 \<le> n" "n \<le> MAX_CACHE_TTL_SEC" by blast
    then have "\<bar>n\<bar> \<le> MAX_SAFE_INTEGER" by (simp add: duration_consts)
    then have "num_isSafeInteger (num_of_int n)" by (simp only: num_isSafeInteger_of_int)
    with n show "isSupportedCacheTtlSec v" by (simp del: num_isSafeInteger.simps)
  qed
qed auto

lemma isSupportedCacheTtlSec_int [simp]:
  "isSupportedCacheTtlSec (JNum (num_of_int n)) \<longleftrightarrow> 1 \<le> n \<and> n \<le> MAX_CACHE_TTL_SEC"
  by (auto simp: isSupportedCacheTtlSec_iff simp del: isSupportedCacheTtlSec.simps)

declare isSupportedCacheTtlSec.simps(1) [simp del]

lemma cacheTtlSecToMs_Inr:
  "cacheTtlSecToMs s = Inr ms \<longleftrightarrow> 1 \<le> s \<and> s \<le> MAX_CACHE_TTL_SEC \<and> ms = s * 1000"
  by (auto simp: cacheTtlSecToMs_def)

lemma cacheTtlSecToMs_ok [simp]:
  "1 \<le> s \<Longrightarrow> s \<le> MAX_CACHE_TTL_SEC \<Longrightarrow> cacheTtlSecToMs s = Inr (s * 1000)"
  by (simp add: cacheTtlSecToMs_Inr)

lemma cacheTtlSecToMs_bounds:
  "cacheTtlSecToMs s = Inr ms \<Longrightarrow> 1000 \<le> ms \<and> ms \<le> MAX_SUPPORTED_DURATION_MS"
  by (auto simp: cacheTtlSecToMs_Inr duration_consts)

text \<open>
  \<^verbatim>\<open>ceilSupportedCacheTtlMs\<close> accepts exactly the finite numbers whose ceiling is a positive
  duration of at most 365 days, and what it returns is that ceiling: the least integer not below the
  input, between 1 and the ceiling of the protocol. Everything else, NaN, the infinities and
  non-numbers included, is rejected with a RangeError.
\<close>

theorem ceilSupportedCacheTtlMs_exact:
  "ceilSupportedCacheTtlMs v =
     (case v of
        JNum (Fin q) \<Rightarrow>
          if 0 < q \<and> q \<le> of_int MAX_SUPPORTED_DURATION_MS then Inr (num_of_int \<lceil>q\<rceil>)
          else Inl (RangeError ''DialCache Redis write cacheTtlMs must be a positive duration'')
      | _ \<Rightarrow> Inl (RangeError ''DialCache Redis write cacheTtlMs must be a positive duration''))"
proof (cases v)
  case (JNum x)
  show ?thesis
  proof (cases x)
    case (Fin q)
    have "\<not> (of_int \<lceil>q\<rceil> :: rat) \<le> 0 \<longleftrightarrow> 0 < q"
      by (simp add: not_le)
    moreover have "\<not> (of_int MAX_SUPPORTED_DURATION_MS :: rat) < of_int \<lceil>q\<rceil> \<longleftrightarrow>
        q \<le> of_int MAX_SUPPORTED_DURATION_MS"
      by (simp add: not_less ceiling_le_iff)
    ultimately show ?thesis
      using JNum Fin by (auto simp: ceilSupportedCacheTtlMs_def Let_def)
  qed (use JNum in \<open>simp_all add: ceilSupportedCacheTtlMs_def\<close>)
qed (simp_all add: ceilSupportedCacheTtlMs_def)

lemma assertSupportedFutureBufferMs_Inr:
  "assertSupportedFutureBufferMs v = Inr u \<longleftrightarrow>
   (\<exists>n. v = JNum (num_of_int n) \<and> 0 \<le> n \<and> n \<le> MAX_SUPPORTED_DURATION_MS)"
proof (cases v)
  case (JNum x)
  have "(num_isSafeInteger x \<and> \<not> num_lt x (Fin 0) \<and> \<not> num_lt (num_of_int MAX_SUPPORTED_DURATION_MS) x) \<longleftrightarrow>
        (\<exists>n. x = num_of_int n \<and> 0 \<le> n \<and> n \<le> MAX_SUPPORTED_DURATION_MS)"
    unfolding isSafeInteger_iff by (auto simp: duration_consts not_less)
  with JNum show ?thesis by (simp add: assertSupportedFutureBufferMs_def)
qed (simp_all add: assertSupportedFutureBufferMs_def)

lemma assertValidDeadlineMs_Inr:
  "assertValidDeadlineMs v name = Inr u \<longleftrightarrow>
   (\<exists>n. v = JNum (num_of_int n) \<and> 1 \<le> n \<and> n \<le> MAX_TIMER_DELAY_MS)"
proof (cases v)
  case (JNum x)
  have "(num_isSafeInteger x \<and> \<not> num_le x (Fin 0) \<and> \<not> num_lt (num_of_int MAX_TIMER_DELAY_MS) x) \<longleftrightarrow>
        (\<exists>n. x = num_of_int n \<and> 1 \<le> n \<and> n \<le> MAX_TIMER_DELAY_MS)"
    unfolding isSafeInteger_iff by (auto simp: duration_consts not_less not_le)
  with JNum show ?thesis by (simp add: assertValidDeadlineMs_def)
qed (simp_all add: assertValidDeadlineMs_def)

end
