(* ===== verification/KeyConfig.thy ===== *)
theory KeyConfig
  imports Durations
begin

section \<open>Cache policy objects\<close>

text \<open>
  \<^verbatim>\<open>config.ts\<close>: the class \<^verbatim>\<open>DialCacheKeyConfig\<close> and its constructor. The input is untrusted (a
  provider may be untyped code), so it is a \<open>jsval\<close>; the instance is the record \<open>key_config\<close>. Layer
  maps, the shadow group and \<^verbatim>\<open>staleOnErrorMaxAgeSec\<close> keep unvalidated leaves, as the class does.
\<close>

datatype cache_layer = LOCAL | REMOTE

fun layer_name :: "cache_layer \<Rightarrow> string" where
  "layer_name LOCAL = ''local''"
| "layer_name REMOTE = ''remote''"

record key_config =
  ttlSec :: jsval
  ramp :: jsval
  shadow :: jsval
  requestLocal :: "bool option"
  coalesce :: "bool option"
  staleOnErrorMaxAgeSec :: jsval
  remoteReadTimeoutMs :: "int option"

definition cloneLayerConfig :: "jsval \<Rightarrow> string \<Rightarrow> jsval res" where
  "cloneLayerConfig config name =
     (if config = JUndef then Inr (JObj [])
      else if \<not> is_plain_object config
        then Inl (TypeError (''DialCache '' @ name @ '' config must be a layer map''))
      else Inr config)"

definition cloneMismatchLoggingConfig :: "jsval \<Rightarrow> jsval res" where
  "cloneMismatchLoggingConfig config =
     (if \<not> is_plain_object config
      then Inl (TypeError ''DialCache shadow mismatchLogging config must be an object'')
      else Inr config)"

definition cloneShadowConfig :: "jsval \<Rightarrow> jsval res" where
  "cloneShadowConfig config =
     (if config = JUndef then Inr JUndef
      else if \<not> is_plain_object config
        then Inl (TypeError ''DialCache shadow config must be an object'')
      else if get_prop config ''mismatchLogging'' = JUndef then Inr config
      else res_bind (cloneMismatchLoggingConfig (get_prop config ''mismatchLogging'')) (\<lambda>_. Inr config))"

text \<open>An optional boolean leaf: absent, a boolean, or a TypeError.\<close>

definition opt_boolean :: "jsval \<Rightarrow> string \<Rightarrow> bool option res" where
  "opt_boolean v msg =
     (case v of JUndef \<Rightarrow> Inr None | JBool b \<Rightarrow> Inr (Some b) | _ \<Rightarrow> Inl (TypeError msg))"

definition DialCacheKeyConfig_new :: "jsval \<Rightarrow> key_config res" where
  "DialCacheKeyConfig_new config =
     res_bind (check (is_plain_object config)
                 (TypeError ''DialCache key config must be an object'')) (\<lambda>_.
     res_bind (check (\<not> hasOwn config ''shadowRamp'')
                 (TypeError ''DialCacheKeyConfig.shadowRamp was replaced by shadow.ramp'')) (\<lambda>_.
     res_bind (cloneLayerConfig (get_prop config ''ttlSec'') ''ttlSec'') (\<lambda>ttl.
     res_bind (cloneLayerConfig (get_prop config ''ramp'') ''ramp'') (\<lambda>rmp.
     res_bind (cloneShadowConfig (get_prop config ''shadow'')) (\<lambda>shd.
     res_bind (opt_boolean (get_prop config ''requestLocal'')
                 ''DialCache requestLocal config must be a boolean'') (\<lambda>rl.
     res_bind (opt_boolean (get_prop config ''coalesce'')
                 ''DialCache coalesce config must be a boolean'') (\<lambda>co.
     res_bind (if get_prop config ''remoteReadTimeoutMs'' = JUndef then Inr None
               else res_bind (assertValidDeadlineMs (get_prop config ''remoteReadTimeoutMs'')
                                ''DialCache remoteReadTimeoutMs'')
                      (\<lambda>_. Inr (Some (int_of_val (get_prop config ''remoteReadTimeoutMs''))))) (\<lambda>rrt.
     Inr \<lparr>ttlSec = ttl, ramp = rmp, shadow = shd, requestLocal = rl, coalesce = co,
          staleOnErrorMaxAgeSec = get_prop config ''staleOnErrorMaxAgeSec'',
          remoteReadTimeoutMs = rrt\<rparr>))))))))"

text \<open>The two static factories, by the object literal they pass to the constructor.\<close>

definition enabled_input :: "jsval \<Rightarrow> jsval" where
  "enabled_input ttl =
     JObj [(''ttlSec'', JObj [(''local'', ttl), (''remote'', ttl)]),
           (''ramp'', JObj [(''local'', JNum (Fin 100)), (''remote'', JNum (Fin 100))])]"

definition DialCacheKeyConfig_enabled :: "jsval \<Rightarrow> key_config res" where
  "DialCacheKeyConfig_enabled ttl = DialCacheKeyConfig_new (enabled_input ttl)"

definition disabled_input :: jsval where
  "disabled_input =
     JObj [(''requestLocal'', JBool False),
           (''staleOnErrorMaxAgeSec'', JNum (Fin 0)),
           (''shadow'', JObj [(''ramp'', JNum (Fin 0)),
              (''mismatchLogging'', JObj [(''value'', JBool False), (''diff'', JStr (js ''off''))])]),
           (''ramp'', JObj [(''local'', JNum (Fin 0)), (''remote'', JNum (Fin 0))])]"

definition DialCacheKeyConfig_disabled :: "key_config res" where
  "DialCacheKeyConfig_disabled = DialCacheKeyConfig_new disabled_input"

subsection \<open>An instance read back as an object\<close>

text \<open>
  The runtime merge reads the properties of a default instance and of a provider's object in the same
  way. \<open>config_obj\<close> is the instance as that read sees it.
\<close>

definition bool_val :: "bool option \<Rightarrow> jsval" where
  "bool_val b = (case b of None \<Rightarrow> JUndef | Some x \<Rightarrow> JBool x)"

definition int_val :: "int option \<Rightarrow> jsval" where
  "int_val n = (case n of None \<Rightarrow> JUndef | Some x \<Rightarrow> JNum (num_of_int x))"

definition config_obj :: "key_config \<Rightarrow> jsval" where
  "config_obj c =
     JObj ([(''ttlSec'', ttlSec c), (''ramp'', ramp c)]
           @ opt_prop ''shadow'' (shadow c)
           @ opt_prop ''requestLocal'' (bool_val (requestLocal c))
           @ opt_prop ''coalesce'' (bool_val (coalesce c))
           @ opt_prop ''staleOnErrorMaxAgeSec'' (staleOnErrorMaxAgeSec c)
           @ opt_prop ''remoteReadTimeoutMs'' (int_val (remoteReadTimeoutMs c)))"

definition wf_config :: "key_config \<Rightarrow> bool" where
  "wf_config c \<longleftrightarrow>
     is_plain_object (ttlSec c) \<and> is_plain_object (ramp c)
     \<and> (shadow c = JUndef \<or> is_plain_object (shadow c)
          \<and> (get_prop (shadow c) ''mismatchLogging'' = JUndef
               \<or> is_plain_object (get_prop (shadow c) ''mismatchLogging'')))
     \<and> (case remoteReadTimeoutMs c of None \<Rightarrow> True | Some t \<Rightarrow> 1 \<le> t \<and> t \<le> MAX_TIMER_DELAY_MS)"

subsection \<open>The constructor establishes the invariant\<close>

lemma cloneLayerConfig_Inr:
  "cloneLayerConfig v n = Inr c \<longleftrightarrow> (v = JUndef \<and> c = JObj [] \<or> is_plain_object v \<and> c = v)"
  by (cases v) (auto simp: cloneLayerConfig_def)

lemma cloneShadowConfig_Inr:
  "cloneShadowConfig v = Inr c \<longleftrightarrow>
   c = v \<and> (v = JUndef \<or> is_plain_object v \<and>
     (get_prop v ''mismatchLogging'' = JUndef \<or> is_plain_object (get_prop v ''mismatchLogging'')))"
  by (auto simp: cloneShadowConfig_def cloneMismatchLoggingConfig_def split: if_splits)

lemma opt_boolean_Inr: "opt_boolean v m = Inr b \<longleftrightarrow> v = bool_val b"
  by (cases v; cases b) (auto simp: opt_boolean_def bool_val_def)

lemma opt_deadline_Inr:
  "(if v = JUndef then Inr None
    else res_bind (assertValidDeadlineMs v name) (\<lambda>_. Inr (Some (int_of_val v)))) = Inr t \<longleftrightarrow>
   v = int_val t \<and> (case t of None \<Rightarrow> True | Some n \<Rightarrow> 1 \<le> n \<and> n \<le> MAX_TIMER_DELAY_MS)"
  by (cases t) (auto simp: int_val_def res_bind_Inr assertValidDeadlineMs_Inr)

lemma DialCacheKeyConfig_new_Inr:
  "DialCacheKeyConfig_new v = Inr c \<longleftrightarrow>
     is_plain_object v \<and> \<not> hasOwn v ''shadowRamp'' \<and>
     cloneLayerConfig (get_prop v ''ttlSec'') ''ttlSec'' = Inr (ttlSec c) \<and>
     cloneLayerConfig (get_prop v ''ramp'') ''ramp'' = Inr (ramp c) \<and>
     cloneShadowConfig (get_prop v ''shadow'') = Inr (shadow c) \<and>
     get_prop v ''requestLocal'' = bool_val (requestLocal c) \<and>
     get_prop v ''coalesce'' = bool_val (coalesce c) \<and>
     get_prop v ''remoteReadTimeoutMs'' = int_val (remoteReadTimeoutMs c) \<and>
     (case remoteReadTimeoutMs c of None \<Rightarrow> True | Some n \<Rightarrow> 1 \<le> n \<and> n \<le> MAX_TIMER_DELAY_MS) \<and>
     staleOnErrorMaxAgeSec c = get_prop v ''staleOnErrorMaxAgeSec''"
  unfolding DialCacheKeyConfig_new_def res_bind_Inr check_simps opt_boolean_Inr opt_deadline_Inr
  by (cases c) auto

lemma DialCacheKeyConfig_new_wf: "DialCacheKeyConfig_new v = Inr c \<Longrightarrow> wf_config c"
  by (auto simp: DialCacheKeyConfig_new_Inr wf_config_def cloneLayerConfig_Inr cloneShadowConfig_Inr)

lemma get_prop_config_obj [simp]:
  "get_prop (config_obj c) ''ttlSec'' = ttlSec c"
  "get_prop (config_obj c) ''ramp'' = ramp c"
  "get_prop (config_obj c) ''shadow'' = shadow c"
  "get_prop (config_obj c) ''requestLocal'' = bool_val (requestLocal c)"
  "get_prop (config_obj c) ''coalesce'' = bool_val (coalesce c)"
  "get_prop (config_obj c) ''staleOnErrorMaxAgeSec'' = staleOnErrorMaxAgeSec c"
  "get_prop (config_obj c) ''remoteReadTimeoutMs'' = int_val (remoteReadTimeoutMs c)"
  by (simp_all add: config_obj_def opt_prop_def)

lemma config_obj_plain [simp]:
  "is_plain_object (config_obj c)" "\<not> hasOwn (config_obj c) ''shadowRamp''" "config_obj c \<noteq> JUndef"
  "config_obj c \<noteq> JNull"
  by (simp_all add: config_obj_def opt_prop_def)

text \<open>Rebuilding a well-formed instance from its own properties gives the same instance.\<close>

lemma DialCacheKeyConfig_new_config_obj: "wf_config c \<Longrightarrow> DialCacheKeyConfig_new (config_obj c) = Inr c"
  by (auto simp: DialCacheKeyConfig_new_Inr wf_config_def cloneLayerConfig_Inr cloneShadowConfig_Inr)

end
