(* ===== verification/Utf8.thy ===== *)
theory Utf8
  imports JS_Prelude
begin

section \<open>UTF-16 strings as UTF-8 bytes\<close>

text \<open>
  What \<^verbatim>\<open>Buffer.from(s, "utf8")\<close>, \<^verbatim>\<open>Buffer.byteLength\<close>, \<^verbatim>\<open>TextEncoder\<close> and
  \<^verbatim>\<open>buffer.toString("utf8")\<close> compute. Encoding replaces a lone surrogate by U+FFFD; decoding
  follows the WHATWG decoder: each maximal invalid prefix becomes one U+FFFD and the offending byte
  is read again. Strings without lone surrogates survive the round trip.
\<close>

definition is_high :: "16 word \<Rightarrow> bool" where
  "is_high u \<longleftrightarrow> 0xD800 \<le> unat u \<and> unat u < 0xDC00"

definition is_low :: "16 word \<Rightarrow> bool" where
  "is_low u \<longleftrightarrow> 0xDC00 \<le> unat u \<and> unat u < 0xE000"

definition is_surrogate :: "nat \<Rightarrow> bool" where
  "is_surrogate cp \<longleftrightarrow> 0xD800 \<le> cp \<and> cp < 0xE000"

definition is_scalar :: "nat \<Rightarrow> bool" where
  "is_scalar cp \<longleftrightarrow> cp < 0x110000 \<and> \<not> is_surrogate cp"

text \<open>Code points of a string, as its iterator yields them; a lone surrogate is kept.\<close>

fun utf16_decode :: "jsstring \<Rightarrow> nat list" where
  "utf16_decode [] = []"
| "utf16_decode [u] = [unat u]"
| "utf16_decode (u # v # us) =
     (if is_high u \<and> is_low v
      then (0x10000 + (unat u - 0xD800) * 0x400 + (unat v - 0xDC00)) # utf16_decode us
      else unat u # utf16_decode (v # us))"

definition unit_of :: "nat \<Rightarrow> 16 word" where
  "unit_of n = of_nat n"

definition utf16_point :: "nat \<Rightarrow> jsstring" where
  "utf16_point cp =
     (if cp < 0x10000 then [unit_of cp]
      else [unit_of (0xD800 + (cp - 0x10000) div 0x400), unit_of (0xDC00 + (cp - 0x10000) mod 0x400)])"

definition utf16_encode :: "nat list \<Rightarrow> jsstring" where
  "utf16_encode cps = concat (map utf16_point cps)"

definition well_formed :: "jsstring \<Rightarrow> bool" where
  "well_formed s \<longleftrightarrow> list_all (\<lambda>cp. \<not> is_surrogate cp) (utf16_decode s)"

definition to_scalar :: "nat \<Rightarrow> nat" where
  "to_scalar cp = (if is_surrogate cp then 0xFFFD else cp)"

definition byte_of :: "nat \<Rightarrow> byte" where
  "byte_of n = of_nat n"

definition utf8_point :: "nat \<Rightarrow> bytes" where
  "utf8_point cp =
     (if cp < 0x80 then [byte_of cp]
      else if cp < 0x800 then [byte_of (0xC0 + cp div 64), byte_of (0x80 + cp mod 64)]
      else if cp < 0x10000
        then [byte_of (0xE0 + cp div 4096), byte_of (0x80 + cp div 64 mod 64), byte_of (0x80 + cp mod 64)]
      else [byte_of (0xF0 + cp div 262144), byte_of (0x80 + cp div 4096 mod 64),
            byte_of (0x80 + cp div 64 mod 64), byte_of (0x80 + cp mod 64)])"

definition utf8_encode :: "jsstring \<Rightarrow> bytes" where
  "utf8_encode s = concat (map (utf8_point \<circ> to_scalar) (utf16_decode s))"

definition byteLength :: "jsstring \<Rightarrow> nat" where
  "byteLength s = length (utf8_encode s)"

text \<open>
  The decoder: \<open>need\<close> continuation bytes are missing, \<open>acc\<close> holds the bits read so far, and the next
  byte must lie between \<open>lo\<close> and \<open>hi\<close>.
\<close>

function utf8_dec :: "nat \<Rightarrow> nat \<Rightarrow> nat \<Rightarrow> nat \<Rightarrow> bytes \<Rightarrow> nat list" where
  "utf8_dec need acc lo hi [] = (if need = 0 then [] else [0xFFFD])"
| "utf8_dec need acc lo hi (b # bs) =
     (let x = unat b in
      if need = 0 then
        if x < 0x80 then x # utf8_dec 0 0 0x80 0xBF bs
        else if 0xC2 \<le> x \<and> x \<le> 0xDF then utf8_dec 1 (x - 0xC0) 0x80 0xBF bs
        else if 0xE0 \<le> x \<and> x \<le> 0xEF
          then utf8_dec 2 (x - 0xE0) (if x = 0xE0 then 0xA0 else 0x80) (if x = 0xED then 0x9F else 0xBF) bs
        else if 0xF0 \<le> x \<and> x \<le> 0xF4
          then utf8_dec 3 (x - 0xF0) (if x = 0xF0 then 0x90 else 0x80) (if x = 0xF4 then 0x8F else 0xBF) bs
        else 0xFFFD # utf8_dec 0 0 0x80 0xBF bs
      else if lo \<le> x \<and> x \<le> hi then
        (if need = 1 then (acc * 64 + (x - 0x80)) # utf8_dec 0 0 0x80 0xBF bs
         else utf8_dec (need - 1) (acc * 64 + (x - 0x80)) 0x80 0xBF bs)
      else 0xFFFD # utf8_dec 0 0 0x80 0xBF (b # bs))"
  by pat_completeness auto
termination
  by (relation "measure (\<lambda>(need, acc, lo, hi, bs). 2 * length bs + (if need = 0 then 0 else 1))") auto

abbreviation utf8_decode :: "bytes \<Rightarrow> nat list" where
  "utf8_decode \<equiv> utf8_dec 0 0 0x80 0xBF"

definition utf8_toString :: "bytes \<Rightarrow> jsstring" where
  "utf8_toString bs = utf16_encode (utf8_decode bs)"

subsection \<open>Round trips\<close>

lemma unat_unit_of: "x < 65536 \<Longrightarrow> unat (unit_of x) = x"
  by (simp add: unit_of_def unat_of_nat take_bit_eq_mod)

lemma unit_of_unat [simp]: "unit_of (unat u) = u"
  by (simp add: unit_of_def)

lemma unat_byte_of: "x < 256 \<Longrightarrow> unat (byte_of x) = x"
  by (simp add: byte_of_def unat_of_nat take_bit_eq_mod)

lemma byte_of_unat [simp]: "byte_of (unat b) = b"
  by (simp add: byte_of_def)

lemma unat_lt_16: "unat (u :: 16 word) < 65536"
  using unsigned_less [of u, where ?'a = nat] by simp

lemma unat_lt_8: "unat (b :: 8 word) < 256"
  using unsigned_less [of b, where ?'a = nat] by simp

lemma utf16_point_small: "cp < 0x10000 \<Longrightarrow> utf16_point cp = [unit_of cp]"
  by (simp add: utf16_point_def)

lemma utf16_point_pair:
  assumes "is_high u" "is_low v"
  shows "utf16_point (0x10000 + (unat u - 0xD800) * 0x400 + (unat v - 0xDC00)) = [u, v]"
proof -
  have v: "unat v - 0xDC00 < 0x400" using assms(2) by (auto simp: is_low_def)
  define h l where "h = unat u - 0xD800" and "l = unat v - 0xDC00"
  have u': "0xD800 + h = unat u" and v': "0xDC00 + l = unat v"
    using assms by (simp_all add: h_def l_def is_high_def is_low_def)
  have l: "l < 0x400" using v by (simp add: l_def)
  have "(h * 0x400 + l) div 0x400 = h" "(h * 0x400 + l) mod 0x400 = l" using l by simp_all
  then have "utf16_point (0x10000 + h * 0x400 + l) = [unit_of (0xD800 + h), unit_of (0xDC00 + l)]"
    by (simp add: utf16_point_def)
  then show ?thesis by (simp only: u' v' unit_of_unat flip: h_def l_def)
qed

text \<open>Code points and code units carry the same information, lone surrogates included.\<close>

lemma utf16_encode_decode [simp]: "utf16_encode (utf16_decode s) = s"
proof (induction s rule: utf16_decode.induct)
  case (2 u)
  then show ?case using unat_lt_16 [of u] by (simp add: utf16_encode_def utf16_point_small)
next
  case (3 u v us)
  then show ?case
    using unat_lt_16 [of u]
    by (cases "is_high u \<and> is_low v")
       (auto simp: utf16_encode_def utf16_point_small utf16_point_pair)
qed (simp add: utf16_encode_def)

text \<open>One step of the decoder per kind of byte.\<close>

lemma utf8_dec_ascii: "unat b < 0x80 \<Longrightarrow> utf8_decode (b # bs) = unat b # utf8_decode bs"
  by (subst utf8_dec.simps) (simp add: Let_def)

lemma utf8_dec_lead2:
  "0xC2 \<le> unat b \<Longrightarrow> unat b \<le> 0xDF \<Longrightarrow> utf8_decode (b # bs) = utf8_dec 1 (unat b - 0xC0) 0x80 0xBF bs"
  by (subst utf8_dec.simps) (simp add: Let_def)

lemma utf8_dec_lead3:
  "0xE0 \<le> unat b \<Longrightarrow> unat b \<le> 0xEF \<Longrightarrow> utf8_decode (b # bs) =
   utf8_dec 2 (unat b - 0xE0) (if unat b = 0xE0 then 0xA0 else 0x80) (if unat b = 0xED then 0x9F else 0xBF) bs"
  by (subst utf8_dec.simps) (simp add: Let_def)

lemma utf8_dec_lead4:
  "0xF0 \<le> unat b \<Longrightarrow> unat b \<le> 0xF4 \<Longrightarrow> utf8_decode (b # bs) =
   utf8_dec 3 (unat b - 0xF0) (if unat b = 0xF0 then 0x90 else 0x80) (if unat b = 0xF4 then 0x8F else 0xBF) bs"
  by (subst utf8_dec.simps) (simp add: Let_def)

lemma utf8_dec_last:
  "lo \<le> unat b \<Longrightarrow> unat b \<le> hi \<Longrightarrow>
   utf8_dec 1 acc lo hi (b # bs) = (acc * 64 + (unat b - 0x80)) # utf8_decode bs"
  by (subst utf8_dec.simps) (simp add: Let_def)

lemma utf8_dec_more:
  "lo \<le> unat b \<Longrightarrow> unat b \<le> hi \<Longrightarrow> 1 < need \<Longrightarrow>
   utf8_dec need acc lo hi (b # bs) = utf8_dec (need - 1) (acc * 64 + (unat b - 0x80)) 0x80 0xBF bs"
  by (subst utf8_dec.simps) (simp add: Let_def)

declare utf8_dec.simps [simp del]

lemma div_4096: "(n::nat) div 4096 = n div 64 div 64"
  by (simp add: div_mult2_eq [symmetric])

lemma div_262144: "(n::nat) div 262144 = n div 64 div 64 div 64"
  by (simp add: div_mult2_eq [symmetric])

lemma utf8_dec_point2:
  assumes "0x80 \<le> cp" "cp < 0x800"
  shows "utf8_decode (utf8_point cp @ bs) = cp # utf8_decode bs"
proof -
  have a: "cp div 64 < 32" "2 \<le> cp div 64" using assms by auto
  have l: "unat (byte_of (0xC0 + cp div 64)) = 0xC0 + cp div 64" using a by (simp add: unat_byte_of)
  have c: "unat (byte_of (0x80 + cp mod 64)) = 0x80 + cp mod 64" by (simp add: unat_byte_of)
  have m: "cp mod 64 < 64" by simp
  have "utf8_decode (utf8_point cp @ bs) = utf8_dec 1 (cp div 64) 0x80 0xBF (byte_of (0x80 + cp mod 64) # bs)"
    using assms a by (simp add: utf8_point_def utf8_dec_lead2 l)
  also have "\<dots> = (cp div 64 * 64 + cp mod 64) # utf8_decode bs"
    using m by (subst utf8_dec_last) (simp_all add: c)
  finally show ?thesis by simp
qed

lemma utf8_dec_point3:
  assumes "0x800 \<le> cp" "cp < 0x10000" "\<not> is_surrogate cp"
  shows "utf8_decode (utf8_point cp @ bs) = cp # utf8_decode bs"
proof -
  define h m l where "h = cp div 4096" and "m = cp div 64 mod 64" and "l = cp mod 64"
  have b: "h < 16" "m < 64" "l < 64" using assms by (auto simp: h_def m_def l_def)
  have cp: "(h * 64 + m) * 64 + l = cp"
    unfolding h_def m_def l_def by (simp only: div_4096 div_mult_mod_eq)
  have e0: "h = 0 \<Longrightarrow> 32 \<le> m" using assms(1) cp b by auto
  have ed: "h = 13 \<Longrightarrow> m < 32"
  proof (rule ccontr)
    assume "h = 13" "\<not> m < 32"
    with cp b have "is_surrogate cp" by (auto simp: is_surrogate_def)
    with assms(3) show False by simp
  qed
  have u: "unat (byte_of (0xE0 + h)) = 0xE0 + h" "unat (byte_of (0x80 + m)) = 0x80 + m"
    "unat (byte_of (0x80 + l)) = 0x80 + l" using b by (simp_all add: unat_byte_of)
  have "utf8_decode (utf8_point cp @ bs) =
      utf8_dec 2 h (if h = 0 then 0xA0 else 0x80) (if h = 13 then 0x9F else 0xBF)
        (byte_of (0x80 + m) # byte_of (0x80 + l) # bs)"
    using assms b u by (simp add: utf8_point_def utf8_dec_lead3 flip: h_def m_def l_def)
  also have "\<dots> = utf8_dec 1 (h * 64 + m) 0x80 0xBF (byte_of (0x80 + l) # bs)"
    using b e0 ed by (subst utf8_dec_more) (auto simp: u)
  also have "\<dots> = ((h * 64 + m) * 64 + l) # utf8_decode bs"
    using b by (subst utf8_dec_last) (simp_all add: u)
  finally show ?thesis by (simp only: cp)
qed

lemma utf8_dec_point4:
  assumes "0x10000 \<le> cp" "cp < 0x110000"
  shows "utf8_decode (utf8_point cp @ bs) = cp # utf8_decode bs"
proof -
  define g h m l where "g = cp div 262144" and "h = cp div 4096 mod 64"
    and "m = cp div 64 mod 64" and "l = cp mod 64"
  have b: "g < 5" "h < 64" "m < 64" "l < 64" using assms by (auto simp: g_def h_def m_def l_def)
  have cp: "((g * 64 + h) * 64 + m) * 64 + l = cp"
    unfolding g_def h_def m_def l_def by (simp only: div_4096 div_262144 div_mult_mod_eq)
  have f0: "g = 0 \<Longrightarrow> 16 \<le> h" and f4: "g = 4 \<Longrightarrow> h < 16" using assms cp b by auto
  have u: "unat (byte_of (0xF0 + g)) = 0xF0 + g" "unat (byte_of (0x80 + h)) = 0x80 + h"
    "unat (byte_of (0x80 + m)) = 0x80 + m" "unat (byte_of (0x80 + l)) = 0x80 + l"
    using b by (simp_all add: unat_byte_of)
  have "utf8_decode (utf8_point cp @ bs) =
      utf8_dec 3 g (if g = 0 then 0x90 else 0x80) (if g = 4 then 0x8F else 0xBF)
        (byte_of (0x80 + h) # byte_of (0x80 + m) # byte_of (0x80 + l) # bs)"
    using assms b u by (simp add: utf8_point_def utf8_dec_lead4 flip: g_def h_def m_def l_def)
  also have "\<dots> = utf8_dec 2 (g * 64 + h) 0x80 0xBF (byte_of (0x80 + m) # byte_of (0x80 + l) # bs)"
    using b f0 f4 by (subst utf8_dec_more) (auto simp: u)
  also have "\<dots> = utf8_dec 1 ((g * 64 + h) * 64 + m) 0x80 0xBF (byte_of (0x80 + l) # bs)"
    using b by (subst utf8_dec_more) (auto simp: u)
  also have "\<dots> = (((g * 64 + h) * 64 + m) * 64 + l) # utf8_decode bs"
    using b by (subst utf8_dec_last) (simp_all add: u)
  finally show ?thesis by (simp only: cp)
qed

lemma utf8_dec_point:
  assumes "is_scalar cp"
  shows "utf8_decode (utf8_point cp @ bs) = cp # utf8_decode bs"
proof -
  consider "cp < 0x80" | "0x80 \<le> cp" "cp < 0x800" | "0x800 \<le> cp" "cp < 0x10000" | "0x10000 \<le> cp"
    by linarith
  then show ?thesis
  proof cases
    case 1
    then show ?thesis by (simp add: utf8_point_def utf8_dec_ascii unat_byte_of)
  qed (use assms in \<open>auto simp: is_scalar_def intro: utf8_dec_point2 utf8_dec_point3 utf8_dec_point4\<close>)
qed

lemma utf8_dec_Nil [simp]: "utf8_decode [] = []"
  by (simp add: utf8_dec.simps)

lemma utf8_decode_points:
  "list_all is_scalar cps \<Longrightarrow> utf8_decode (concat (map utf8_point cps)) = cps"
  by (induction cps) (simp_all add: utf8_dec_point)

lemma utf16_decode_bound: "cp \<in> set (utf16_decode s) \<Longrightarrow> cp < 0x110000"
proof (induction s rule: utf16_decode.induct)
  case (2 u)
  then show ?case using unat_lt_16 [of u] by simp
next
  case (3 u v us)
  then show ?case
    using unat_lt_16 [of u] by (auto simp: is_high_def is_low_def split: if_splits)
qed simp

lemma to_scalar_is_scalar: "cp < 0x110000 \<Longrightarrow> is_scalar (to_scalar cp)"
  by (simp add: to_scalar_def is_scalar_def is_surrogate_def)

text \<open>Decoding an encoded string gives it back with every lone surrogate replaced.\<close>

lemma utf8_decode_encode: "utf8_decode (utf8_encode s) = map to_scalar (utf16_decode s)"
proof -
  have "list_all is_scalar (map to_scalar (utf16_decode s))"
    by (auto simp: list_all_iff intro: to_scalar_is_scalar utf16_decode_bound)
  then show ?thesis by (simp add: utf8_encode_def utf8_decode_points flip: map_map)
qed

lemma utf8_toString_encode: "well_formed s \<Longrightarrow> utf8_toString (utf8_encode s) = s"
proof -
  assume "well_formed s"
  then have "map to_scalar (utf16_decode s) = utf16_decode s"
    by (auto simp: well_formed_def list_all_iff to_scalar_def intro: map_idI)
  then show ?thesis by (simp add: utf8_toString_def utf8_decode_encode)
qed

lemma utf8_point_nonempty: "utf8_point cp \<noteq> []"
  by (simp add: utf8_point_def)

lemma utf8_decode_ascii:
  "list_all (\<lambda>b. unat b < 0x80) bs \<Longrightarrow> utf8_decode bs = map unat bs"
  by (induction bs) (simp_all add: utf8_dec_ascii)

lemma utf8_toString_ascii:
  "list_all (\<lambda>b. unat b < 0x80) bs \<Longrightarrow> utf8_toString bs = map ucast bs"
proof -
  assume a: "list_all (\<lambda>b. unat b < 0x80) bs"
  have "concat (map (utf16_point \<circ> unat) bs) = map ucast bs"
    using a by (induction bs) (simp_all add: utf16_point_small unit_of_def)
  with a show ?thesis by (simp add: utf8_toString_def utf16_encode_def utf8_decode_ascii)
qed

lemma utf16_decode_ascii: "list_all (\<lambda>u. unat u < 0x80) s \<Longrightarrow> utf16_decode s = map unat s"
  by (induction s rule: utf16_decode.induct) (auto simp: is_high_def)

lemma well_formed_ascii: "list_all (\<lambda>u. unat u < 0x80) s \<Longrightarrow> well_formed s"
  by (auto simp: well_formed_def utf16_decode_ascii is_scalar_def is_surrogate_def is_high_def is_low_def list_all_iff)

subsection \<open>Only ASCII bytes decode to ASCII text\<close>

text \<open>What the decoder's state promises: no overlong form and nothing past the last code point.\<close>

definition dec_inv :: "nat \<Rightarrow> nat \<Rightarrow> nat \<Rightarrow> nat \<Rightarrow> bool" where
  "dec_inv need acc lo hi \<longleftrightarrow> 0x80 \<le> lo \<and> hi \<le> 0xBF \<and>
     (need = 0 \<or> need = 1 \<and> 2 \<le> acc \<and> acc < 0x4400
      \<or> need = 2 \<and> 2 \<le> acc * 64 + (lo - 0x80) \<and> acc * 64 + (hi - 0x80) < 0x4400
      \<or> need = 3 \<and> 2 \<le> acc * 64 + (lo - 0x80) \<and> acc * 64 + (hi - 0x80) < 0x110)"

lemma dec_inv_start: "dec_inv 0 0 0x80 0xBF"
  by (simp add: dec_inv_def)

lemma dec_inv_lead:
  "0xC2 \<le> x \<Longrightarrow> x \<le> 0xDF \<Longrightarrow> dec_inv 1 (x - 0xC0) 0x80 0xBF"
  "0xE0 \<le> x \<Longrightarrow> x \<le> 0xEF \<Longrightarrow>
     dec_inv 2 (x - 0xE0) (if x = 0xE0 then 0xA0 else 0x80) (if x = 0xED then 0x9F else 0xBF)"
  "0xF0 \<le> x \<Longrightarrow> x \<le> 0xF4 \<Longrightarrow>
     dec_inv 3 (x - 0xF0) (if x = 0xF0 then 0x90 else 0x80) (if x = 0xF4 then 0x8F else 0xBF)"
  by (auto simp: dec_inv_def)

lemma dec_inv_more:
  assumes "dec_inv need acc lo hi" "need \<noteq> 0" "need \<noteq> 1" "lo \<le> x" "x \<le> hi"
  shows "dec_inv (need - 1) (acc * 64 + (x - 0x80)) 0x80 0xBF"
  using assms by (auto simp: dec_inv_def)

lemma dec_inv_last:
  assumes "dec_inv (Suc 0) acc lo hi" "lo \<le> x" "x \<le> hi"
  shows "0x80 \<le> acc * 64 + (x - 0x80)" "acc * 64 + (x - 0x80) < 0x110000"
  using assms by (auto simp: dec_inv_def)

lemma utf8_dec_bound:
  "dec_inv need acc lo hi \<Longrightarrow> list_all (\<lambda>cp. cp < 0x110000) (utf8_dec need acc lo hi bs)"
proof (induction need acc lo hi bs rule: utf8_dec.induct)
  case (2 need acc lo hi b bs)
  show ?case
  proof (cases "need = 0")
    case True
    then show ?thesis using "2.IH"(1,2,3,4,5) dec_inv_start dec_inv_lead [of "unat b"]
      by (auto simp: utf8_dec.simps Let_def)
  next
    case False
    then show ?thesis
      using "2.IH"(6,7,8) "2.prems" dec_inv_start dec_inv_more [of need acc lo hi "unat b"]
        dec_inv_last [of acc lo hi "unat b"]
      by (auto simp: utf8_dec.simps(2) [of need acc lo hi b bs] Let_def)
  qed
qed (simp add: utf8_dec.simps)

lemma utf8_dec_ascii_only:
  "dec_inv need acc lo hi \<Longrightarrow> list_all (\<lambda>cp. cp < 0x80) (utf8_dec need acc lo hi bs) \<Longrightarrow>
     need = 0 \<and> list_all (\<lambda>b. unat b < 0x80) bs"
proof (induction need acc lo hi bs rule: utf8_dec.induct)
  case (2 need acc lo hi b bs)
  show ?case
  proof (cases "need = 0")
    case True
    then show ?thesis using "2.IH"(1,2,3,4,5) "2.prems" dec_inv_start dec_inv_lead [of "unat b"]
      by (auto simp: utf8_dec.simps Let_def split: if_splits)
  next
    case False
    then show ?thesis
      using "2.IH"(6,7,8) "2.prems" dec_inv_start dec_inv_more [of need acc lo hi "unat b"]
        dec_inv_last [of acc lo hi "unat b"]
      by (auto simp: utf8_dec.simps(2) [of need acc lo hi b bs] Let_def split: if_splits)
  qed
qed (simp add: utf8_dec.simps split: if_splits)

lemma utf16_point_ascii:
  assumes "cp < 0x110000" "list_all (\<lambda>u. unat u < 0x80) (utf16_point cp)"
  shows "cp < 0x80"
proof (cases "cp < 0x10000")
  case True
  with assms show ?thesis by (simp add: utf16_point_def unat_unit_of)
next
  case False
  with assms(1) have "(cp - 0x10000) div 0x400 < 0x400" by auto
  then have "unat (unit_of (0xD800 + (cp - 0x10000) div 0x400)) \<ge> 0xD800" by (simp add: unat_unit_of)
  with False assms(2) show ?thesis by (simp add: utf16_point_def)
qed

lemma utf8_toString_ascii_only:
  assumes "list_all (\<lambda>u. unat u < 0x80) (utf8_toString bs)"
  shows "list_all (\<lambda>b. unat b < 0x80) bs"
proof -
  have "list_all (\<lambda>cp. cp < 0x80) (utf8_decode bs)"
    using assms utf8_dec_bound [OF dec_inv_start, of bs] utf16_point_ascii
    unfolding utf8_toString_def utf16_encode_def list_all_iff by fastforce
  then show ?thesis using utf8_dec_ascii_only [OF dec_inv_start] by blast
qed

end
