(* ===== verification/Keys.thy ===== *)
theory Keys
  imports KeyConfig Utf8 "HOL-Library.List_Lexorder"
begin

section \<open>Cache keys\<close>

text \<open>
  \<^verbatim>\<open>key.ts\<close>: the identity of a cached value. A key's URN joins percent-encoded components with
  reserved separators; a tracked key wraps its entity prefix in a Redis Cluster hash tag so that its
  value and its invalidation watermark share a slot.
\<close>

record DialCacheKeyInit =
  init_hasUrnPrefix :: bool
  init_keyType :: jsstring
  init_id :: jsstring
  init_useCase :: jsstring
  init_args :: "(jsstring \<times> jsstring) list option"
  init_namespace :: "jsstring option"
  init_defaultConfig :: "key_config option"
  init_serializer :: "nat option"
  init_trackForInvalidation :: "bool option"

record DialCacheKey =
  keyType :: jsstring
  keyId :: jsstring
  useCase :: jsstring
  keyArgs :: "(jsstring \<times> jsstring) list"
  namespace :: jsstring
  keyPrefix :: jsstring
  urn :: jsstring
  defaultConfig :: "key_config option"
  serializer :: "nat option"
  trackForInvalidation :: bool

subsection \<open>Percent encoding\<close>

text \<open>\<^verbatim>\<open>encodeURIComponent\<close>: unreserved characters stay, everything else becomes the \<^verbatim>\<open>%XX\<close> of its
  UTF-8 bytes, a lone surrogate throws.\<close>

definition unreserved :: "nat \<Rightarrow> bool" where
  "unreserved c \<longleftrightarrow> 65 \<le> c \<and> c \<le> 90 \<or> 97 \<le> c \<and> c \<le> 122 \<or> 48 \<le> c \<and> c \<le> 57
     \<or> c \<in> {45, 95, 46, 33, 126, 42, 39, 40, 41}"

definition hex_digit :: "nat \<Rightarrow> 16 word" where
  "hex_digit d = unit_of (if d < 10 then 48 + d else 55 + d)"

definition percent :: "byte \<Rightarrow> jsstring" where
  "percent b = [37, hex_digit (unat b div 16), hex_digit (unat b mod 16)]"

definition encode_point :: "nat \<Rightarrow> jsstring" where
  "encode_point cp = (if unreserved cp then [unit_of cp] else concat (map percent (utf8_point cp)))"

definition encodeComponent :: "jsstring \<Rightarrow> jsstring res" where
  "encodeComponent s =
     (if well_formed s then Inr (concat (map encode_point (utf16_decode s))) else Inl URIError)"

subsection \<open>Assembling a key\<close>

fun join :: "jsstring \<Rightarrow> jsstring list \<Rightarrow> jsstring" where
  "join sep [] = []"
| "join sep [x] = x"
| "join sep (x # y # xs) = x @ sep @ join sep (y # xs)"

fun map_res :: "('a \<Rightarrow> 'b res) \<Rightarrow> 'a list \<Rightarrow> 'b list res" where
  "map_res f [] = Inr []"
| "map_res f (x # xs) = res_bind (f x) (\<lambda>y. res_bind (map_res f xs) (\<lambda>ys. Inr (y # ys)))"

definition has_brace :: "jsstring \<Rightarrow> bool" where
  "has_brace s \<longleftrightarrow> 123 \<in> set s \<or> 125 \<in> set s"

definition joinUrnComponents :: "jsstring list \<Rightarrow> jsstring res" where
  "joinUrnComponents cs = res_bind (map_res encodeComponent cs) (\<lambda>es. Inr (join (js '':'') es))"

definition assertValidNamespace :: "jsstring \<Rightarrow> unit res" where
  "assertValidNamespace ns =
     check (\<not> has_brace ns) (TypeError ''DialCache namespace must not contain braces'')"

definition assertRedisHashTagComponent :: "string \<Rightarrow> jsstring \<Rightarrow> unit res" where
  "assertRedisHashTagComponent name v =
     check (\<not> has_brace v)
       (PlainError (''Redis Cluster hash tag components must not contain braces: '' @ name))"

definition invalidationPrefix :: "jsstring \<Rightarrow> jsstring \<Rightarrow> jsstring \<Rightarrow> jsstring res" where
  "invalidationPrefix ns kt i =
     res_bind (assertValidNamespace ns) (\<lambda>_.
     res_bind (assertRedisHashTagComponent ''keyType'' kt) (\<lambda>_.
     res_bind (assertRedisHashTagComponent ''id'' i) (\<lambda>_.
     joinUrnComponents [ns, kt, i])))"

definition redisClusterHashTag :: "jsstring \<Rightarrow> jsstring res" where
  "redisClusterHashTag v =
     res_bind (assertRedisHashTagComponent ''value'' v) (\<lambda>_. Inr ([123] @ v @ [125]))"

definition encode_arg :: "jsstring \<times> jsstring \<Rightarrow> jsstring res" where
  "encode_arg nv =
     res_bind (encodeComponent (fst nv)) (\<lambda>n.
     res_bind (encodeComponent (snd nv)) (\<lambda>v. Inr (n @ js ''='' @ v)))"

definition args_text :: "(jsstring \<times> jsstring) list \<Rightarrow> jsstring res" where
  "args_text as =
     (if as = [] then Inr []
      else res_bind (map_res encode_arg as) (\<lambda>es. Inr (js ''?'' @ join (js ''&'') es)))"

definition DialCacheKey_new :: "DialCacheKeyInit \<Rightarrow> DialCacheKey res" where
  "DialCacheKey_new init =
     res_bind (check (\<not> init_hasUrnPrefix init)
                 (TypeError ''DialCacheKeyInit.urnPrefix was renamed to namespace'')) (\<lambda>_.
     let kt = init_keyType init; i = init_id init; uc = init_useCase init;
         as = (case init_args init of None \<Rightarrow> [] | Some x \<Rightarrow> x);
         tracked = (case init_trackForInvalidation init of None \<Rightarrow> False | Some b \<Rightarrow> b);
         ns = (case init_namespace init of None \<Rightarrow> js ''urn'' | Some n \<Rightarrow> n)
     in res_bind (assertValidNamespace ns) (\<lambda>_.
        res_bind (joinUrnComponents [ns, kt, i]) (\<lambda>rawPrefix.
        res_bind (if tracked then res_bind (invalidationPrefix ns kt i) redisClusterHashTag
                  else Inr rawPrefix) (\<lambda>pre.
        res_bind (args_text as) (\<lambda>argText.
        res_bind (encodeComponent uc) (\<lambda>ucText.
        Inr \<lparr>keyType = kt, keyId = i, useCase = uc, keyArgs = as, namespace = ns,
             keyPrefix = pre, urn = pre @ argText @ js ''#'' @ ucText,
             defaultConfig = init_defaultConfig init, serializer = init_serializer init,
             trackForInvalidation = tracked\<rparr>))))))"

subsection \<open>Secondary key dimensions\<close>

text \<open>
  The values a secondary dimension may have, and \<^verbatim>\<open>String(value)\<close>. A safe integer prints in decimal;
  how any other double prints (the shortest digits that read back) is the parameter \<open>fmt\<close>.
\<close>

datatype arg_value = ArgStr jsstring | ArgNum jsnum | ArgBool bool | ArgBigInt int | ArgNull | ArgUndef

fun nat_digits :: "nat \<Rightarrow> jsstring" where
  "nat_digits n = (if n < 10 then [unit_of (48 + n)] else nat_digits (n div 10) @ [unit_of (48 + n mod 10)])"

declare nat_digits.simps [simp del]

definition int_digits :: "int \<Rightarrow> jsstring" where
  "int_digits n = (if n < 0 then 45 # nat_digits (nat (- n)) else nat_digits (nat n))"

fun js_String :: "(rat \<Rightarrow> jsstring) \<Rightarrow> arg_value \<Rightarrow> jsstring" where
  "js_String fmt (ArgStr s) = s"
| "js_String fmt (ArgNum (Fin q)) =
     (if rat_is_int q \<and> \<bar>q\<bar> \<le> of_int MAX_SAFE_INTEGER then int_digits \<lfloor>q\<rfloor> else fmt q)"
| "js_String fmt (ArgNum PosInf) = js ''Infinity''"
| "js_String fmt (ArgNum NegInf) = js ''-Infinity''"
| "js_String fmt (ArgNum NaN) = js ''NaN''"
| "js_String fmt (ArgBool b) = (if b then js ''true'' else js ''false'')"
| "js_String fmt (ArgBigInt n) = int_digits n"
| "js_String fmt ArgNull = js ''null''"
| "js_String fmt ArgUndef = js ''undefined''"

text \<open>\<open>compareCodePoints\<close> is JavaScript's \<^verbatim>\<open><\<close> on strings, the lexicographic order on UTF-16 code
  units; \<^verbatim>\<open>Array.prototype.sort\<close> with it is a stable sort by name.\<close>

definition compareCodePoints :: "jsstring \<Rightarrow> jsstring \<Rightarrow> int" where
  "compareCodePoints l r = (if l < r then -1 else if r < l then 1 else 0)"

fun insert_by :: "('a \<Rightarrow> 'a \<Rightarrow> int) \<Rightarrow> 'a \<Rightarrow> 'a list \<Rightarrow> 'a list" where
  "insert_by cmp x [] = [x]"
| "insert_by cmp x (y # ys) = (if cmp x y \<le> 0 then x # y # ys else y # insert_by cmp x ys)"

definition sort_by :: "('a \<Rightarrow> 'a \<Rightarrow> int) \<Rightarrow> 'a list \<Rightarrow> 'a list" where
  "sort_by cmp xs = foldr (insert_by cmp) xs []"

definition normalizeArgs ::
  "(rat \<Rightarrow> jsstring) \<Rightarrow> (jsstring \<times> arg_value) list \<Rightarrow> (jsstring \<times> jsstring) list" where
  "normalizeArgs fmt entries =
     sort_by (\<lambda>(l, _) (r, _). compareCodePoints l r)
       (map (\<lambda>(name, v). (name, js_String fmt v))
         (filter (\<lambda>(_, v). v \<noteq> ArgUndef) entries))"

subsection \<open>Percent encoding is injective and avoids the separators\<close>

definition enc_byte :: "byte \<Rightarrow> jsstring" where
  "enc_byte b = (if unreserved (unat b) then [unit_of (unat b)] else percent b)"

definition enc_char :: "16 word \<Rightarrow> bool" where
  "enc_char u \<longleftrightarrow> unreserved (unat u) \<or> u = 37"

lemma unreserved_lt: "unreserved c \<Longrightarrow> c < 0x7F"
  by (auto simp: unreserved_def)

lemma utf8_point_high: "0x80 \<le> cp \<Longrightarrow> cp < 0x110000 \<Longrightarrow> b \<in> set (utf8_point cp) \<Longrightarrow> 0x80 \<le> unat b"
  by (auto simp: utf8_point_def unat_byte_of split: if_splits)

lemma encode_point_bytes:
  assumes "cp < 0x110000"
  shows "encode_point cp = concat (map enc_byte (utf8_point cp))"
proof (cases "cp < 0x80")
  case True
  then show ?thesis by (simp add: encode_point_def utf8_point_def enc_byte_def unat_byte_of)
next
  case False
  then have "\<not> unreserved cp" by (auto dest: unreserved_lt)
  moreover have "enc_byte b = percent b" if "b \<in> set (utf8_point cp)" for b
    using utf8_point_high [OF _ assms that] False unreserved_lt [of "unat b"]
    by (fastforce simp: enc_byte_def)
  then have "map enc_byte (utf8_point cp) = map percent (utf8_point cp)" by simp
  ultimately show ?thesis by (simp only: encode_point_def if_False)
qed

lemma encodeComponent_Inr:
  "encodeComponent s = Inr t \<longleftrightarrow> well_formed s \<and> t = concat (map enc_byte (utf8_encode s))"
proof -
  have "concat (map encode_point (utf16_decode s)) = concat (map enc_byte (utf8_encode s))"
    if "well_formed s"
  proof -
    have "encode_point cp = concat (map enc_byte ((utf8_point \<circ> to_scalar) cp))"
      if "cp \<in> set (utf16_decode s)" for cp
      using that \<open>well_formed s\<close> utf16_decode_bound [OF that]
      by (simp add: encode_point_bytes well_formed_def list_all_iff to_scalar_def)
    then have "concat (map encode_point xs) = concat (map enc_byte (concat (map (utf8_point \<circ> to_scalar) xs)))"
      if "set xs \<subseteq> set (utf16_decode s)" for xs
      using that by (induction xs) simp_all
    then show ?thesis by (simp add: utf8_encode_def)
  qed
  then show ?thesis by (auto simp: encodeComponent_def)
qed

lemma hex_digit_bounds: "d < 16 \<Longrightarrow> unreserved (unat (hex_digit d))"
  by (auto simp: hex_digit_def unat_unit_of unreserved_def)

lemma hex_digit_inj: "d < 16 \<Longrightarrow> d' < 16 \<Longrightarrow> hex_digit d = hex_digit d' \<Longrightarrow> d = d'"
proof -
  assume d: "d < 16" "d' < 16" and eq: "hex_digit d = hex_digit d'"
  from eq have "unat (hex_digit d) = unat (hex_digit d')" by simp
  with d show "d = d'" by (auto simp: hex_digit_def unat_unit_of split: if_splits)
qed

lemma percent_inj: "percent b = percent c \<Longrightarrow> b = c"
proof -
  assume "percent b = percent c"
  then have "unat b div 16 = unat c div 16" "unat b mod 16 = unat c mod 16"
    using unat_lt_8 [of b] unat_lt_8 [of c] by (auto simp: percent_def intro: hex_digit_inj)
  then have "unat b = unat c" by (metis div_mult_mod_eq)
  then show "b = c" by (simp only: word_unat_eq_iff)
qed

lemma enc_byte_prefix_free: "enc_byte b @ r = enc_byte c @ r' \<Longrightarrow> b = c \<and> r = r'"
proof -
  assume eq: "enc_byte b @ r = enc_byte c @ r'"
  have no_percent: "unit_of (unat x) \<noteq> 37" if "unreserved (unat x)" for x :: byte
  proof
    assume "unit_of (unat x) = 37"
    then have "unat (unit_of (unat x)) = 37" by simp
    then have "unat x = 37" using unat_lt_8 [of x] by (simp add: unat_unit_of)
    with that show False by (simp add: unreserved_def)
  qed
  have unit: "x = y" if "unit_of (unat x) = unit_of (unat y)" for x y :: byte
  proof -
    from that have "unat (unit_of (unat x)) = unat (unit_of (unat y))" by simp
    then have "unat x = unat y" using unat_lt_8 [of x] unat_lt_8 [of y] by (simp add: unat_unit_of)
    then show ?thesis by (simp only: word_unat_eq_iff)
  qed
  show ?thesis
  proof (cases "unreserved (unat b)"; cases "unreserved (unat c)")
    assume "unreserved (unat b)" "unreserved (unat c)"
    with eq show ?thesis by (auto simp: enc_byte_def dest: unit)
  next
    assume b: "unreserved (unat b)" "\<not> unreserved (unat c)"
    with eq no_percent [OF b(1)] show ?thesis by (simp add: enc_byte_def percent_def)
  next
    assume c: "\<not> unreserved (unat b)" "unreserved (unat c)"
    with eq no_percent [OF c(2)] show ?thesis by (simp add: enc_byte_def percent_def)
  next
    assume "\<not> unreserved (unat b)" "\<not> unreserved (unat c)"
    with eq have "percent b = percent c \<and> r = r'" by (simp add: enc_byte_def percent_def)
    then show ?thesis by (auto dest: percent_inj)
  qed
qed

lemma enc_byte_nonempty: "enc_byte b \<noteq> []"
  by (simp add: enc_byte_def percent_def)

lemma enc_bytes_inj: "concat (map enc_byte bs) = concat (map enc_byte cs) \<Longrightarrow> bs = cs"
proof (induction bs arbitrary: cs)
  case Nil
  then show ?case by (cases cs) (auto simp: enc_byte_nonempty)
next
  case (Cons b bs)
  then obtain c cs' where cs: "cs = c # cs'" by (cases cs) (auto simp: enc_byte_nonempty)
  with Cons.prems have "b = c \<and> concat (map enc_byte bs) = concat (map enc_byte cs')"
    by (auto dest: enc_byte_prefix_free)
  with Cons.IH cs show ?case by blast
qed

lemma encodeComponent_inj:
  assumes "encodeComponent s = Inr u" "encodeComponent t = Inr u"
  shows "s = t"
proof -
  from assms have "well_formed s" "well_formed t" "utf8_encode s = utf8_encode t"
    by (auto simp: encodeComponent_Inr dest: enc_bytes_inj)
  then show ?thesis by (metis utf8_toString_encode)
qed

lemma percent_chars: "u \<in> set (percent b) \<Longrightarrow> enc_char u"
  using unat_lt_8 [of b] hex_digit_bounds [of "unat b div 16"] hex_digit_bounds [of "unat b mod 16"]
  by (auto simp: percent_def enc_char_def)

lemma enc_byte_chars: "u \<in> set (enc_byte b) \<Longrightarrow> enc_char u"
  using unat_lt_8 [of b]
  by (auto simp: enc_byte_def enc_char_def unat_unit_of split: if_splits dest: percent_chars)

lemma encodeComponent_chars: "encodeComponent s = Inr t \<Longrightarrow> u \<in> set t \<Longrightarrow> enc_char u"
  by (auto simp: encodeComponent_Inr dest: enc_byte_chars)

lemma separators_not_enc_char [simp]:
  "\<not> enc_char 58" "\<not> enc_char 63" "\<not> enc_char 38" "\<not> enc_char 61" "\<not> enc_char 35"
  "\<not> enc_char 123" "\<not> enc_char 125"
  by (simp_all add: enc_char_def unreserved_def)

lemma js_separators:
  "js '':'' = [58]" "js ''?'' = [63]" "js ''&'' = [38]" "js ''='' = [61]" "js ''#'' = [35]"
  by (simp_all add: js_def)

subsection \<open>Joined components can be taken apart\<close>

lemma join_Cons: "xs \<noteq> [] \<Longrightarrow> join sep (x # xs) = x @ sep @ join sep xs"
  by (cases xs) simp_all

lemma append_sep_inj:
  "c \<notin> set x \<Longrightarrow> c \<notin> set y \<Longrightarrow> x @ c # r = y @ c # r' \<Longrightarrow> x = y \<and> r = r'"
proof (induction x arbitrary: y)
  case Nil
  then show ?case by (cases y) auto
next
  case (Cons a x)
  then show ?case by (cases y) auto
qed

lemma join_sep_inj:
  assumes "\<forall>x\<in>set xs. c \<notin> set x" "\<forall>y\<in>set ys. c \<notin> set y"
    and "xs \<noteq> []" "ys \<noteq> []" "join [c] xs = join [c] ys"
  shows "xs = ys"
  using assms
proof (induction xs arbitrary: ys)
  case (Cons x xs)
  then obtain y ys' where ys: "ys = y # ys'" by (cases ys) auto
  have sep: "c \<notin> set x" "c \<notin> set y" using Cons.prems ys by auto
  have rest: "\<forall>x\<in>set xs. c \<notin> set x" "\<forall>y\<in>set ys'. c \<notin> set y" using Cons.prems ys by auto
  show ?case
  proof (cases "xs = []"; cases "ys' = []")
    assume "xs \<noteq> []" "ys' \<noteq> []"
    with Cons.prems ys have "x @ c # join [c] xs = y @ c # join [c] ys'" by (simp add: join_Cons)
    with sep have "x = y \<and> join [c] xs = join [c] ys'" by (intro append_sep_inj)
    with Cons.IH [OF rest \<open>xs \<noteq> []\<close> \<open>ys' \<noteq> []\<close>] ys show ?thesis by simp
  next
    assume "xs = []" "ys' \<noteq> []"
    with Cons.prems ys have "x = y @ c # join [c] ys'" by (simp add: join_Cons)
    with sep show ?thesis by simp
  next
    assume "xs \<noteq> []" "ys' = []"
    with Cons.prems ys have "y = x @ c # join [c] xs" by (simp add: join_Cons)
    with sep show ?thesis by simp
  qed (use Cons.prems ys in simp)
qed simp

lemma set_join: "u \<in> set (join sep xs) \<Longrightarrow> u \<in> set sep \<or> (\<exists>x\<in>set xs. u \<in> set x)"
  by (induction sep xs rule: join.induct) auto

lemma map_res_Inr:
  "map_res f xs = Inr ys \<longleftrightarrow> list_all2 (\<lambda>x y. f x = Inr y) xs ys"
  by (induction xs arbitrary: ys) (auto simp: res_simps list_all2_Cons1)

lemma list_all2_inj_on:
  assumes "list_all2 P xs zs" "list_all2 P ys zs" "\<And>x y z. P x z \<Longrightarrow> P y z \<Longrightarrow> x = y"
  shows "xs = ys"
proof (rule nth_equalityI)
  show "length xs = length ys" using assms(1,2) by (simp add: list_all2_conv_all_nth)
  show "xs ! i = ys ! i" if "i < length xs" for i
    using assms(1,2) that by (intro assms(3) [of _ "zs ! i"]) (simp_all add: list_all2_conv_all_nth)
qed

lemma encodeComponents_chars:
  "map_res encodeComponent cs = Inr es \<Longrightarrow> e \<in> set es \<Longrightarrow> u \<in> set e \<Longrightarrow> enc_char u"
  by (induction cs arbitrary: es) (auto simp: res_simps dest: encodeComponent_chars)

lemma joinUrnComponents_chars:
  "joinUrnComponents cs = Inr p \<Longrightarrow> u \<in> set p \<Longrightarrow> u = 58 \<or> enc_char u"
  by (auto simp: joinUrnComponents_def res_simps js_separators dest: set_join encodeComponents_chars)

lemma joinUrnComponents_inj:
  assumes "joinUrnComponents cs = Inr p" "joinUrnComponents ds = Inr p" "cs \<noteq> []" "ds \<noteq> []"
  shows "cs = ds"
proof -
  from assms obtain es fs where e: "map_res encodeComponent cs = Inr es" "p = join [58] es"
    and f: "map_res encodeComponent ds = Inr fs" "p = join [58] fs"
    by (auto simp: joinUrnComponents_def res_simps js_separators)
  have clean: "\<forall>x\<in>set xs. 58 \<notin> set x" if "map_res encodeComponent zs = Inr xs" for zs xs
    using encodeComponents_chars [OF that] separators_not_enc_char(1) by blast
  have "es \<noteq> []" "fs \<noteq> []" using e f assms by (auto simp: map_res_Inr)
  then have "es = fs"
    using join_sep_inj [OF clean [OF e(1)] clean [OF f(1)]] e(2) f(2) by simp
  then have "list_all2 (\<lambda>x y. encodeComponent x = Inr y) cs es"
    "list_all2 (\<lambda>x y. encodeComponent x = Inr y) ds es"
    using e(1) f(1) by (simp_all add: map_res_Inr)
  then show ?thesis by (rule list_all2_inj_on) (rule encodeComponent_inj)
qed

lemma encode_arg_Inr:
  "encode_arg nv = Inr e \<longleftrightarrow>
     (\<exists>n v. encodeComponent (fst nv) = Inr n \<and> encodeComponent (snd nv) = Inr v \<and> e = n @ 61 # v)"
  by (auto simp: encode_arg_def res_simps js_separators)

lemma encode_arg_inj: "encode_arg p = Inr e \<Longrightarrow> encode_arg q = Inr e \<Longrightarrow> p = q"
proof -
  assume "encode_arg p = Inr e" "encode_arg q = Inr e"
  then obtain n v n' v' where pq:
    "encodeComponent (fst p) = Inr n" "encodeComponent (snd p) = Inr v" "e = n @ 61 # v"
    "encodeComponent (fst q) = Inr n'" "encodeComponent (snd q) = Inr v'" "e = n' @ 61 # v'"
    by (auto simp: encode_arg_Inr)
  have "61 \<notin> set n" "61 \<notin> set n'" using pq encodeComponent_chars separators_not_enc_char(4) by blast+
  then have "n = n' \<and> v = v'" using pq(3,6) by (intro append_sep_inj) auto
  then show "p = q" using pq by (metis encodeComponent_inj prod.collapse)
qed

lemma encode_arg_chars: "encode_arg p = Inr e \<Longrightarrow> u \<in> set e \<Longrightarrow> u = 61 \<or> enc_char u"
  by (auto simp: encode_arg_Inr dest: encodeComponent_chars)

lemma encode_args_chars:
  "map_res encode_arg as = Inr es \<Longrightarrow> e \<in> set es \<Longrightarrow> u \<in> set e \<Longrightarrow> u = 61 \<or> enc_char u"
  by (induction as arbitrary: es) (auto simp: res_simps dest: encode_arg_chars)

lemma args_text_chars: "args_text as = Inr t \<Longrightarrow> u \<in> set t \<Longrightarrow> u \<in> {63, 38, 61} \<or> enc_char u"
  by (auto simp: args_text_def res_simps js_separators split: if_splits dest!: set_join dest: encode_args_chars)

lemma args_text_cases:
  "args_text as = Inr t \<longleftrightarrow>
     as = [] \<and> t = [] \<or> (\<exists>es. as \<noteq> [] \<and> map_res encode_arg as = Inr es \<and> t = 63 # join [38] es)"
  by (auto simp: args_text_def res_simps js_separators)

lemma args_text_inj:
  assumes "args_text as = Inr t" "args_text bs = Inr t"
  shows "as = bs"
proof (cases "t = []")
  case True
  with assms show ?thesis by (auto simp: args_text_cases)
next
  case False
  with assms obtain es fs where e: "map_res encode_arg as = Inr es" "t = 63 # join [38] es" "as \<noteq> []"
    and f: "map_res encode_arg bs = Inr fs" "t = 63 # join [38] fs" "bs \<noteq> []"
    by (auto simp: args_text_cases)
  have clean: "\<forall>x\<in>set xs. 38 \<notin> set x" if "map_res encode_arg zs = Inr xs" for zs xs
    using encode_args_chars [OF that] separators_not_enc_char(3) by fastforce
  have "es \<noteq> []" "fs \<noteq> []" using e f by (auto simp: map_res_Inr)
  then have "es = fs"
    using join_sep_inj [OF clean [OF e(1)] clean [OF f(1)]] e(2) f(2) by simp
  then have "list_all2 (\<lambda>x y. encode_arg x = Inr y) as es" "list_all2 (\<lambda>x y. encode_arg x = Inr y) bs es"
    using e(1) f(1) by (simp_all add: map_res_Inr)
  then show ?thesis by (rule list_all2_inj_on) (rule encode_arg_inj)
qed

subsection \<open>A URN determines the key\<close>

text \<open>What the constructor establishes: the shape of the prefix and of the URN.\<close>

lemma DialCacheKey_new_shape:
  assumes "DialCacheKey_new init = Inr k"
  obtains raw argText ucText where
    "joinUrnComponents [namespace k, keyType k, keyId k] = Inr raw"
    "keyPrefix k = (if trackForInvalidation k then 123 # raw @ [125] else raw)"
    "args_text (keyArgs k) = Inr argText" "encodeComponent (useCase k) = Inr ucText"
    "urn k = (keyPrefix k @ argText) @ 35 # ucText"
  using assms
  by (auto simp: DialCacheKey_new_def Let_def res_simps js_separators invalidationPrefix_def
      redisClusterHashTag_def split: if_splits)

lemma prefix_split_inj:
  assumes "c \<notin> set p" "c \<notin> set q" "p @ a = q @ b" "a = [] \<or> hd a = c" "b = [] \<or> hd b = c"
  shows "p = q \<and> a = b"
proof (cases a; cases b)
  fix x a' y b' assume "a = x # a'" "b = y # b'"
  with assms show ?thesis by (auto dest: append_sep_inj)
next
  fix y b' assume "a = []" "b = y # b'"
  with assms show ?thesis by auto
next
  fix x a' assume "a = x # a'" "b = []"
  with assms show ?thesis by auto
qed (use assms in auto)

lemma key_prefix_chars:
  assumes "joinUrnComponents cs = Inr raw"
  shows "35 \<notin> set raw" "63 \<notin> set raw" "123 \<notin> set raw" "125 \<notin> set raw"
  using joinUrnComponents_chars [OF assms] separators_not_enc_char by fastforce+

lemma args_text_hd: "args_text as = Inr t \<Longrightarrow> t = [] \<or> hd t = 63"
  by (auto simp: args_text_cases)

lemma args_text_no_hash: "args_text as = Inr t \<Longrightarrow> 35 \<notin> set t"
  using args_text_chars [of as t 35] separators_not_enc_char(5) by auto

lemma key_prefix_inj:
  assumes raw: "joinUrnComponents [a, b, c] = Inr raw" "joinUrnComponents [a', b', c'] = Inr raw'"
    and eq: "(if t then 123 # raw @ [125] else raw) = (if t' then 123 # raw' @ [125] else raw')"
  shows "t = t' \<and> [a, b, c] = [a', b', c']"
proof -
  have "t = t'" using eq key_prefix_chars(3) [OF raw(1)] key_prefix_chars(3) [OF raw(2)]
    by (auto split: if_splits)
  with eq have "raw = raw'" by (auto split: if_splits)
  then have "[a, b, c] = [a', b', c']" using joinUrnComponents_inj [OF raw(1)] raw(2) by blast
  with \<open>t = t'\<close> show ?thesis by blast
qed

text \<open>
  C3. A URN is injective: two keys that construct successfully and have the same URN agree in
  namespace, key type, id, secondary dimensions, use case and tracking, so distinct cached values
  never share an entry of any layer.
\<close>

theorem urn_injective:
  assumes "DialCacheKey_new i = Inr k" "DialCacheKey_new j = Inr l" "urn k = urn l"
  shows "namespace k = namespace l \<and> keyType k = keyType l \<and> keyId k = keyId l \<and>
    keyArgs k = keyArgs l \<and> useCase k = useCase l \<and> trackForInvalidation k = trackForInvalidation l"
proof -
  obtain r a u where k: "joinUrnComponents [namespace k, keyType k, keyId k] = Inr r"
    "keyPrefix k = (if trackForInvalidation k then 123 # r @ [125] else r)"
    "args_text (keyArgs k) = Inr a" "encodeComponent (useCase k) = Inr u"
    "urn k = (keyPrefix k @ a) @ 35 # u"
    using assms(1) by (rule DialCacheKey_new_shape)
  obtain r' a' u' where l: "joinUrnComponents [namespace l, keyType l, keyId l] = Inr r'"
    "keyPrefix l = (if trackForInvalidation l then 123 # r' @ [125] else r')"
    "args_text (keyArgs l) = Inr a'" "encodeComponent (useCase l) = Inr u'"
    "urn l = (keyPrefix l @ a') @ 35 # u'"
    using assms(2) by (rule DialCacheKey_new_shape)
  have "35 \<notin> set (keyPrefix k @ a)" "35 \<notin> set (keyPrefix l @ a')"
    using key_prefix_chars [OF k(1)] key_prefix_chars [OF l(1)] k(2) l(2)
      args_text_no_hash [OF k(3)] args_text_no_hash [OF l(3)] by auto
  then have "keyPrefix k @ a = keyPrefix l @ a' \<and> u = u'"
    using assms(3) unfolding k(5) l(5) by (rule append_sep_inj)
  moreover have "63 \<notin> set (keyPrefix k)" "63 \<notin> set (keyPrefix l)"
    using key_prefix_chars [OF k(1)] key_prefix_chars [OF l(1)] k(2) l(2) by auto
  ultimately have "keyPrefix k = keyPrefix l" "a = a'" "u = u'"
    using prefix_split_inj [OF _ _ _ args_text_hd [OF k(3)] args_text_hd [OF l(3)]] by blast+
  then show ?thesis
    using key_prefix_inj [OF k(1) l(1), of "trackForInvalidation k" "trackForInvalidation l"] k(2) l(2)
      args_text_inj [OF k(3)] l(3) encodeComponent_inj [OF k(4)] l(4) by simp
qed

subsection \<open>When a key can be built\<close>

lemma encodeComponent_ok: "(\<exists>t. encodeComponent s = Inr t) \<longleftrightarrow> well_formed s"
  by (simp add: encodeComponent_def)

lemma map_res_ok: "(\<exists>ys. map_res f xs = Inr ys) \<longleftrightarrow> (\<forall>x\<in>set xs. \<exists>y. f x = Inr y)"
  by (induction xs) (auto simp: res_simps)

lemma joinUrnComponents_ok: "(\<exists>p. joinUrnComponents cs = Inr p) \<longleftrightarrow> (\<forall>c\<in>set cs. well_formed c)"
  using map_res_ok [of encodeComponent cs] by (simp add: joinUrnComponents_def res_simps encodeComponent_ok)

lemma encode_arg_ok: "(\<exists>e. encode_arg nv = Inr e) \<longleftrightarrow> well_formed (fst nv) \<and> well_formed (snd nv)"
  by (auto simp: encode_arg_Inr encodeComponent_ok [symmetric])

lemma args_text_ok:
  "(\<exists>t. args_text as = Inr t) \<longleftrightarrow> (\<forall>nv\<in>set as. well_formed (fst nv) \<and> well_formed (snd nv))"
  using map_res_ok [of encode_arg as] by (auto simp: args_text_def res_simps encode_arg_ok)

definition key_init_ok :: "DialCacheKeyInit \<Rightarrow> bool" where
  "key_init_ok init \<longleftrightarrow>
     (let ns = (case init_namespace init of None \<Rightarrow> js ''urn'' | Some n \<Rightarrow> n) in
      \<not> init_hasUrnPrefix init \<and> \<not> has_brace ns \<and>
      well_formed ns \<and> well_formed (init_keyType init) \<and> well_formed (init_id init) \<and>
      well_formed (init_useCase init) \<and>
      (\<forall>nv\<in>set (case init_args init of None \<Rightarrow> [] | Some x \<Rightarrow> x). well_formed (fst nv) \<and> well_formed (snd nv)) \<and>
      (init_trackForInvalidation init = Some True \<longrightarrow>
         \<not> has_brace (init_keyType init) \<and> \<not> has_brace (init_id init)))"

lemma DialCacheKey_new_ok: "(\<exists>k. DialCacheKey_new init = Inr k) \<longleftrightarrow> key_init_ok init"
proof -
  let ?ns = "case init_namespace init of None \<Rightarrow> js ''urn'' | Some n \<Rightarrow> n"
  let ?cs = "[?ns, init_keyType init, init_id init]"
  have brace: "\<not> has_brace p" if "joinUrnComponents cs = Inr p" for cs p
    using key_prefix_chars [OF that] by (simp add: has_brace_def)
  have "(\<exists>k. DialCacheKey_new init = Inr k) \<longleftrightarrow>
     \<not> init_hasUrnPrefix init \<and> \<not> has_brace ?ns \<and> (\<exists>p. joinUrnComponents ?cs = Inr p) \<and>
     (init_trackForInvalidation init = Some True \<longrightarrow>
         \<not> has_brace (init_keyType init) \<and> \<not> has_brace (init_id init)) \<and>
     (\<exists>t. args_text (case init_args init of None \<Rightarrow> [] | Some x \<Rightarrow> x) = Inr t) \<and>
     (\<exists>u. encodeComponent (init_useCase init) = Inr u)"
    using brace
    by (fastforce simp: DialCacheKey_new_def Let_def res_simps check_simps invalidationPrefix_def
        redisClusterHashTag_def assertRedisHashTagComponent_def assertValidNamespace_def
        split: option.splits bool.splits if_splits)
  then show ?thesis
    by (auto simp: key_init_ok_def Let_def joinUrnComponents_ok args_text_ok encodeComponent_ok)
qed

text \<open>
  C26. The constructor accepts exactly the initializers without the renamed option, whose strings are
  well-formed Unicode, whose namespace has no brace and, for a tracked key, whose key type and id have
  no brace; every other one throws.
\<close>

theorem DialCacheKey_new_total: "(\<exists>k. DialCacheKey_new init = Inr k) \<longleftrightarrow> key_init_ok init"
  by (rule DialCacheKey_new_ok)

definition sample_init :: "jsstring \<Rightarrow> bool \<Rightarrow> DialCacheKeyInit" where
  "sample_init i t = \<lparr>init_hasUrnPrefix = False, init_keyType = js ''user_id'', init_id = i,
     init_useCase = js ''GetUser'', init_args = Some [(js ''a b'', js ''x=1&y'')],
     init_namespace = None, init_defaultConfig = None, init_serializer = None,
     init_trackForInvalidation = Some t\<rparr>"

lemma sample_init_ok: "key_init_ok (sample_init (js ''4:2'') t)"
  by (simp add: key_init_ok_def sample_init_def has_brace_def well_formed_ascii js_def)

theorem urn_injective_witness:
  "\<exists>k l. DialCacheKey_new (sample_init (js ''4:2'') True) = Inr k \<and>
    DialCacheKey_new (sample_init [52, 58, 50] True) = Inr l \<and> urn k = urn l \<and> keyArgs k = keyArgs l"
proof -
  obtain k where k: "DialCacheKey_new (sample_init (js ''4:2'') True) = Inr k"
    using DialCacheKey_new_ok sample_init_ok by blast
  moreover have "js ''4:2'' = [52, 58, 50]" by (simp add: js_def)
  ultimately have l: "DialCacheKey_new (sample_init [52, 58, 50] True) = Inr k" by simp
  from urn_injective [OF k l] k l show ?thesis by blast
qed

subsection \<open>Argument order\<close>

lemma compareCodePoints_le: "compareCodePoints l r \<le> 0 \<longleftrightarrow> l \<le> r"
  by (auto simp: compareCodePoints_def)

lemma insert_by_name: "insert_by (\<lambda>(l, _) (r, _). compareCodePoints l r) x xs = insort_key fst x xs"
  by (induction xs) (auto simp: compareCodePoints_le split: prod.splits)

lemma sort_by_name: "sort_by (\<lambda>(l, _) (r, _). compareCodePoints l r) xs = sort_key fst xs"
  by (simp add: sort_by_def sort_key_def insert_by_name [abs_def] fun_eq_iff)

lemma set_normalizeArgs:
  "set (normalizeArgs fmt es) = (\<lambda>(n, v). (n, js_String fmt v)) ` {e \<in> set es. snd e \<noteq> ArgUndef}"
  by (auto simp: normalizeArgs_def sort_by_name)

lemma sorted_normalizeArgs: "sorted (map fst (normalizeArgs fmt es))"
  by (simp add: normalizeArgs_def sort_by_name)

lemma distinct_sort_key: "distinct (map f (sort_key f xs)) = distinct (map f xs)"
  by (simp add: distinct_map)

lemma distinct_normalizeArgs: "distinct (map fst es) \<Longrightarrow> distinct (map fst (normalizeArgs fmt es))"
  unfolding normalizeArgs_def sort_by_name distinct_sort_key
  by (induction es) (auto simp: rev_image_eqI)

text \<open>
  The secondary dimensions of a key do not depend on the order in which the caller's object lists
  them: two objects with the same entries normalize to the same list, hence to the same URN.
\<close>

theorem normalizeArgs_order_independent:
  assumes "distinct (map fst es)" "distinct (map fst es')" "set es = set es'"
  shows "normalizeArgs fmt es = normalizeArgs fmt es'"
proof (rule map_sorted_distinct_set_unique [where f = fst])
  show "set (normalizeArgs fmt es) = set (normalizeArgs fmt es')"
    by (simp only: set_normalizeArgs assms(3))
  then have "set (normalizeArgs fmt es) \<union> set (normalizeArgs fmt es') = set (normalizeArgs fmt es)" by simp
  then show "inj_on fst (set (normalizeArgs fmt es) \<union> set (normalizeArgs fmt es'))"
    using distinct_normalizeArgs [OF assms(1)] by (simp add: distinct_map)
qed (simp_all add: sorted_normalizeArgs distinct_normalizeArgs assms)

theorem normalizeArgs_order_independent_witness:
  "normalizeArgs (\<lambda>_. []) [(js ''b'', ArgNum (Fin 7)), (js ''a'', ArgBool True), (js ''c'', ArgUndef)] =
   normalizeArgs (\<lambda>_. []) [(js ''a'', ArgBool True), (js ''c'', ArgUndef), (js ''b'', ArgNum (Fin 7))]"
  by (rule normalizeArgs_order_independent) (auto simp: js_def)

end
