(* ===== verification/Ramp.thy ===== *)
theory Ramp
  imports Keys
begin

section \<open>Deterministic rollout samples\<close>

text \<open>
  \<^verbatim>\<open>internal/ramp.ts\<close>: a 32-bit FNV-1a hash of the URN and a discriminator, scaled to [0, 100). The
  hash is kept at its width; the scaled value is a multiple of \<open>2 ^ -32\<close> below \<open>2 ^ 7\<close>, so the two
  floating-point operations of the source are exact (\<open>stablePercent_representable\<close>).
\<close>

unbundle bit_operations_syntax

definition fnv_step :: "32 word \<Rightarrow> 16 word \<Rightarrow> 32 word" where
  "fnv_step h u = (h XOR ucast u) * 0x01000193"

definition stablePercent :: "jsstring \<Rightarrow> rat" where
  "stablePercent s = of_nat (unat (foldl fnv_step 0x811c9dc5 s)) / 2 ^ 32 * 100"

definition deterministicRampSample :: "DialCacheKey \<Rightarrow> cache_layer \<Rightarrow> rat" where
  "deterministicRampSample key layer = stablePercent (urn key @ js '':'' @ js (layer_name layer))"

definition deterministicShadowRampSample :: "DialCacheKey \<Rightarrow> rat" where
  "deterministicShadowRampSample key = stablePercent (urn key @ js '':shadow'')"

lemma stablePercent_representable: "\<exists>k < 2 ^ 53. stablePercent s = of_nat k / 2 ^ 32"
proof (intro exI conjI)
  let ?h = "unat (foldl fnv_step 0x811c9dc5 s)"
  have "?h < 2 ^ 32" using unsigned_less [of "foldl fnv_step 0x811c9dc5 s", where ?'a = nat] by simp
  then show "?h * 100 < 2 ^ 53" by simp
  show "stablePercent s = of_nat (?h * 100) / 2 ^ 32" by (simp add: stablePercent_def)
qed

lemma stablePercent_range: "0 \<le> stablePercent s" "stablePercent s < 100"
proof -
  let ?h = "unat (foldl fnv_step 0x811c9dc5 s)"
  have "?h < 2 ^ 32" using unsigned_less [of "foldl fnv_step 0x811c9dc5 s", where ?'a = nat] by simp
  then have "(of_nat ?h :: rat) < of_nat (2 ^ 32)" by (simp only: of_nat_less_iff)
  then show "stablePercent s < 100" by (simp add: stablePercent_def)
  show "0 \<le> stablePercent s"
    unfolding stablePercent_def by (intro mult_nonneg_nonneg divide_nonneg_nonneg of_nat_0_le_iff) simp_all
qed

subsection \<open>Ramp admission\<close>

text \<open>
  The decision both ramp consumers make (\<^verbatim>\<open>resolveLayerConfigResult\<close> and the shadow admission of
  \<^verbatim>\<open>dialcache.ts\<close>): nothing at 0 or below, everything at 100 or above, else the sample decides.
\<close>

definition ramp_admits :: "rat \<Rightarrow> rat \<Rightarrow> bool" where
  "ramp_admits sample r \<longleftrightarrow> (if r \<le> 0 then False else if r \<ge> 100 then True else sample < r)"

text \<open>What a sampler promises its consumers, and what they get from it.\<close>

locale sampler =
  fixes sample :: "'k \<Rightarrow> rat"
  assumes sample_nonneg: "0 \<le> sample k"
    and sample_lt_100: "sample k < 100"
begin

lemma admits_iff: "ramp_admits (sample k) r \<longleftrightarrow> sample k < r"
  using sample_nonneg [of k] sample_lt_100 [of k] by (auto simp: ramp_admits_def)

lemma admits_mono: "ramp_admits (sample k) r \<Longrightarrow> r \<le> r' \<Longrightarrow> ramp_admits (sample k) r'"
  by (auto simp: admits_iff)

lemma admits_all: "100 \<le> r \<Longrightarrow> ramp_admits (sample k) r"
  by (simp add: ramp_admits_def)

lemma admits_none: "r \<le> 0 \<Longrightarrow> \<not> ramp_admits (sample k) r"
  by (simp add: ramp_admits_def)

lemma cohort_mono: "r \<le> r' \<Longrightarrow> {k. ramp_admits (sample k) r} \<subseteq> {k. ramp_admits (sample k) r'}"
  by (auto intro: admits_mono)

end

interpretation layer_ramp: sampler "\<lambda>(key, layer). deterministicRampSample key layer"
  by unfold_locales (auto simp: deterministicRampSample_def stablePercent_range)

interpretation shadow_ramp: sampler deterministicShadowRampSample
  by unfold_locales (auto simp: deterministicShadowRampSample_def stablePercent_range)

end
