(* ===== verification/RuntimeConfig.thy ===== *)
theory RuntimeConfig
  imports Ramp
begin

section \<open>Runtime policy resolution\<close>

text \<open>
  \<^verbatim>\<open>internal/runtime-config.ts\<close>: the leaf-wise merge of a provider's overlay onto the registered
  default, the per-layer decision (enabled, ramped down, or disabled for a reason), the stale-on-error
  window of the remote layer and the mismatch-logging leaves of the shadow group.
\<close>

datatype disabled_reason =
  context_disabled | policy_disabled | invalid_ttl | invalid_ramp | ramped_down | config_error

record resolved_layer =
  res_ttlSec :: int
  res_ramp :: rat

record resolved_remote_layer = resolved_layer +
  res_staleMaxAgeSec :: "int option"

text \<open>\<open>LayerRampedDown\<close> is the disabled status that retains its valid policy.\<close>

datatype 'c layer_resolution =
  LayerEnabled 'c | LayerRampedDown 'c | LayerDisabled disabled_reason

definition num_in_0_100 :: "jsval \<Rightarrow> bool" where
  "num_in_0_100 v = (case v of JNum x \<Rightarrow> num_isFinite x \<and> \<not> num_lt x (Fin 0) \<and> \<not> num_lt (Fin 100) x | _ \<Rightarrow> False)"

fun rat_of_val :: "jsval \<Rightarrow> rat" where
  "rat_of_val (JNum (Fin q)) = q"
| "rat_of_val _ = 0"

subsection \<open>Layers\<close>

definition resolveLayerConfigResult ::
  "key_config option \<Rightarrow> DialCacheKey \<Rightarrow> cache_layer \<Rightarrow> resolved_layer layer_resolution" where
  "resolveLayerConfigResult config key layer =
     (case config of None \<Rightarrow> LayerDisabled policy_disabled
      | Some c \<Rightarrow>
          let ttl = get_prop (ttlSec c) (layer_name layer) in
          if ttl = JUndef then LayerDisabled policy_disabled
          else if \<not> isSupportedCacheTtlSec ttl then LayerDisabled invalid_ttl
          else
            let configuredRampValue = get_prop (ramp c) (layer_name layer);
                configuredRamp = (if configuredRampValue = JUndef then JNum (Fin 100) else configuredRampValue)
            in if \<not> num_in_0_100 configuredRamp then LayerDisabled invalid_ramp
               else
                 let r = rat_of_val configuredRamp;
                     resolved = \<lparr>res_ttlSec = int_of_val ttl, res_ramp = r\<rparr>
                 in if r \<le> 0 then LayerRampedDown resolved
                    else if r \<ge> 100 then LayerEnabled resolved
                    else if deterministicRampSample key layer < r then LayerEnabled resolved
                    else LayerRampedDown resolved)"

definition remote_layer :: "resolved_layer \<Rightarrow> int option \<Rightarrow> resolved_remote_layer" where
  "remote_layer c a = \<lparr>res_ttlSec = res_ttlSec c, res_ramp = res_ramp c, res_staleMaxAgeSec = a\<rparr>"

text \<open>The remote layer with its stale-on-error window; the boolean is \<^verbatim>\<open>staleOnErrorConfigError\<close>.\<close>

definition stale_window :: "jsval \<Rightarrow> resolved_layer \<Rightarrow> int option \<times> bool" where
  "stale_window configuredMaxAge c =
     (if configuredMaxAge = JUndef \<or> configuredMaxAge = JNum (Fin 0) then (None, False)
      else if \<not> isSupportedCacheTtlSec configuredMaxAge \<or> int_of_val configuredMaxAge \<le> res_ttlSec c
        then (None, True)
      else (Some (int_of_val configuredMaxAge), False))"

definition resolveRemoteLayerConfigResult ::
  "key_config option \<Rightarrow> DialCacheKey \<Rightarrow> resolved_remote_layer layer_resolution \<times> bool" where
  "resolveRemoteLayerConfigResult config key =
     (let configuredMaxAge = (case config of None \<Rightarrow> JUndef | Some c \<Rightarrow> staleOnErrorMaxAgeSec c) in
      case resolveLayerConfigResult config key REMOTE of
        LayerDisabled reason \<Rightarrow>
          (LayerDisabled reason,
           reason = policy_disabled \<and> configuredMaxAge \<noteq> JUndef \<and> configuredMaxAge \<noteq> JNum (Fin 0))
      | LayerEnabled c \<Rightarrow>
          (LayerEnabled (remote_layer c (fst (stale_window configuredMaxAge c))), snd (stale_window configuredMaxAge c))
      | LayerRampedDown c \<Rightarrow>
          (LayerRampedDown (remote_layer c (fst (stale_window configuredMaxAge c))), snd (stale_window configuredMaxAge c)))"

subsection \<open>Mismatch logging\<close>

datatype diff_level = DiffOff | DiffPaths | DiffValues

fun diff_name :: "diff_level \<Rightarrow> jsstring" where
  "diff_name DiffOff = js ''off''"
| "diff_name DiffPaths = js ''paths''"
| "diff_name DiffValues = js ''values''"

definition diff_of_val :: "jsval \<Rightarrow> diff_level option" where
  "diff_of_val v =
     (if v = JStr (js ''off'') then Some DiffOff
      else if v = JStr (js ''paths'') then Some DiffPaths
      else if v = JStr (js ''values'') then Some DiffValues
      else None)"

definition isShadowMismatchDiffLevel :: "jsval \<Rightarrow> bool" where
  "isShadowMismatchDiffLevel v \<longleftrightarrow> diff_of_val v \<noteq> None"

record MismatchLoggingLeaves =
  leaf_value :: jsval
  leaf_diff :: jsval
  leaf_invalid :: bool

record MismatchLoggingResolution =
  log_value :: bool
  log_diff :: diff_level
  log_invalid :: bool

definition expandMismatchLogging :: "jsval \<Rightarrow> MismatchLoggingLeaves" where
  "expandMismatchLogging shd =
     (let shorthand = get_prop shd ''logMismatches'';
          expanded =
            (if shorthand = JUndef then \<lparr>leaf_value = JUndef, leaf_diff = JUndef, leaf_invalid = False\<rparr>
             else if shorthand = JBool True
               then \<lparr>leaf_value = JBool True, leaf_diff = JStr (js ''values''), leaf_invalid = False\<rparr>
             else if shorthand = JBool False
               then \<lparr>leaf_value = JBool False, leaf_diff = JStr (js ''off''), leaf_invalid = False\<rparr>
             else \<lparr>leaf_value = JBool False, leaf_diff = JStr (js ''off''), leaf_invalid = True\<rparr>);
          written = get_prop shd ''mismatchLogging''
      in if written = JUndef then expanded
         else \<lparr>leaf_value = or_else (get_prop written ''value'') (leaf_value expanded),
               leaf_diff = or_else (get_prop written ''diff'') (leaf_diff expanded),
               leaf_invalid = leaf_invalid expanded\<rparr>)"

fun resolveValueLeaf :: "jsval \<Rightarrow> bool option" where
  "resolveValueLeaf JUndef = Some False"
| "resolveValueLeaf (JBool b) = Some b"
| "resolveValueLeaf _ = None"

definition resolveDiffLeaf :: "jsval \<Rightarrow> diff_level option" where
  "resolveDiffLeaf leaf = (if leaf = JUndef then Some DiffOff else diff_of_val leaf)"

definition resolveMismatchLogging :: "jsval \<Rightarrow> MismatchLoggingResolution" where
  "resolveMismatchLogging shd =
     (let leaves = expandMismatchLogging shd;
          v = resolveValueLeaf (leaf_value leaves);
          d = resolveDiffLeaf (leaf_diff leaves)
      in \<lparr>log_value = (case v of None \<Rightarrow> False | Some b \<Rightarrow> b),
          log_diff = (case d of None \<Rightarrow> DiffOff | Some l \<Rightarrow> l),
          log_invalid = (leaf_invalid leaves \<or> v = None \<or> d = None)\<rparr>)"

subsection \<open>Merging an overlay onto the default\<close>

definition assertKeyConfig :: "jsval \<Rightarrow> unit res" where
  "assertKeyConfig config =
     res_bind (check (config = JNull \<or> config = JUndef \<or> is_plain_object config)
                 (TypeError ''DialCache key config must be an object'')) (\<lambda>_.
     check (config = JNull \<or> config = JUndef \<or> \<not> hasOwn config ''shadowRamp'')
       (TypeError ''DialCacheKeyConfig.shadowRamp was replaced by shadow.ramp''))"

definition assertLayerConfig :: "jsval \<Rightarrow> string \<Rightarrow> unit res" where
  "assertLayerConfig config name =
     check (config = JUndef \<or> is_plain_object config)
       (TypeError (''DialCache '' @ name @ '' config must be a layer map''))"

definition mergeLayerConfig :: "jsval \<Rightarrow> jsval \<Rightarrow> string \<Rightarrow> jsval res" where
  "mergeLayerConfig defaults overlay name =
     res_bind (assertLayerConfig defaults name) (\<lambda>_.
     res_bind (assertLayerConfig overlay name) (\<lambda>_.
     Inr (JObj (concat (map (\<lambda>layer.
       opt_prop (layer_name layer)
         (or_else (get_prop overlay (layer_name layer)) (get_prop defaults (layer_name layer))))
       [LOCAL, REMOTE])))))"

definition assertShadowConfig :: "jsval \<Rightarrow> unit res" where
  "assertShadowConfig config =
     res_bind (check (config = JUndef \<or> is_plain_object config)
                 (TypeError ''DialCache shadow config must be an object'')) (\<lambda>_.
     check (get_prop config ''mismatchLogging'' = JUndef \<or> is_plain_object (get_prop config ''mismatchLogging''))
       (TypeError ''DialCache shadow mismatchLogging config must be an object''))"

definition no_leaves :: MismatchLoggingLeaves where
  "no_leaves = \<lparr>leaf_value = JUndef, leaf_diff = JUndef, leaf_invalid = False\<rparr>"

definition mergeShadowConfig :: "jsval \<Rightarrow> jsval \<Rightarrow> jsval res" where
  "mergeShadowConfig defaults overlay =
     res_bind (assertShadowConfig defaults) (\<lambda>_.
     res_bind (assertShadowConfig overlay) (\<lambda>_.
     if defaults = JUndef \<and> overlay = JUndef then Inr JUndef
     else
       let rmp = or_else (get_prop overlay ''ramp'') (get_prop defaults ''ramp'');
           inherited = (if defaults = JUndef then no_leaves else expandMismatchLogging defaults);
           written = (if overlay = JUndef then no_leaves else expandMismatchLogging overlay);
           v = or_else (leaf_value written) (leaf_value inherited);
           d = or_else (leaf_diff written) (leaf_diff inherited)
       in Inr (JObj (opt_prop ''ramp'' rmp
            @ (if leaf_invalid written then [(''logMismatches'', get_prop overlay ''logMismatches'')] else [])
            @ (if v \<noteq> JUndef \<or> d \<noteq> JUndef
               then [(''mismatchLogging'', JObj (opt_prop ''value'' v @ opt_prop ''diff'' d))] else [])))))"

definition default_obj :: "key_config option \<Rightarrow> jsval" where
  "default_obj d = (case d of None \<Rightarrow> JNull | Some c \<Rightarrow> config_obj c)"

definition merged_input :: "(string \<Rightarrow> jsval) \<Rightarrow> jsval \<Rightarrow> jsval \<Rightarrow> jsval \<Rightarrow> jsval" where
  "merged_input leaf shd ttl rmp =
     JObj ((''ttlSec'', ttl) # (''ramp'', rmp)
           # opt_prop ''requestLocal'' (leaf ''requestLocal'')
           @ opt_prop ''coalesce'' (leaf ''coalesce'')
           @ opt_prop ''staleOnErrorMaxAgeSec'' (leaf ''staleOnErrorMaxAgeSec'')
           @ opt_prop ''remoteReadTimeoutMs'' (leaf ''remoteReadTimeoutMs'')
           @ opt_prop ''shadow'' shd)"

definition mergeKeyConfig :: "key_config option \<Rightarrow> jsval \<Rightarrow> key_config res" where
  "mergeKeyConfig dcfg runtimeConfig =
     (let dflt = default_obj dcfg;
          overlay = (if runtimeConfig = JNull then JUndef else runtimeConfig);
          leaf = (\<lambda>n. or_else (get_prop overlay n) (get_prop dflt n))
      in res_bind (assertKeyConfig dflt) (\<lambda>_.
         res_bind (assertKeyConfig overlay) (\<lambda>_.
         res_bind (mergeShadowConfig (get_prop dflt ''shadow'') (get_prop overlay ''shadow'')) (\<lambda>shd.
         res_bind (mergeLayerConfig (get_prop dflt ''ttlSec'') (get_prop overlay ''ttlSec'') ''ttlSec'') (\<lambda>ttl.
         res_bind (mergeLayerConfig (get_prop dflt ''ramp'') (get_prop overlay ''ramp'') ''ramp'') (\<lambda>rmp.
         DialCacheKeyConfig_new (merged_input leaf shd ttl rmp)))))))"

text \<open>\<open>fetchKeyConfig\<close> after the provider has answered \<open>runtimeConfig\<close>.\<close>

definition fetchKeyConfig :: "key_config option \<Rightarrow> jsval \<Rightarrow> key_config option res" where
  "fetchKeyConfig dcfg runtimeConfig =
     (if runtimeConfig = JNull \<or> runtimeConfig = JUndef then Inr dcfg
      else res_bind (mergeKeyConfig dcfg runtimeConfig) (\<lambda>c. Inr (Some c)))"

subsection \<open>Layer decisions\<close>

lemma num_in_0_100_iff: "num_in_0_100 v \<longleftrightarrow> (\<exists>q. v = JNum (Fin q) \<and> 0 \<le> q \<and> q \<le> 100)"
  by (cases v) (auto simp: num_in_0_100_def elim!: num_isFinite.elims)

lemma layer_admits_iff: "ramp_admits (deterministicRampSample k l) r \<longleftrightarrow> deterministicRampSample k l < r"
  using layer_ramp.admits_iff [of "(k, l)" r] by simp

text \<open>The whole decision, as the policy it implements.\<close>

definition effective_ramp :: "key_config \<Rightarrow> cache_layer \<Rightarrow> jsval" where
  "effective_ramp c l =
     (if get_prop (ramp c) (layer_name l) = JUndef then JNum (Fin 100) else get_prop (ramp c) (layer_name l))"

definition resolved_of :: "key_config \<Rightarrow> cache_layer \<Rightarrow> resolved_layer" where
  "resolved_of c l = \<lparr>res_ttlSec = int_of_val (get_prop (ttlSec c) (layer_name l)),
     res_ramp = rat_of_val (effective_ramp c l)\<rparr>"

definition valid_policy :: "key_config \<Rightarrow> cache_layer \<Rightarrow> bool" where
  "valid_policy c l \<longleftrightarrow> isSupportedCacheTtlSec (get_prop (ttlSec c) (layer_name l)) \<and> num_in_0_100 (effective_ramp c l)"

lemma resolveLayer_eq:
  "resolveLayerConfigResult (Some c) k l =
     (if get_prop (ttlSec c) (layer_name l) = JUndef then LayerDisabled policy_disabled
      else if \<not> isSupportedCacheTtlSec (get_prop (ttlSec c) (layer_name l)) then LayerDisabled invalid_ttl
      else if \<not> num_in_0_100 (effective_ramp c l) then LayerDisabled invalid_ramp
      else if ramp_admits (deterministicRampSample k l) (rat_of_val (effective_ramp c l))
        then LayerEnabled (resolved_of c l)
      else LayerRampedDown (resolved_of c l))"
  by (simp add: resolveLayerConfigResult_def Let_def effective_ramp_def resolved_of_def ramp_admits_def)

lemma resolveLayer_Enabled:
  "resolveLayerConfigResult config k l = LayerEnabled rc \<longleftrightarrow>
     (\<exists>c. config = Some c \<and> valid_policy c l \<and> rc = resolved_of c l \<and>
        ramp_admits (deterministicRampSample k l) (res_ramp rc))"
  by (cases config)
     (auto simp: resolveLayer_eq valid_policy_def resolved_of_def isSupportedCacheTtlSec_iff
       resolveLayerConfigResult_def [of None])

lemma resolveLayer_RampedDown:
  "resolveLayerConfigResult config k l = LayerRampedDown rc \<longleftrightarrow>
     (\<exists>c. config = Some c \<and> valid_policy c l \<and> rc = resolved_of c l \<and>
        \<not> ramp_admits (deterministicRampSample k l) (res_ramp rc))"
  by (cases config)
     (auto simp: resolveLayer_eq valid_policy_def resolved_of_def isSupportedCacheTtlSec_iff
       resolveLayerConfigResult_def [of None])

lemma resolved_of_bounds:
  assumes "valid_policy c l"
  shows "1 \<le> res_ttlSec (resolved_of c l)" "res_ttlSec (resolved_of c l) \<le> MAX_CACHE_TTL_SEC"
    "0 \<le> res_ramp (resolved_of c l)" "res_ramp (resolved_of c l) \<le> 100"
  using assms by (auto simp: valid_policy_def resolved_of_def isSupportedCacheTtlSec_iff num_in_0_100_iff)

lemma ramp_admits_pos: "ramp_admits s r \<Longrightarrow> 0 < r"
  by (auto simp: ramp_admits_def split: if_splits)

lemma resolveLayer_ramp_zero:
  assumes "get_prop (ramp c) (layer_name l) = JNum (Fin 0)"
  shows "resolveLayerConfigResult (Some c) k l \<noteq> LayerEnabled rc"
  using assms by (auto simp: resolveLayer_Enabled effective_ramp_def resolved_of_def ramp_admits_def)

lemma resolveRemote_fst:
  "fst (resolveRemoteLayerConfigResult config k) = LayerEnabled rc \<Longrightarrow>
     \<exists>c. resolveLayerConfigResult config k REMOTE = LayerEnabled c"
  by (auto simp: resolveRemoteLayerConfigResult_def Let_def split: layer_resolution.splits)

text \<open>
  C25. A layer is enabled only under a valid policy: an integral TTL from 1 second to 365 days and a ramp
  above zero that admits this key; and the remote layer's stale-on-error window, when there is one, is an
  integral age strictly above the TTL and at most 365 days.
\<close>

theorem resolveRemote_valid:
  assumes "resolveRemoteLayerConfigResult config k = (LayerEnabled rc, err)"
  shows "1 \<le> res_ttlSec rc \<and> res_ttlSec rc \<le> MAX_CACHE_TTL_SEC \<and> 0 < res_ramp rc \<and> res_ramp rc \<le> 100 \<and>
    deterministicRampSample k REMOTE < res_ramp rc \<and>
    (\<forall>a. res_staleMaxAgeSec rc = Some a \<longrightarrow> \<not> err \<and> res_ttlSec rc < a \<and> a \<le> MAX_CACHE_TTL_SEC)"
proof -
  from assms obtain c where c: "resolveLayerConfigResult config k REMOTE = LayerEnabled c"
    using resolveRemote_fst [of config k] by fastforce
  with assms obtain v where rc: "rc = remote_layer c (fst (stale_window v c))" "err = snd (stale_window v c)"
    by (auto simp: resolveRemoteLayerConfigResult_def Let_def)
  have "1 \<le> res_ttlSec c \<and> res_ttlSec c \<le> MAX_CACHE_TTL_SEC \<and> 0 < res_ramp c \<and> res_ramp c \<le> 100
      \<and> deterministicRampSample k REMOTE < res_ramp c"
    using c by (auto simp: resolveLayer_Enabled resolved_of_bounds layer_admits_iff [symmetric] dest: ramp_admits_pos)
  then show ?thesis
    by (auto simp: rc remote_layer_def stale_window_def isSupportedCacheTtlSec_iff split: if_splits)
qed

text \<open>
  Raising a layer's ramp never turns a served key off: a key enabled at ramp \<open>r\<close> is enabled, with the
  same TTL, at every larger ramp up to 100.
\<close>

theorem resolveLayer_ramp_monotone:
  assumes "resolveLayerConfigResult (Some c) k l = LayerEnabled rc"
    and "effective_ramp c l = JNum (Fin r)" "r \<le> r'" "r' \<le> 100"
  shows "resolveLayerConfigResult (Some (c\<lparr>ramp := JObj [(layer_name l, JNum (Fin r'))]\<rparr>)) k l =
    LayerEnabled \<lparr>res_ttlSec = res_ttlSec rc, res_ramp = r'\<rparr>"
proof -
  let ?c' = "c\<lparr>ramp := JObj [(layer_name l, JNum (Fin r'))]\<rparr>"
  have eff: "effective_ramp ?c' l = JNum (Fin r')" by (simp add: effective_ramp_def)
  from assms have c: "valid_policy c l" "rc = resolved_of c l" "ramp_admits (deterministicRampSample k l) r"
    by (auto simp: resolveLayer_Enabled resolved_of_def)
  then have "ramp_admits (deterministicRampSample k l) r'"
    using layer_ramp.admits_mono [of "(k, l)" r r'] assms(3) by simp
  moreover have "valid_policy ?c' l" using c(1) assms by (auto simp: valid_policy_def eff num_in_0_100_iff)
  ultimately show ?thesis by (simp add: resolveLayer_Enabled resolved_of_def eff c(2))
qed

subsection \<open>The merge, leaf by leaf\<close>

lemma layer_name_cases: "get_prop (JObj (opt_prop ''local'' a @ opt_prop ''remote'' b)) (layer_name l) =
    (case l of LOCAL \<Rightarrow> a | REMOTE \<Rightarrow> b)"
  by (cases l) (simp_all add: opt_prop_def)

lemma mergeLayerConfig_leaf:
  assumes "mergeLayerConfig d ov n = Inr m"
  shows "get_prop m (layer_name l) = or_else (get_prop ov (layer_name l)) (get_prop d (layer_name l))"
    "is_plain_object m"
  using assms layer_name_cases [of _ _ l]
  by (auto simp: mergeLayerConfig_def res_simps split: cache_layer.splits)

lemma mergeLayerConfig_ok:
  "d = JUndef \<or> is_plain_object d \<Longrightarrow> ov = JUndef \<or> is_plain_object ov \<Longrightarrow> \<exists>m. mergeLayerConfig d ov n = Inr m"
  by (auto simp: mergeLayerConfig_def res_simps assertLayerConfig_def)

lemma default_obj_simps [simp]:
  "default_obj (Some c) = config_obj c" "default_obj None = JNull"
  "\<not> hasOwn (default_obj dc) ''shadowRamp''"
  by (simp_all add: default_obj_def split: option.splits)

lemma merged_input_get:
  "get_prop (merged_input leaf shd ttl rmp) ''ttlSec'' = ttl"
  "get_prop (merged_input leaf shd ttl rmp) ''ramp'' = rmp"
  "get_prop (merged_input leaf shd ttl rmp) ''shadow'' = shd"
  "get_prop (merged_input leaf shd ttl rmp) ''requestLocal'' = leaf ''requestLocal''"
  "get_prop (merged_input leaf shd ttl rmp) ''coalesce'' = leaf ''coalesce''"
  "get_prop (merged_input leaf shd ttl rmp) ''staleOnErrorMaxAgeSec'' = leaf ''staleOnErrorMaxAgeSec''"
  "get_prop (merged_input leaf shd ttl rmp) ''remoteReadTimeoutMs'' = leaf ''remoteReadTimeoutMs''"
  "is_plain_object (merged_input leaf shd ttl rmp)" "\<not> hasOwn (merged_input leaf shd ttl rmp) ''shadowRamp''"
  unfolding merged_input_def by (simp_all add: sparse_simps del: get_prop.simps hasOwn.simps)

lemma mergeKeyConfig_Inr:
  assumes "mergeKeyConfig dc ov = Inr m" "ov \<noteq> JNull"
  obtains shd ttl rmp where
    "mergeShadowConfig (get_prop (default_obj dc) ''shadow'') (get_prop ov ''shadow'') = Inr shd"
    "mergeLayerConfig (get_prop (default_obj dc) ''ttlSec'') (get_prop ov ''ttlSec'') ''ttlSec'' = Inr ttl"
    "mergeLayerConfig (get_prop (default_obj dc) ''ramp'') (get_prop ov ''ramp'') ''ramp'' = Inr rmp"
    "ttlSec m = ttl" "ramp m = rmp" "shadow m = shd"
    "bool_val (requestLocal m) = or_else (get_prop ov ''requestLocal'') (get_prop (default_obj dc) ''requestLocal'')"
    "bool_val (coalesce m) = or_else (get_prop ov ''coalesce'') (get_prop (default_obj dc) ''coalesce'')"
    "int_val (remoteReadTimeoutMs m) =
       or_else (get_prop ov ''remoteReadTimeoutMs'') (get_prop (default_obj dc) ''remoteReadTimeoutMs'')"
    "staleOnErrorMaxAgeSec m =
       or_else (get_prop ov ''staleOnErrorMaxAgeSec'') (get_prop (default_obj dc) ''staleOnErrorMaxAgeSec'')"
proof -
  let ?leaf = "\<lambda>n. or_else (get_prop ov n) (get_prop (default_obj dc) n)"
  from assms obtain shd ttl rmp where
    1: "mergeShadowConfig (get_prop (default_obj dc) ''shadow'') (get_prop ov ''shadow'') = Inr shd"
    "mergeLayerConfig (get_prop (default_obj dc) ''ttlSec'') (get_prop ov ''ttlSec'') ''ttlSec'' = Inr ttl"
    "mergeLayerConfig (get_prop (default_obj dc) ''ramp'') (get_prop ov ''ramp'') ''ramp'' = Inr rmp"
    and new: "DialCacheKeyConfig_new (merged_input ?leaf shd ttl rmp) = Inr m"
    by (auto simp: mergeKeyConfig_def Let_def res_simps)
  have "ttl \<noteq> JUndef" "rmp \<noteq> JUndef"
    using mergeLayerConfig_leaf(2) [OF 1(2)] mergeLayerConfig_leaf(2) [OF 1(3)] by auto
  then have "ttlSec m = ttl" "ramp m = rmp" "shadow m = shd"
    "bool_val (requestLocal m) = ?leaf ''requestLocal''" "bool_val (coalesce m) = ?leaf ''coalesce''"
    "int_val (remoteReadTimeoutMs m) = ?leaf ''remoteReadTimeoutMs''"
    "staleOnErrorMaxAgeSec m = ?leaf ''staleOnErrorMaxAgeSec''"
    using new
    by (simp_all add: DialCacheKeyConfig_new_Inr merged_input_get cloneLayerConfig_Inr cloneShadowConfig_Inr)
  with 1 that show thesis by blast
qed

text \<open>
  The merge is leaf-wise: wherever the provider's overlay writes a leaf the effective policy has the
  overlay's value, and wherever it writes none the registered default's. No leaf comes from elsewhere.
\<close>

theorem mergeKeyConfig_leafwise:
  assumes "mergeKeyConfig dc ov = Inr m" "ov \<noteq> JNull"
  shows "get_prop (ttlSec m) (layer_name l) =
      or_else (get_prop (get_prop ov ''ttlSec'') (layer_name l))
              (get_prop (get_prop (default_obj dc) ''ttlSec'') (layer_name l)) \<and>
    get_prop (ramp m) (layer_name l) =
      or_else (get_prop (get_prop ov ''ramp'') (layer_name l))
              (get_prop (get_prop (default_obj dc) ''ramp'') (layer_name l)) \<and>
    bool_val (requestLocal m) = or_else (get_prop ov ''requestLocal'') (get_prop (default_obj dc) ''requestLocal'') \<and>
    bool_val (coalesce m) = or_else (get_prop ov ''coalesce'') (get_prop (default_obj dc) ''coalesce'') \<and>
    staleOnErrorMaxAgeSec m =
      or_else (get_prop ov ''staleOnErrorMaxAgeSec'') (get_prop (default_obj dc) ''staleOnErrorMaxAgeSec'')"
  by (rule mergeKeyConfig_Inr [OF assms]) (simp add: mergeLayerConfig_leaf(1))

subsection \<open>The kill switch\<close>

definition shadow_off :: jsval where
  "shadow_off = JObj [(''ramp'', JNum (Fin 0)),
     (''mismatchLogging'', JObj [(''value'', JBool False), (''diff'', JStr (js ''off''))])]"

lemma shadow_off_get:
  "get_prop shadow_off ''ramp'' = JNum (Fin 0)"
  "expandMismatchLogging shadow_off =
     \<lparr>leaf_value = JBool False, leaf_diff = JStr (js ''off''), leaf_invalid = False\<rparr>"
  "resolveMismatchLogging shadow_off = \<lparr>log_value = False, log_diff = DiffOff, log_invalid = False\<rparr>"
  "shadow_off \<noteq> JUndef" "assertShadowConfig shadow_off = Inr ()" "cloneShadowConfig shadow_off = Inr shadow_off"
  by (simp_all add: shadow_off_def expandMismatchLogging_def resolveMismatchLogging_def resolveDiffLeaf_def
      diff_of_val_def assertShadowConfig_def cloneShadowConfig_Inr)

lemma DialCacheKeyConfig_disabled_fields:
  assumes "DialCacheKeyConfig_disabled = Inr d"
  shows "ttlSec d = JObj []" "ramp d = JObj [(''local'', JNum (Fin 0)), (''remote'', JNum (Fin 0))]"
    "requestLocal d = Some False" "coalesce d = None" "remoteReadTimeoutMs d = None"
    "staleOnErrorMaxAgeSec d = JNum (Fin 0)"
    "shadow d = shadow_off"
  using assms
  by (auto simp: DialCacheKeyConfig_disabled_def disabled_input_def shadow_off_def DialCacheKeyConfig_new_Inr
      cloneLayerConfig_Inr cloneShadowConfig_Inr bool_val_def int_val_def split: option.splits)

lemma DialCacheKeyConfig_disabled_ok: "\<exists>d. DialCacheKeyConfig_disabled = Inr d"
  by (simp add: DialCacheKeyConfig_disabled_def disabled_input_def DialCacheKeyConfig_new_def
      cloneLayerConfig_def cloneShadowConfig_def cloneMismatchLoggingConfig_def opt_boolean_def)

lemma mergeShadowConfig_off:
  "mergeShadowConfig ds shadow_off = Inr m \<Longrightarrow> m = shadow_off"
  "assertShadowConfig ds = Inr () \<Longrightarrow> mergeShadowConfig ds shadow_off = Inr shadow_off"
  by (auto simp: mergeShadowConfig_def res_simps Let_def shadow_off_get opt_prop_def)
     (simp_all add: shadow_off_def)

lemma mergeKeyConfig_disabled_ok:
  assumes "pred_option wf_config dc" "DialCacheKeyConfig_disabled = Inr d"
  shows "\<exists>m. mergeKeyConfig dc (config_obj d) = Inr m"
proof -
  note d = DialCacheKeyConfig_disabled_fields [OF assms(2)]
  let ?dflt = "default_obj dc"
  have dflt: "assertKeyConfig ?dflt = Inr ()" "assertKeyConfig (config_obj d) = Inr ()"
    by (cases dc; simp add: assertKeyConfig_def)+
  have wf: "get_prop ?dflt ''ttlSec'' = JUndef \<or> is_plain_object (get_prop ?dflt ''ttlSec'')"
    "get_prop ?dflt ''ramp'' = JUndef \<or> is_plain_object (get_prop ?dflt ''ramp'')"
    "assertShadowConfig (get_prop ?dflt ''shadow'') = Inr ()"
    using assms(1) by (cases dc; auto simp: wf_config_def assertShadowConfig_def)+
  obtain t where t: "mergeLayerConfig (get_prop ?dflt ''ttlSec'') (ttlSec d) ''ttlSec'' = Inr t"
    using mergeLayerConfig_ok [OF wf(1)] d(1) by fastforce
  obtain r where r: "mergeLayerConfig (get_prop ?dflt ''ramp'') (ramp d) ''ramp'' = Inr r"
    using mergeLayerConfig_ok [OF wf(2)] d(2) by fastforce
  have s: "mergeShadowConfig (get_prop ?dflt ''shadow'') (shadow d) = Inr shadow_off"
    using mergeShadowConfig_off(2) [OF wf(3)] d(7) by simp
  have rrt: "get_prop ?dflt ''remoteReadTimeoutMs'' = int_val (Option.bind dc remoteReadTimeoutMs)"
    "get_prop ?dflt ''coalesce'' = bool_val (Option.bind dc coalesce)"
    by (cases dc; simp add: int_val_def bool_val_def)+
  have bounds: "case Option.bind dc remoteReadTimeoutMs of None \<Rightarrow> True | Some n \<Rightarrow> 1 \<le> n \<and> n \<le> MAX_TIMER_DELAY_MS"
    using assms(1) by (cases dc) (auto simp: wf_config_def split: option.splits)
  let ?m = "\<lparr>ttlSec = t, ramp = r, shadow = shadow_off, requestLocal = Some False,
     coalesce = Option.bind dc coalesce, staleOnErrorMaxAgeSec = JNum (Fin 0),
     remoteReadTimeoutMs = Option.bind dc remoteReadTimeoutMs\<rparr>"
  have "mergeKeyConfig dc (config_obj d) = Inr ?m"
    using dflt t r s mergeLayerConfig_leaf(2) [OF t] mergeLayerConfig_leaf(2) [OF r] bounds
    by (auto simp: mergeKeyConfig_def Let_def d rrt bool_val_def int_val_def merged_input_get shadow_off_get
        DialCacheKeyConfig_new_Inr cloneLayerConfig_Inr split: option.splits)
  then show ?thesis by blast
qed

text \<open>
  C21. The kill switch works: whatever well-formed default a use case registered, a provider that answers
  \<^verbatim>\<open>DialCacheKeyConfig.disabled()\<close> yields an effective policy in which no layer is enabled for any key,
  request-local caching is off, stale recovery has no window, and shadow validation samples nothing and
  logs nothing.
\<close>

theorem disabled_overlay_kills:
  assumes "pred_option wf_config dc" "DialCacheKeyConfig_disabled = Inr d"
  shows "\<exists>m. fetchKeyConfig dc (config_obj d) = Inr (Some m) \<and>
    (\<forall>k l rc. resolveLayerConfigResult (Some m) k l \<noteq> LayerEnabled rc) \<and>
    requestLocal m = Some False \<and> staleOnErrorMaxAgeSec m = JNum (Fin 0) \<and>
    get_prop (shadow m) ''ramp'' = JNum (Fin 0) \<and>
    resolveMismatchLogging (shadow m) = \<lparr>log_value = False, log_diff = DiffOff, log_invalid = False\<rparr>"
proof -
  note d = DialCacheKeyConfig_disabled_fields [OF assms(2)]
  obtain m where m: "mergeKeyConfig dc (config_obj d) = Inr m"
    using mergeKeyConfig_disabled_ok [OF assms] by blast
  then have fetch: "fetchKeyConfig dc (config_obj d) = Inr (Some m)" by (simp add: fetchKeyConfig_def)
  obtain shd ttl rmp where p:
    "mergeShadowConfig (get_prop (default_obj dc) ''shadow'') (shadow d) = Inr shd"
    "mergeLayerConfig (get_prop (default_obj dc) ''ramp'') (ramp d) ''ramp'' = Inr rmp"
    "ramp m = rmp" "shadow m = shd"
    "bool_val (requestLocal m) = or_else (bool_val (requestLocal d)) (get_prop (default_obj dc) ''requestLocal'')"
    "staleOnErrorMaxAgeSec m =
       or_else (staleOnErrorMaxAgeSec d) (get_prop (default_obj dc) ''staleOnErrorMaxAgeSec'')"
    by (rule mergeKeyConfig_Inr [OF m]) auto
  have "get_prop (ramp m) (layer_name l) = JNum (Fin 0)" for l
    using mergeLayerConfig_leaf(1) [OF p(2), of l] p(3) d(2) by (cases l) simp_all
  then have "resolveLayerConfigResult (Some m) k l \<noteq> LayerEnabled rc" for k l rc
    by (rule resolveLayer_ramp_zero)
  moreover have "requestLocal m = Some False" using p(5) d(3) by (auto simp: bool_val_def split: option.splits)
  ultimately show ?thesis
    using fetch mergeShadowConfig_off(1) [OF p(1) [unfolded d(7)]] p(4,6) d(6) by (simp add: shadow_off_get)
qed

subsection \<open>Concrete instances\<close>

definition sample_config :: "rat \<Rightarrow> key_config" where
  "sample_config r = \<lparr>ttlSec = JObj [(''local'', JNum (Fin 10)), (''remote'', JNum (Fin 60))],
     ramp = JObj [(''local'', JNum (Fin r)), (''remote'', JNum (Fin r))], shadow = JUndef,
     requestLocal = Some True, coalesce = None, staleOnErrorMaxAgeSec = JNum (Fin 300),
     remoteReadTimeoutMs = None\<rparr>"

definition sample_key :: DialCacheKey where
  "sample_key = \<lparr>keyType = js ''t'', keyId = js ''i'', useCase = js ''u'', keyArgs = [], namespace = js ''n'',
     keyPrefix = js ''n:t:i'', urn = js ''n:t:i#u'', defaultConfig = Some (sample_config 100),
     serializer = None, trackForInvalidation = False\<rparr>"

lemma sample_config_wf: "wf_config (sample_config r)"
  by (simp add: wf_config_def sample_config_def)

lemma supported_samples [simp]:
  "isSupportedCacheTtlSec (JNum (Fin 10))" "isSupportedCacheTtlSec (JNum (Fin 60))"
  "isSupportedCacheTtlSec (JNum (Fin 300))"
  using isSupportedCacheTtlSec_int [of 10] isSupportedCacheTtlSec_int [of 60] isSupportedCacheTtlSec_int [of 300]
  by (simp_all add: duration_consts)

theorem disabled_overlay_kills_witness:
  "\<exists>d m. DialCacheKeyConfig_disabled = Inr d \<and>
    fetchKeyConfig (Some (sample_config 100)) (config_obj d) = Inr (Some m) \<and>
    (\<forall>rc. resolveLayerConfigResult (Some m) sample_key REMOTE \<noteq> LayerEnabled rc)"
proof -
  obtain d where d: "DialCacheKeyConfig_disabled = Inr d" using DialCacheKeyConfig_disabled_ok by blast
  then show ?thesis
    using disabled_overlay_kills [of "Some (sample_config 100)" d] sample_config_wf [of 100] by auto
qed

theorem mergeKeyConfig_leafwise_witness:
  "\<exists>d m. DialCacheKeyConfig_disabled = Inr d \<and>
    mergeKeyConfig (Some (sample_config 100)) (config_obj d) = Inr m \<and>
    get_prop (ttlSec m) ''local'' = JNum (Fin 10) \<and> get_prop (ramp m) ''local'' = JNum (Fin 0)"
proof -
  obtain d where d: "DialCacheKeyConfig_disabled = Inr d" using DialCacheKeyConfig_disabled_ok by blast
  then obtain m where m: "mergeKeyConfig (Some (sample_config 100)) (config_obj d) = Inr m"
    using mergeKeyConfig_disabled_ok [of "Some (sample_config 100)" d] sample_config_wf by auto
  with mergeKeyConfig_leafwise [OF m, of LOCAL] d DialCacheKeyConfig_disabled_fields [OF d]
  show ?thesis by (auto simp: sample_config_def)
qed

theorem resolveRemote_valid_witness:
  "resolveRemoteLayerConfigResult (Some (sample_config 100)) sample_key =
     (LayerEnabled \<lparr>res_ttlSec = 60, res_ramp = 100, res_staleMaxAgeSec = Some 300\<rparr>, False) \<and>
   (60::int) < 300 \<and> deterministicRampSample sample_key REMOTE < 100"
proof -
  have "resolveRemoteLayerConfigResult (Some (sample_config 100)) sample_key =
     (LayerEnabled \<lparr>res_ttlSec = 60, res_ramp = 100, res_staleMaxAgeSec = Some 300\<rparr>, False)"
    by (simp add: resolveRemoteLayerConfigResult_def resolveLayerConfigResult_def sample_config_def
        remote_layer_def stale_window_def num_in_0_100_def)
  with resolveRemote_valid [OF this] show ?thesis by simp
qed

theorem resolveLayer_ramp_monotone_witness:
  "resolveLayerConfigResult (Some (sample_config 90)) sample_key LOCAL =
     LayerEnabled \<lparr>res_ttlSec = 10, res_ramp = 90\<rparr> \<and>
   resolveLayerConfigResult
     (Some ((sample_config 90)\<lparr>ramp := JObj [(layer_name LOCAL, JNum (Fin 95))]\<rparr>)) sample_key LOCAL =
     LayerEnabled \<lparr>res_ttlSec = 10, res_ramp = 95\<rparr>"
proof -
  have "deterministicRampSample sample_key LOCAL < 90"
    by (simp add: deterministicRampSample_def sample_key_def stablePercent_def fnv_step_def js_def)
  then have "resolveLayerConfigResult (Some (sample_config 90)) sample_key LOCAL =
     LayerEnabled \<lparr>res_ttlSec = 10, res_ramp = 90\<rparr>"
    by (simp add: resolveLayerConfigResult_def sample_config_def num_in_0_100_def)
  with resolveLayer_ramp_monotone [OF this, of 90 95] show ?thesis
    by (simp add: effective_ramp_def sample_config_def)
qed

end
