(* ===== verification/RedisPayload.thy ===== *)
theory RedisPayload
  imports Durations Utf8
begin

section \<open>The Redis frame\<close>

text \<open>
  \<^verbatim>\<open>internal/redis-payload.ts\<close> and the result types of \<^verbatim>\<open>redis-client.ts\<close>: a version byte, eight
  big-endian timestamp bytes, an encoding byte, the payload. Reads classify every reply as a frame, a
  miss with a bounded reason, or a typed error; tracked reads fence a frame by the watermark read with it.
\<close>

datatype payload = Text jsstring | Binary bytes

datatype miss_reason =
  value_absent | expired | watermark_fenced | unclassified

text \<open>A raw reply: a bulk string, nil, or anything else the client library produced.\<close>

datatype reply = NullReply | BulkReply bytes | OtherReply

datatype read_result =
    DecodedFrame payload jsnum
  | ReadMiss miss_reason "jsnum option"

definition isRedisReadMiss :: "read_result \<Rightarrow> bool" where
  "isRedisReadMiss r = (case r of ReadMiss _ _ \<Rightarrow> True | DecodedFrame _ _ \<Rightarrow> False)"

definition redisReadMiss :: "miss_reason \<Rightarrow> jsnum option \<Rightarrow> read_result" where
  "redisReadMiss reason observedWatermarkMs = ReadMiss reason observedWatermarkMs"

abbreviation REDIS_FRAME_VERSION :: byte where "REDIS_FRAME_VERSION \<equiv> 1"
abbreviation REDIS_ENCODING_UTF8 :: byte where "REDIS_ENCODING_UTF8 \<equiv> 0"
abbreviation REDIS_ENCODING_BINARY :: byte where "REDIS_ENCODING_BINARY \<equiv> 1"
abbreviation REDIS_FRAME_HEADER_BYTES :: nat where "REDIS_FRAME_HEADER_BYTES \<equiv> 9"
abbreviation REDIS_FRAME_MIN_BYTES :: nat where "REDIS_FRAME_MIN_BYTES \<equiv> 10"

definition validateRedisBulkStringReply :: "reply \<Rightarrow> bytes option res" where
  "validateRedisBulkStringReply raw =
     (case raw of NullReply \<Rightarrow> Inr None | BulkReply b \<Rightarrow> Inr (Some b) | OtherReply \<Rightarrow> Inl DialCacheRedisPayloadError)"

definition isSupportedRedisFrame :: "bytes \<Rightarrow> bool" where
  "isSupportedRedisFrame raw \<longleftrightarrow> length raw \<ge> REDIS_FRAME_MIN_BYTES \<and> raw ! 0 = REDIS_FRAME_VERSION"

subsection \<open>Decimal digits\<close>

definition is_digit :: "16 word \<Rightarrow> bool" where
  "is_digit u \<longleftrightarrow> 48 \<le> unat u \<and> unat u \<le> 57"

definition digits_value :: "jsstring \<Rightarrow> nat" where
  "digits_value s = foldl (\<lambda>n u. n * 10 + (unat u - 48)) 0 s"

definition parseRedisWatermark :: "bytes \<Rightarrow> jsnum option" where
  "parseRedisWatermark raw =
     (let text = utf8_toString raw in
      if \<not> (text \<noteq> [] \<and> list_all is_digit text) then None
      else let watermark = number_of_nat (digits_value text) in
           if num_le watermark (num_of_int MAX_SAFE_INTEGER) then Some watermark else None)"

subsection \<open>Encoding and decoding\<close>

definition write_be64 :: "nat \<Rightarrow> bytes" where
  "write_be64 n = map (\<lambda>i. byte_of (n div 256 ^ i mod 256)) (rev [0..<8])"

definition read_be64 :: "bytes \<Rightarrow> nat" where
  "read_be64 bs = foldl (\<lambda>n b. n * 256 + unat b) 0 bs"

definition isValidRedisTimestampMs :: "jsval \<Rightarrow> bool" where
  "isValidRedisTimestampMs v = (case v of JNum x \<Rightarrow> num_isSafeInteger x \<and> num_le (Fin 0) x | _ \<Rightarrow> False)"

definition assertValidRedisTimestampMs :: "jsval \<Rightarrow> unit res" where
  "assertValidRedisTimestampMs v =
     check (isValidRedisTimestampMs v)
       (RangeError ''DialCache Redis timestamp must be a nonnegative safe integer'')"

definition encodeRedisFrame :: "payload \<Rightarrow> jsval \<Rightarrow> bytes res" where
  "encodeRedisFrame p createdAtMs =
     res_bind (check (isValidRedisTimestampMs createdAtMs)
                 (RangeError ''DialCache frame createdAtMs must be a nonnegative safe integer'')) (\<lambda>_.
     Inr ([REDIS_FRAME_VERSION] @ write_be64 (nat (int_of_val createdAtMs)) @
       (case p of Binary b \<Rightarrow> REDIS_ENCODING_BINARY # b | Text s \<Rightarrow> REDIS_ENCODING_UTF8 # utf8_encode s)))"

definition decodeRedisPayload :: "bytes \<Rightarrow> payload res" where
  "decodeRedisPayload raw =
     (case raw of
        encoding # rest \<Rightarrow>
          if encoding = REDIS_ENCODING_UTF8 then Inr (Text (utf8_toString rest))
          else if encoding = REDIS_ENCODING_BINARY then Inr (Binary rest)
          else Inl DialCacheRedisPayloadEncodingError
      | [] \<Rightarrow> Inl DialCacheRedisPayloadEncodingError)"

definition readFrameCreatedAtMs :: "bytes \<Rightarrow> jsnum" where
  "readFrameCreatedAtMs frame = number_of_nat (read_be64 (take 8 (drop 1 frame)))"

definition decodedRedisFrame :: "bytes \<Rightarrow> read_result res" where
  "decodedRedisFrame frame =
     res_bind (decodeRedisPayload (drop REDIS_FRAME_HEADER_BYTES frame)) (\<lambda>p.
     Inr (DecodedFrame p (readFrameCreatedAtMs frame)))"

definition decodeRedisReadResult :: "reply \<Rightarrow> read_result res" where
  "decodeRedisReadResult raw =
     res_bind (validateRedisBulkStringReply raw) (\<lambda>frame.
     case frame of
       None \<Rightarrow> Inr (redisReadMiss value_absent None)
     | Some f \<Rightarrow> if \<not> isSupportedRedisFrame f then Inr (redisReadMiss unclassified None)
                 else decodedRedisFrame f)"

definition decodeTrackedFrame :: "bytes \<Rightarrow> jsnum option \<Rightarrow> read_result res" where
  "decodeTrackedFrame frame observedWatermarkMs =
     (let createdAtMs = readFrameCreatedAtMs frame in
      if createdAtMs = Fin 0 then Inr (redisReadMiss unclassified observedWatermarkMs)
      else if (case observedWatermarkMs of None \<Rightarrow> False | Some w \<Rightarrow> num_le createdAtMs w)
        then Inr (redisReadMiss watermark_fenced observedWatermarkMs)
      else decodedRedisFrame frame)"

definition decodeTrackedRedisReadResult :: "reply \<Rightarrow> reply \<Rightarrow> read_result res" where
  "decodeTrackedRedisReadResult raw rawWatermark =
     res_bind (validateRedisBulkStringReply raw) (\<lambda>frame.
     res_bind (validateRedisBulkStringReply rawWatermark) (\<lambda>watermarkFrame.
     case frame of
       None \<Rightarrow> Inr (redisReadMiss value_absent
                  (case watermarkFrame of None \<Rightarrow> None | Some w \<Rightarrow> parseRedisWatermark w))
     | Some f \<Rightarrow>
         if \<not> isSupportedRedisFrame f
           then Inr (redisReadMiss unclassified
                  (case watermarkFrame of None \<Rightarrow> None | Some w \<Rightarrow> parseRedisWatermark w))
         else (case watermarkFrame of
                 None \<Rightarrow> decodeTrackedFrame f None
               | Some w \<Rightarrow>
                   (case parseRedisWatermark w of
                      None \<Rightarrow> Inr (redisReadMiss unclassified None)
                    | Some watermark \<Rightarrow> decodeTrackedFrame f (Some watermark)))))"

subsection \<open>Big-endian timestamps\<close>

lemma read_be64_snoc: "foldl (\<lambda>n b. n * 256 + unat b) a (bs @ [b]) = foldl (\<lambda>n b. n * 256 + unat b) a bs * 256 + unat (b :: byte)"
  by simp

lemma write_be64_length [simp]: "length (write_be64 n) = 8"
  by (simp add: write_be64_def)

lemma be_bytes_value:
  "foldl (\<lambda>m b. m * 256 + unat b) 0 (map (\<lambda>i. byte_of (n div 256 ^ i mod 256)) (rev [0..<k])) = n mod 256 ^ k"
proof (induction k arbitrary: n)
  case (Suc k)
  have shift: "map (\<lambda>i. byte_of (n div 256 ^ i mod 256)) (rev [0..<Suc k]) =
      map (\<lambda>i. byte_of (n div 256 div 256 ^ i mod 256)) (rev [0..<k]) @ [byte_of (n mod 256)]"
  proof -
    have "rev [0..<Suc k] = map Suc (rev [0..<k]) @ [0]"
      by (simp add: upt_conv_Cons map_Suc_upt [symmetric] rev_map del: upt_Suc)
    then show ?thesis by (simp add: div_mult2_eq)
  qed
  have "n mod 256 ^ Suc k = n div 256 mod 256 ^ k * 256 + n mod 256"
    by (simp add: mod_mult2_eq)
  then show ?case by (simp add: shift Suc.IH unat_byte_of del: upt_Suc)
qed simp

lemma read_write_be64: "n < 2 ^ 64 \<Longrightarrow> read_be64 (write_be64 n) = n"
  unfolding read_be64_def write_be64_def be_bytes_value by simp

lemma isValidRedisTimestampMs_iff:
  "isValidRedisTimestampMs v \<longleftrightarrow> (\<exists>t. v = JNum (num_of_int t) \<and> 0 \<le> t \<and> t \<le> MAX_SAFE_INTEGER)"
proof (cases v)
  case (JNum x)
  then show ?thesis
    by (cases x) (auto simp: isValidRedisTimestampMs_def rat_is_int_iff abs_if simp flip: of_int_minus of_int_le_iff)
qed (simp_all add: isValidRedisTimestampMs_def)

lemma number_of_nat_small: "int n \<le> MAX_SAFE_INTEGER \<Longrightarrow> number_of_nat n = num_of_int (int n)"
proof -
  assume "int n \<le> MAX_SAFE_INTEGER"
  then have n: "n < 2 ^ 53" by (simp add: MAX_SAFE_INTEGER_def)
  then have "n < 2 ^ 1024 - 2 ^ 970" by (rule less_le_trans) simp
  with n show ?thesis by (simp add: number_of_nat_def round53_exact)
qed

subsection \<open>Frame round trip and fencing\<close>

text \<open>What survives storage: bytes exactly, text up to the replacement of lone surrogates.\<close>

definition stored :: "payload \<Rightarrow> payload" where
  "stored p = (case p of Binary b \<Rightarrow> Binary b | Text s \<Rightarrow> Text (utf8_toString (utf8_encode s)))"

lemma stored_well_formed: "(\<And>s. p = Text s \<Longrightarrow> well_formed s) \<Longrightarrow> stored p = p"
  by (cases p) (auto simp: stored_def utf8_toString_encode)

definition frame_of :: "payload \<Rightarrow> nat \<Rightarrow> bytes" where
  "frame_of p t = 1 # write_be64 t @
     (case p of Binary b \<Rightarrow> REDIS_ENCODING_BINARY # b | Text s \<Rightarrow> REDIS_ENCODING_UTF8 # utf8_encode s)"

lemma encodeRedisFrame_Inr:
  "encodeRedisFrame p v = Inr f \<longleftrightarrow>
     (\<exists>t. v = JNum (num_of_int t) \<and> 0 \<le> t \<and> t \<le> MAX_SAFE_INTEGER \<and> f = frame_of p (nat t))"
  by (auto simp: encodeRedisFrame_def res_simps isValidRedisTimestampMs_iff frame_of_def)

lemma frame_of_supported [simp]: "isSupportedRedisFrame (frame_of p t)"
  by (cases p) (auto simp: isSupportedRedisFrame_def frame_of_def)

lemma frame_of_createdAt: "int t \<le> MAX_SAFE_INTEGER \<Longrightarrow> readFrameCreatedAtMs (frame_of p t) = num_of_int (int t)"
proof -
  assume t: "int t \<le> MAX_SAFE_INTEGER"
  then have "t < 2 ^ 64" by (simp add: MAX_SAFE_INTEGER_def)
  then show ?thesis
    using t by (simp add: readFrameCreatedAtMs_def frame_of_def read_write_be64 number_of_nat_small)
qed

lemma frame_of_decoded:
  "int t \<le> MAX_SAFE_INTEGER \<Longrightarrow> decodedRedisFrame (frame_of p t) = Inr (DecodedFrame (stored p) (num_of_int (int t)))"
  by (cases p)
     (simp_all add: decodedRedisFrame_def frame_of_createdAt, simp_all add: frame_of_def decodeRedisPayload_def stored_def)

text \<open>
  Frames round-trip: encoding a payload with any valid timestamp succeeds, and decoding the bytes
  yields exactly that timestamp and the payload as stored.
\<close>

theorem frame_roundtrip:
  assumes "0 \<le> t" "t \<le> MAX_SAFE_INTEGER"
  shows "\<exists>f. encodeRedisFrame p (JNum (num_of_int t)) = Inr f \<and>
    decodeRedisReadResult (BulkReply f) = Inr (DecodedFrame (stored p) (num_of_int t))"
  using assms
  by (simp add: encodeRedisFrame_Inr decodeRedisReadResult_def validateRedisBulkStringReply_def frame_of_decoded)

theorem frame_roundtrip_witness:
  "\<exists>f. encodeRedisFrame (Binary [0, 255]) (JNum (num_of_int 1700000000000)) = Inr f \<and>
    decodeRedisReadResult (BulkReply f) = Inr (DecodedFrame (Binary [0, 255]) (num_of_int 1700000000000))"
  using frame_roundtrip [of 1700000000000 "Binary [0, 255]"] by (simp add: MAX_SAFE_INTEGER_def stored_def)

lemma decodedRedisFrame_createdAt:
  "decodedRedisFrame f = Inr (DecodedFrame p c) \<Longrightarrow> c = readFrameCreatedAtMs f"
  by (auto simp: decodedRedisFrame_def res_simps)

lemma decodeTrackedFrame_served:
  "decodeTrackedFrame f w = Inr (DecodedFrame p c) \<Longrightarrow>
     c = readFrameCreatedAtMs f \<and> c \<noteq> Fin 0 \<and> (\<forall>m. w = Some m \<longrightarrow> \<not> num_le c m)"
  by (auto simp: decodeTrackedFrame_def Let_def redisReadMiss_def dest: decodedRedisFrame_createdAt
      split: if_splits option.splits)

lemma tracked_read_fenced_raw:
  assumes "decodeTrackedRedisReadResult raw rawWatermark = Inr (DecodedFrame p c)"
  shows "c \<noteq> Fin 0 \<and> (\<exists>f. raw = BulkReply f \<and> isSupportedRedisFrame f \<and> c = readFrameCreatedAtMs f) \<and>
    (rawWatermark = NullReply \<or>
     (\<exists>w m. rawWatermark = BulkReply w \<and> parseRedisWatermark w = Some m \<and> \<not> num_le c m))"
  using assms
  by (auto simp: decodeTrackedRedisReadResult_def validateRedisBulkStringReply_def redisReadMiss_def res_simps
      dest: decodeTrackedFrame_served split: reply.splits option.splits if_splits)

text \<open>
  C8. A tracked read never serves a fenced value: it returns a frame only when the frame's timestamp is not
  the zero baseline and the watermark read with it is absent, or is a valid number strictly below that
  timestamp. A malformed watermark never lets a value through.
\<close>

theorem tracked_read_fenced:
  assumes "decodeTrackedRedisReadResult raw rawWatermark = Inr (DecodedFrame p c)"
  shows "c \<noteq> Fin 0 \<and> (\<exists>f. raw = BulkReply f \<and> isSupportedRedisFrame f \<and> c = readFrameCreatedAtMs f) \<and>
    (rawWatermark = NullReply \<or>
     (\<exists>w m. rawWatermark = BulkReply w \<and> parseRedisWatermark w = Some m \<and> \<not> num_le c m))"
  using assms by (rule tracked_read_fenced_raw)

lemma tracked_read_of_encoded:
  assumes "0 < t" "t \<le> MAX_SAFE_INTEGER" "parseRedisWatermark w = Some m"
  shows "decodeTrackedRedisReadResult (BulkReply (frame_of p (nat t))) (BulkReply w) =
    Inr (if num_le (num_of_int t) m then ReadMiss watermark_fenced (Some m)
         else DecodedFrame (stored p) (num_of_int t))"
  using assms
  by (simp add: decodeTrackedRedisReadResult_def validateRedisBulkStringReply_def decodeTrackedFrame_def
      frame_of_createdAt frame_of_decoded redisReadMiss_def)

theorem tracked_read_fenced_witness:
  "\<exists>f p c. decodeTrackedRedisReadResult (BulkReply f) (BulkReply [0x35]) = Inr (DecodedFrame p c) \<and> \<not> num_le c (Fin 5)"
proof -
  have "utf8_toString [0x35] = [0x35]"
    using utf8_toString_ascii [of "[0x35]"] by (simp add: unit_of_def)
  then have w: "parseRedisWatermark [0x35] = Some (num_of_int 5)"
    using number_of_nat_small [of 5]
    by (simp add: parseRedisWatermark_def is_digit_def digits_value_def MAX_SAFE_INTEGER_def)
  have "decodeTrackedRedisReadResult (BulkReply (frame_of (Binary []) (nat 9))) (BulkReply [0x35]) =
     Inr (DecodedFrame (stored (Binary [])) (num_of_int 9))"
    using tracked_read_of_encoded [OF _ _ w, of 9 "Binary []"] by (simp add: MAX_SAFE_INTEGER_def)
  with tracked_read_fenced [OF this] w show ?thesis by fastforce
qed

end
