(* ===== verification/Compression.thy ===== *)
theory Compression
  imports RedisPayload
begin

section \<open>The payload envelope\<close>

text \<open>
  \<^verbatim>\<open>internal/compression.ts\<close>. Byte 0 of a stored binary payload is an envelope marker: 0 escapes raw
  output, 1 and 2 mark a zstd frame of text and of bytes. zstd itself is \<^verbatim>\<open>node:zlib\<close>: the parameters
  \<open>zc\<close> (may throw) and \<open>zd\<close> of the definitions, with \<open>zstd_contract\<close> as what is relied on.
\<close>

datatype zstd_result = ZOk bytes | ZTooLarge | ZInvalid

record compression_config =
  thresholdBytes :: int
  level :: int

datatype write_outcome = compressed | below_threshold | not_smaller | write_over_limit
datatype read_outcome = passthrough | decompressed | fallback_raw | read_over_limit

record CompressPayloadResult =
  cp_payload :: payload
  cp_outcome :: write_outcome
  cp_originalBytes :: nat
  cp_storedBytes :: nat

definition MARKER_ESCAPED_RAW :: byte where "MARKER_ESCAPED_RAW = 0"
definition MARKER_ZSTD_UTF8 :: byte where "MARKER_ZSTD_UTF8 = 1"
definition MARKER_ZSTD_BINARY :: byte where "MARKER_ZSTD_BINARY = 2"

definition MAX_DECOMPRESSED_BYTES :: nat where
  "MAX_DECOMPRESSED_BYTES = 512 * 1024 * 1024"

lemmas marker_defs = MARKER_ESCAPED_RAW_def MARKER_ZSTD_UTF8_def MARKER_ZSTD_BINARY_def

text \<open>\<^verbatim>\<open>v ?? d\<close>\<close>

definition nullish :: "jsval \<Rightarrow> jsval \<Rightarrow> jsval" where
  "nullish v d = (if v = JUndef \<or> v = JNull then d else v)"

definition safe_int_between :: "jsval \<Rightarrow> int \<Rightarrow> int \<Rightarrow> bool" where
  "safe_int_between v lo hi =
     (case v of JNum x \<Rightarrow> num_isSafeInteger x \<and> \<not> num_lt x (num_of_int lo) \<and> \<not> num_lt (num_of_int hi) x | _ \<Rightarrow> False)"

definition resolveCompressionConfig :: "bool \<Rightarrow> jsval \<Rightarrow> compression_config option res" where
  "resolveCompressionConfig zstd_available config =
     (if config = JBool False then Inr None
      else res_bind (check (config = JUndef \<or> is_plain_object config \<or> is_array config)
                 (TypeError ''RedisConfig.compression must be an options object, false, or undefined'')) (\<lambda>_.
      let t = nullish (get_prop config ''thresholdBytes'') (JNum (Fin 4096)) in
      res_bind (check (safe_int_between t 1 MAX_SAFE_INTEGER)
                 (TypeError ''RedisConfig.compression.thresholdBytes must be a positive safe integer'')) (\<lambda>_.
      let l = nullish (get_prop config ''level'') (JNum (Fin 3)) in
      res_bind (check (safe_int_between l 1 22)
                 (TypeError ''RedisConfig.compression.level must be an integer between 1 and 22'')) (\<lambda>_.
      res_bind (check zstd_available
                 (TypeError ''RedisConfig.compression requires zstd support in node:zlib'')) (\<lambda>_.
      Inr (Some \<lparr>thresholdBytes = int_of_val t, level = int_of_val l\<rparr>))))))"

definition payload_bytes :: "payload \<Rightarrow> bytes" where
  "payload_bytes p = (case p of Binary b \<Rightarrow> b | Text s \<Rightarrow> utf8_encode s)"

definition isBinary :: "payload \<Rightarrow> bool" where
  "isBinary p = (case p of Binary _ \<Rightarrow> True | Text _ \<Rightarrow> False)"

definition escapeRawPayload :: "payload \<Rightarrow> payload" where
  "escapeRawPayload p =
     (case p of Text s \<Rightarrow> Text s
      | Binary b \<Rightarrow> (case b of [] \<Rightarrow> Binary b
          | first # _ \<Rightarrow> if first > MARKER_ZSTD_BINARY then Binary b else Binary (MARKER_ESCAPED_RAW # b)))"

definition rawResult :: "payload \<Rightarrow> write_outcome \<Rightarrow> nat \<Rightarrow> CompressPayloadResult" where
  "rawResult p outcome originalBytes =
     (let escaped = escapeRawPayload p in
      \<lparr>cp_payload = escaped, cp_outcome = outcome, cp_originalBytes = originalBytes,
       cp_storedBytes = (case escaped of Binary b \<Rightarrow> length b | Text _ \<Rightarrow> originalBytes)\<rparr>)"

definition compressPayload ::
  "(int \<Rightarrow> bytes \<Rightarrow> bytes res) \<Rightarrow> nat \<Rightarrow> payload \<Rightarrow> compression_config \<Rightarrow> CompressPayloadResult res" where
  "compressPayload zc maxDecompressedBytes p config =
     (let originalBytes = length (payload_bytes p) in
      if int originalBytes < thresholdBytes config then Inr (rawResult p below_threshold originalBytes)
      else if originalBytes > maxDecompressedBytes then Inr (rawResult p write_over_limit originalBytes)
      else res_bind (zc (level config) (payload_bytes p)) (\<lambda>c.
        let raw = rawResult p not_smaller originalBytes;
            markedBytes = 1 + length c
        in if markedBytes \<ge> cp_storedBytes raw then Inr raw
           else Inr \<lparr>cp_payload = Binary ((if isBinary p then MARKER_ZSTD_BINARY else MARKER_ZSTD_UTF8) # c),
                     cp_outcome = compressed, cp_originalBytes = originalBytes, cp_storedBytes = markedBytes\<rparr>))"

definition decompressPayload :: "(nat \<Rightarrow> bytes \<Rightarrow> zstd_result) \<Rightarrow> nat \<Rightarrow> payload \<Rightarrow> payload \<times> read_outcome" where
  "decompressPayload zd maxDecompressedBytes p =
     (case p of Text s \<Rightarrow> (p, passthrough)
      | Binary [] \<Rightarrow> (p, passthrough)
      | Binary (marker # rest) \<Rightarrow>
          if marker = MARKER_ESCAPED_RAW then
            (case rest of [] \<Rightarrow> (p, passthrough)
             | next # _ \<Rightarrow> if next \<le> MARKER_ZSTD_BINARY then (Binary rest, passthrough) else (p, passthrough))
          else if marker \<noteq> MARKER_ZSTD_UTF8 \<and> marker \<noteq> MARKER_ZSTD_BINARY then (p, passthrough)
          else (case zd maxDecompressedBytes rest of
                  ZTooLarge \<Rightarrow> (p, read_over_limit)
                | ZInvalid \<Rightarrow> (p, fallback_raw)
                | ZOk d \<Rightarrow> (if marker = MARKER_ZSTD_UTF8 then Text (utf8_toString d) else Binary d, decompressed)))"

text \<open>
  The documented behaviour of \<^verbatim>\<open>zstdCompressSync\<close> and \<^verbatim>\<open>zstdDecompressSync\<close>: decompressing a compressed
  buffer whose content fits the output limit returns that content.
\<close>

definition zstd_contract :: "(int \<Rightarrow> bytes \<Rightarrow> bytes res) \<Rightarrow> (nat \<Rightarrow> bytes \<Rightarrow> zstd_result) \<Rightarrow> bool" where
  "zstd_contract zc zd \<longleftrightarrow> (\<forall>l b c m. zc l b = Inr c \<longrightarrow> length b \<le> m \<longrightarrow> zd m c = ZOk b)"

subsection \<open>The envelope is lossless\<close>

text \<open>A stage whose output decodes to what was put in, up to what the stage itself normalizes.\<close>

locale lossless_stage =
  fixes encode :: "'a \<Rightarrow> 'b" and decode :: "'b \<Rightarrow> 'c" and content :: "'a \<Rightarrow> 'c"
  assumes decode_encode: "decode (encode x) = content x"
begin

lemma encode_collision: "encode x = encode y \<Longrightarrow> content x = content y"
  by (metis decode_encode)

end

lemma decompress_escape: "decompressPayload zd m (escapeRawPayload p) = (p, passthrough)"
  by (cases p) (auto simp: decompressPayload_def escapeRawPayload_def marker_defs split: list.splits)

interpretation envelope: lossless_stage escapeRawPayload "decompressPayload zd m" "\<lambda>p. (p, passthrough)" for zd m
  by unfold_locales (rule decompress_escape)

lemma rawResult_payload [simp]: "cp_payload (rawResult p out n) = escapeRawPayload p"
  by (simp add: rawResult_def Let_def)

lemma rawResult_outcome [simp]: "cp_outcome (rawResult p out n) = out"
  by (simp add: rawResult_def Let_def)

lemma compressPayload_cases:
  assumes "compressPayload zc m p cfg = Inr r"
  obtains (raw) out where "r = rawResult p out (length (payload_bytes p))" "out \<noteq> compressed"
  | (zstd) c where "zc (level cfg) (payload_bytes p) = Inr c" "length (payload_bytes p) \<le> m"
      "cp_payload r = Binary ((if isBinary p then MARKER_ZSTD_BINARY else MARKER_ZSTD_UTF8) # c)"
      "cp_outcome r = compressed" "cp_storedBytes r = 1 + length c"
      "cp_storedBytes r < cp_storedBytes (rawResult p not_smaller (length (payload_bytes p)))"
  using assms
  by (auto simp: compressPayload_def Let_def res_simps split: if_splits dest: arg_cong [where f = cp_outcome])

lemma stored_value_survives:
  assumes "zstd_contract zc zd" "compressPayload zc m p cfg = Inr r"
    and "encodeRedisFrame (cp_payload r) t = Inr f" "decodeRedisReadResult (BulkReply f) = Inr (DecodedFrame q c)"
  shows "fst (decompressPayload zd m q) = stored p"
proof -
  from assms(3,4) have q: "q = stored (cp_payload r)"
    by (auto simp: encodeRedisFrame_Inr decodeRedisReadResult_def validateRedisBulkStringReply_def frame_of_decoded)
  from assms(2) show ?thesis
  proof (cases rule: compressPayload_cases)
    case (raw out)
    show ?thesis
    proof (cases p)
      case (Text s)
      then show ?thesis by (simp add: q raw escapeRawPayload_def stored_def decompressPayload_def)
    next
      case (Binary b)
      then have "stored (escapeRawPayload p) = escapeRawPayload p"
        by (auto simp: escapeRawPayload_def stored_def split: list.splits)
      then show ?thesis using Binary by (simp add: q raw decompress_escape) (simp add: stored_def)
    qed
  next
    case (zstd c)
    then have "zd m c = ZOk (payload_bytes p)" using assms(1) by (simp add: zstd_contract_def)
    with zstd(3) show ?thesis
      by (cases p) (auto simp: q decompressPayload_def marker_defs stored_def payload_bytes_def isBinary_def)
  qed
qed


text \<open>A concrete compressor for the instances below: it shortens one eight-byte block.\<close>

definition toy_zc :: "int \<Rightarrow> bytes \<Rightarrow> bytes res" where
  "toy_zc l b = Inr (if b = replicate 8 7 then [1] else 2 # b)"

definition toy_zd :: "nat \<Rightarrow> bytes \<Rightarrow> zstd_result" where
  "toy_zd m c = (case c of [] \<Rightarrow> ZInvalid
     | x # b \<Rightarrow> if x = 1 then (if 8 \<le> m then ZOk (replicate 8 7) else ZTooLarge)
                else if length b \<le> m then ZOk b else ZTooLarge)"

lemma toy_contract: "zstd_contract toy_zc toy_zd"
  by (auto simp: zstd_contract_def toy_zc_def toy_zd_def)


text \<open>
  The size a write reports is the size it stores, a payload is stored compressed only when that is strictly
  smaller than storing it raw, and storing raw costs at most the one escape byte.
\<close>

theorem stored_size_exact:
  assumes "compressPayload zc m p cfg = Inr r"
  shows "cp_storedBytes r = length (payload_bytes (cp_payload r)) \<and>
    cp_originalBytes r = length (payload_bytes p) \<and> cp_storedBytes r \<le> length (payload_bytes p) + 1 \<and>
    (cp_outcome r = compressed \<longrightarrow> cp_storedBytes r < length (payload_bytes (escapeRawPayload p)))"
proof -
  have esc: "length (payload_bytes (escapeRawPayload p)) \<le> length (payload_bytes p) + 1"
    by (cases p) (auto simp: escapeRawPayload_def payload_bytes_def split: list.splits)
  have rawsize: "cp_storedBytes (rawResult p out (length (payload_bytes p))) =
      length (payload_bytes (escapeRawPayload p))" for out
    by (cases p) (auto simp: rawResult_def escapeRawPayload_def payload_bytes_def split: list.splits)
  have orig: "cp_originalBytes r = length (payload_bytes p)"
    using assms by (auto simp: compressPayload_def Let_def res_simps rawResult_def split: if_splits)
  from assms show ?thesis
  proof (cases rule: compressPayload_cases)
    case (raw out)
    with esc rawsize orig show ?thesis by simp
  next
    case (zstd c)
    with esc rawsize orig show ?thesis by (simp add: payload_bytes_def)
  qed
qed

theorem stored_size_exact_witness:
  "\<exists>r. compressPayload toy_zc 100 (Binary [1, 2, 3]) \<lparr>thresholdBytes = 4096, level = 3\<rparr> = Inr r \<and>
    cp_storedBytes r = 4 \<and> length (payload_bytes (cp_payload r)) = 4"
proof -
  let ?r = "\<lparr>cp_payload = Binary [0, 1, 2, 3], cp_outcome = below_threshold, cp_originalBytes = 3, cp_storedBytes = 4\<rparr>"
  have "compressPayload toy_zc 100 (Binary [1, 2, 3]) \<lparr>thresholdBytes = 4096, level = 3\<rparr> = Inr ?r"
    by (simp add: compressPayload_def payload_bytes_def rawResult_def escapeRawPayload_def marker_defs)
  with stored_size_exact [OF this] show ?thesis by auto
qed

end
