(* ===== verification/Metrics.thy ===== *)
theory Metrics
  imports RuntimeConfig Compression
begin

section \<open>Metric events\<close>

text \<open>
  \<^verbatim>\<open>metrics.ts\<close>: the bounded label values and the events DialCache hands to a metrics adapter. One
  constructor of \<open>metric_event\<close> per adapter method.
\<close>

datatype metric_layer = LayerLocal | LayerRemote | LayerRequestLocal | LayerRemoteShadow | LayerNone

datatype coalescing_scope = scope_request_local | scope_process

datatype shadow_outcome =
  sv_match | sv_mismatch | sv_superseded | sv_filled | sv_fill_fenced | sv_fill_error | sv_redis_error
| sv_source_error | sv_deserialization_error | sv_comparison_error | sv_confirmation_error | sv_timeout | sv_dropped

datatype mismatch_logging_outcome = ml_logged | ml_hook_error | ml_render_error | ml_logger_error

datatype stale_outcome = stale_served | stale_miss | stale_deserialization_error

datatype compression_outcome = WriteOutcome write_outcome | ReadOutcome read_outcome

datatype error_kind =
  key_construction | config_resolution | cache_read | cache_read_timeout | cache_write | tracked_ttl_clamped
| serialization_load | serialization_dump | compression_failure | invalidation_failure | fallback_failure | unknown_failure

record CacheMetricLabels =
  lb_namespace :: jsstring
  lb_useCase :: jsstring
  lb_keyType :: jsstring
  lb_layer :: metric_layer

record KeyMetricLabels =
  kl_namespace :: jsstring
  kl_useCase :: jsstring
  kl_keyType :: jsstring

datatype metric_event =
    m_request CacheMetricLabels
  | m_miss CacheMetricLabels miss_reason
  | m_disabled CacheMetricLabels disabled_reason
  | m_error CacheMetricLabels error_kind bool
  | m_invalidation jsstring jsstring metric_layer
  | m_coalesced KeyMetricLabels coalescing_scope
  | m_shadowValidation KeyMetricLabels shadow_outcome
  | m_observeShadowValueAge KeyMetricLabels shadow_outcome rat
  | m_shadowMismatchLogging KeyMetricLabels mismatch_logging_outcome
  | m_observeFutureTimestampOffset CacheMetricLabels rat
  | m_staleRecovery KeyMetricLabels stale_outcome
  | m_observeStaleRecoveryValueAge KeyMetricLabels stale_outcome rat
  | m_compression CacheMetricLabels compression_outcome
  | m_observeGet CacheMetricLabels rat
  | m_observeFallback CacheMetricLabels rat
  | m_observeSerialization CacheMetricLabels string rat
  | m_observeSize CacheMetricLabels nat
  | m_observeStoredSize CacheMetricLabels nat
  | m_observeCompressionRatio CacheMetricLabels rat
  | m_observeCompression CacheMetricLabels string rat

definition labelsFor :: "DialCacheKey \<Rightarrow> metric_layer \<Rightarrow> CacheMetricLabels" where
  "labelsFor key layer =
     \<lparr>lb_namespace = namespace key, lb_useCase = useCase key, lb_keyType = keyType key, lb_layer = layer\<rparr>"

definition keyLabels :: "DialCacheKey \<Rightarrow> KeyMetricLabels" where
  "keyLabels key = \<lparr>kl_namespace = namespace key, kl_useCase = useCase key, kl_keyType = keyType key\<rparr>"

text \<open>The reasons a custom Redis adapter may name.\<close>

definition miss_reason_of_val :: "jsval \<Rightarrow> miss_reason option" where
  "miss_reason_of_val v =
     (if v = JStr (js ''value_absent'') then Some value_absent
      else if v = JStr (js ''expired'') then Some expired
      else if v = JStr (js ''watermark_fenced'') then Some watermark_fenced
      else if v = JStr (js ''unclassified'') then Some unclassified
      else None)"

definition isCacheMissReason :: "jsval \<Rightarrow> bool" where
  "isCacheMissReason v \<longleftrightarrow> miss_reason_of_val v \<noteq> None"

end
