(* ===== verification/InvalidateScript.thy ===== *)
theory InvalidateScript
  imports Keys RedisPayload
begin

section \<open>The invalidation script\<close>

text \<open>
  \<^verbatim>\<open>internal/redis-scripts.ts\<close>: the Lua script that advances a watermark, run atomically by Redis on
  one key. The state is that key: absent, a string with its remaining TTL (\<open>None\<close> is persistent), or a
  key of another type. \<open>other_error\<close> is a Redis error on \<^verbatim>\<open>GET\<close> that is not \<^verbatim>\<open>WRONGTYPE\<close>. Lua numbers
  are doubles; the sums that can leave the safe range round as doubles do.
\<close>

datatype redis_key = Absent | StringKey bytes "nat option" | WrongTypeKey "nat option"

datatype script_reply = ScriptOk | ScriptError string | ScriptRedisError

definition WATERMARK_TTL_MARGIN_MS :: nat where
  "WATERMARK_TTL_MARGIN_MS = 60000"

definition MIN_WATERMARK_TTL_MS :: nat where
  "MIN_WATERMARK_TTL_MS = 2 * nat MAX_TRACKED_REDIS_VALUE_TTL_MS"

definition is_digit_byte :: "byte \<Rightarrow> bool" where
  "is_digit_byte b \<longleftrightarrow> 48 \<le> unat b \<and> unat b \<le> 57"

definition parse_safe_integer :: "bytes \<Rightarrow> nat option" where
  "parse_safe_integer raw =
     (if \<not> (raw \<noteq> [] \<and> list_all is_digit_byte raw) then None
      else let n = foldl (\<lambda>n b. n * 10 + (unat b - 48)) 0 raw in
           if num_lt (num_of_int MAX_SAFE_INTEGER) (number_of_nat n) then None else Some n)"

text \<open>\<^verbatim>\<open>string.format("%.0f", n)\<close> and JavaScript's \<^verbatim>\<open>String(n)\<close>, as bytes on the wire.\<close>

definition dec_bytes :: "nat \<Rightarrow> bytes" where
  "dec_bytes n = map (\<lambda>u. byte_of (unat u)) (nat_digits n)"

definition buildRedisInvalidationScriptArguments :: "nat \<Rightarrow> nat \<Rightarrow> bytes \<times> bytes" where
  "buildRedisInvalidationScriptArguments futureBufferMs invalidatedAtMs =
     (dec_bytes futureBufferMs, dec_bytes invalidatedAtMs)"

definition key_ttl :: "redis_key \<Rightarrow> nat option" where
  "key_ttl k = (case k of Absent \<Rightarrow> None | StringKey _ t \<Rightarrow> t | WrongTypeKey t \<Rightarrow> t)"

definition INVALIDATE_CACHE_SCRIPT ::
  "bool \<Rightarrow> bytes \<Rightarrow> bytes \<Rightarrow> redis_key \<Rightarrow> script_reply \<times> redis_key" where
  "INVALIDATE_CACHE_SCRIPT other_error argv1 argv2 key =
     (case parse_safe_integer argv1 of
        None \<Rightarrow> (ScriptError ''ERR invalid DialCache future buffer'', key)
      | Some future_buffer_ms \<Rightarrow>
          if int future_buffer_ms > MAX_SUPPORTED_DURATION_MS
            then (ScriptError ''ERR invalid DialCache future buffer'', key)
          else (case parse_safe_integer argv2 of
            None \<Rightarrow> (ScriptError ''ERR invalid DialCache invalidatedAtMs'', key)
          | Some invalidated_at_ms \<Rightarrow>
              if int invalidated_at_ms > MAX_SAFE_INTEGER - int future_buffer_ms
                then (ScriptError ''ERR invalid DialCache invalidatedAtMs'', key)
              else
                let proposed_watermark = invalidated_at_ms + future_buffer_ms in
                if other_error then (ScriptRedisError, key)
                else
                  let raw_watermark = (case key of StringKey raw _ \<Rightarrow> Some raw | _ \<Rightarrow> None);
                      current_watermark =
                        (case raw_watermark of None \<Rightarrow> 0
                         | Some raw \<Rightarrow> (case parse_safe_integer raw of None \<Rightarrow> 0 | Some w \<Rightarrow> w));
                      watermark = max current_watermark proposed_watermark;
                      current_ttl_ms =
                        (if raw_watermark = None then -2
                         else case key_ttl key of None \<Rightarrow> -1 | Some t \<Rightarrow> int t);
                      derived_ttl_ms =
                        max MIN_WATERMARK_TTL_MS
                          (round53 (round53 (watermark - invalidated_at_ms + nat MAX_TRACKED_REDIS_VALUE_TTL_MS)
                             + WATERMARK_TTL_MARGIN_MS));
                      desired_ttl_ms = (if current_ttl_ms > int derived_ttl_ms then nat current_ttl_ms else derived_ttl_ms)
                  in (ScriptOk,
                      StringKey (dec_bytes watermark) (if current_ttl_ms = -1 then None else Some desired_ttl_ms))))"

text \<open>The watermark a key carries; absent, wrong-typed and malformed ones count as zero.\<close>

definition watermark_of :: "redis_key \<Rightarrow> nat" where
  "watermark_of key =
     (case key of StringKey raw _ \<Rightarrow> (case parse_safe_integer raw of None \<Rightarrow> 0 | Some w \<Rightarrow> w) | _ \<Rightarrow> 0)"

subsection \<open>Decimal round trips\<close>

lemma is_digit_unit: "k < 10 \<Longrightarrow> is_digit (unit_of (48 + k))"
  by (simp add: is_digit_def unat_unit_of)

lemma nat_digits_value: "digits_value (nat_digits n) = n" "list_all is_digit (nat_digits n)" "nat_digits n \<noteq> []"
proof (induction n rule: nat_digits.induct)
  case (1 n)
  {
    case 1
    show ?case
      using "1.IH" by (subst nat_digits.simps) (auto simp: digits_value_def unat_unit_of)
  next
    case 2
    show ?case
      using "1.IH" by (subst nat_digits.simps) (auto simp: is_digit_unit)
  next
    case 3
    show ?case by (subst nat_digits.simps) auto
  }
qed

lemma digit_bytes_value:
  assumes "list_all is_digit s"
  shows "list_all is_digit_byte (map (\<lambda>u. byte_of (unat u)) s)"
    "foldl (\<lambda>n b. n * 10 + (unat (b :: byte) - 48)) a (map (\<lambda>u. byte_of (unat u)) s) =
     foldl (\<lambda>n u. n * 10 + (unat u - 48)) a s"
  using assms
  by (induction s arbitrary: a) (auto simp: is_digit_def is_digit_byte_def unat_byte_of)

lemma num_lt_MAX_iff:
  "num_lt (num_of_int MAX_SAFE_INTEGER) (number_of_nat n) \<longleftrightarrow> \<not> int n \<le> MAX_SAFE_INTEGER"
proof (cases "int n \<le> MAX_SAFE_INTEGER")
  case True
  then show ?thesis by (simp add: number_of_nat_small)
next
  case False
  with number_of_nat_safe [of n] have unsafe: "\<not> num_isSafeInteger (number_of_nat n)" by simp
  then show ?thesis using False
    by (auto simp: number_of_nat_def rat_is_int_def not_le split: if_splits)
qed

lemma parse_safe_integer_Some:
  "parse_safe_integer raw = Some n \<longleftrightarrow>
     raw \<noteq> [] \<and> list_all is_digit_byte raw \<and> n = foldl (\<lambda>n b. n * 10 + (unat b - 48)) 0 raw \<and>
     int n \<le> MAX_SAFE_INTEGER"
  by (auto simp: parse_safe_integer_def Let_def num_lt_MAX_iff)

lemma parse_dec_bytes: "int n \<le> MAX_SAFE_INTEGER \<Longrightarrow> parse_safe_integer (dec_bytes n) = Some n"
  using nat_digits_value [of n] digit_bytes_value [of "nat_digits n"]
  by (simp add: parse_safe_integer_Some dec_bytes_def digits_value_def)

lemma unat_ucast_byte: "unat (ucast (b :: byte) :: 16 word) = unat b"
  using unat_lt_8 [of b] by (simp add: unsigned_ucast_eq take_bit_nat_eq_self)

lemma watermark_parsers_raw:
  "parseRedisWatermark raw = map_option (\<lambda>n. num_of_int (int n)) (parse_safe_integer raw)"
proof (cases "list_all is_digit_byte raw")
  case True
  then have ascii: "list_all (\<lambda>b. unat b < 0x80) raw" by (auto simp: list_all_iff is_digit_byte_def)
  have digits: "list_all is_digit (map ucast raw)"
    "foldl (\<lambda>n u. n * 10 + (unat u - 48)) a (map ucast raw :: jsstring) =
     foldl (\<lambda>n b. n * 10 + (unat b - 48)) a raw" for a
    using True by (induction raw arbitrary: a)
      (auto simp: is_digit_def is_digit_byte_def unat_ucast_byte)
  have le: "num_le x y \<longleftrightarrow> \<not> num_lt y x" if "x = number_of_nat n" "y = Fin q" for x y n q
    using that by (auto simp: number_of_nat_def)
  show ?thesis
    unfolding parseRedisWatermark_def parse_safe_integer_def utf8_toString_ascii [OF ascii]
      digits_value_def digits(2) Let_def
    using True digits(1) by (auto simp: le num_lt_MAX_iff number_of_nat_small)
next
  case False
  have "\<not> list_all is_digit (utf8_toString raw)"
  proof
    assume d: "list_all is_digit (utf8_toString raw)"
    then have "list_all (\<lambda>u. unat u < 0x80) (utf8_toString raw)" by (auto simp: list_all_iff is_digit_def)
    then have ascii: "list_all (\<lambda>b. unat b < 0x80) raw" by (rule utf8_toString_ascii_only)
    with d have "list_all is_digit (map ucast raw)" by (simp add: utf8_toString_ascii)
    with ascii have "list_all is_digit_byte raw"
      by (auto simp: list_all_iff is_digit_def is_digit_byte_def unat_ucast_byte)
    with False show False by blast
  qed
  with False show ?thesis by (auto simp: parseRedisWatermark_def parse_safe_integer_def)
qed

text \<open>
  C23. The TypeScript reader and the Lua script agree on what a watermark is: for every byte string,
  \<^verbatim>\<open>parseRedisWatermark\<close> and \<^verbatim>\<open>parse_safe_integer\<close> accept the same strings and read the same number.
\<close>

theorem watermark_parsers_agree:
  "parseRedisWatermark raw = map_option (\<lambda>n. num_of_int (int n)) (parse_safe_integer raw)"
  by (rule watermark_parsers_raw)

lemma watermark_of_StringKey: "watermark_of (StringKey raw t) = (case parse_safe_integer raw of None \<Rightarrow> 0 | Some w \<Rightarrow> w)"
  by (simp add: watermark_of_def)

lemma watermark_of_safe: "int (watermark_of key) \<le> MAX_SAFE_INTEGER"
  by (auto simp: watermark_of_def parse_safe_integer_Some MAX_SAFE_INTEGER_def split: redis_key.splits option.splits)

subsection \<open>What one run does\<close>

definition valid_invalidation :: "nat \<Rightarrow> nat \<Rightarrow> bool" where
  "valid_invalidation futureBufferMs invalidatedAtMs \<longleftrightarrow>
     int futureBufferMs \<le> MAX_SUPPORTED_DURATION_MS \<and> int invalidatedAtMs + int futureBufferMs \<le> MAX_SAFE_INTEGER"

lemma parse_dec_bytes_None: "\<not> int n \<le> MAX_SAFE_INTEGER \<Longrightarrow> parse_safe_integer (dec_bytes n) = None"
  using nat_digits_value [of n] digit_bytes_value [of "nat_digits n"]
  by (simp add: parse_safe_integer_def dec_bytes_def digits_value_def num_lt_MAX_iff)

definition derived_ttl :: "nat \<Rightarrow> nat" where
  "derived_ttl d = max MIN_WATERMARK_TTL_MS
     (round53 (round53 (d + nat MAX_TRACKED_REDIS_VALUE_TTL_MS) + WATERMARK_TTL_MARGIN_MS))"

lemma derived_ttl_ge: "7200000 \<le> derived_ttl d" "d + 3660000 \<le> 2 ^ 53 \<Longrightarrow> d + 3660000 \<le> derived_ttl d"
  by (simp_all add: derived_ttl_def MIN_WATERMARK_TTL_MS_def WATERMARK_TTL_MARGIN_MS_def duration_consts round53_exact)

definition script_ttl :: "redis_key \<Rightarrow> nat \<Rightarrow> nat \<Rightarrow> nat option" where
  "script_ttl key watermark invalidatedAtMs =
     (let derived = derived_ttl (watermark - invalidatedAtMs)
      in case key of StringKey _ None \<Rightarrow> None
         | StringKey _ (Some t) \<Rightarrow> Some (max t derived)
         | _ \<Rightarrow> Some derived)"

lemma script_valid:
  assumes "valid_invalidation b i"
  shows "INVALIDATE_CACHE_SCRIPT False (dec_bytes b) (dec_bytes i) key =
    (ScriptOk, StringKey (dec_bytes (max (watermark_of key) (i + b)))
       (script_ttl key (max (watermark_of key) (i + b)) i))"
proof -
  from assms have safe: "int b \<le> MAX_SAFE_INTEGER" "int i \<le> MAX_SAFE_INTEGER"
    by (simp_all add: valid_invalidation_def)
  show ?thesis
    using assms
    by (cases key)
       (auto simp: INVALIDATE_CACHE_SCRIPT_def parse_dec_bytes safe valid_invalidation_def Let_def watermark_of_def
         key_ttl_def script_ttl_def derived_ttl_def max_def split: option.splits)
qed

lemma script_invalid:
  assumes "\<not> valid_invalidation b i"
  shows "snd (INVALIDATE_CACHE_SCRIPT e (dec_bytes b) (dec_bytes i) key) = key"
  using assms parse_dec_bytes [of b] parse_dec_bytes_None [of b] parse_dec_bytes [of i] parse_dec_bytes_None [of i]
  by (cases "int b \<le> MAX_SAFE_INTEGER"; cases "int i \<le> MAX_SAFE_INTEGER")
     (auto simp: INVALIDATE_CACHE_SCRIPT_def valid_invalidation_def)

text \<open>
  A run of the script that does not return 1 leaves the watermark key exactly as it was: rejected
  arguments and Redis errors never clear or lower a fence.
\<close>

theorem script_failure_preserves:
  "INVALIDATE_CACHE_SCRIPT e argv1 argv2 key = (r, key') \<Longrightarrow> r \<noteq> ScriptOk \<Longrightarrow> key' = key"
  by (auto simp: INVALIDATE_CACHE_SCRIPT_def Let_def split: option.splits if_splits)

theorem script_failure_preserves_witness:
  "INVALIDATE_CACHE_SCRIPT True (dec_bytes 0) (dec_bytes 7) (StringKey [0x39] None) = (ScriptRedisError, StringKey [0x39] None)"
proof -
  have p: "parse_safe_integer (dec_bytes 0) = Some 0" "parse_safe_integer (dec_bytes 7) = Some 7"
    by (simp_all add: parse_dec_bytes MAX_SAFE_INTEGER_def)
  then have "fst (INVALIDATE_CACHE_SCRIPT True (dec_bytes 0) (dec_bytes 7) (StringKey [0x39] None)) = ScriptRedisError"
    by (simp add: INVALIDATE_CACHE_SCRIPT_def duration_consts Let_def)
  then show ?thesis
    using script_failure_preserves [of True "dec_bytes 0" "dec_bytes 7" "StringKey [0x39] None" ScriptRedisError]
    by (cases "INVALIDATE_CACHE_SCRIPT True (dec_bytes 0) (dec_bytes 7) (StringKey [0x39] None)") auto
qed

text \<open>
  C24. A marker outlives the values it fences: after a successful invalidation the key is persistent if it
  was, and otherwise lives at least two hours, at least as long as before, and (inside the safe integer
  range) at least one hour and one minute past the moment the new watermark is reached.
\<close>

theorem script_ttl_outlives:
  assumes "valid_invalidation b i"
    and "INVALIDATE_CACHE_SCRIPT False (dec_bytes b) (dec_bytes i) key = (ScriptOk, StringKey raw (Some t))"
  shows "2 * 3600000 \<le> t \<and> (\<forall>r t0. key = StringKey r (Some t0) \<longrightarrow> t0 \<le> t) \<and> (\<forall>r. key \<noteq> StringKey r None) \<and>
    (max (watermark_of key) (i + b) - i + 3660000 \<le> 2 ^ 53 \<longrightarrow> max (watermark_of key) (i + b) - i + 3660000 \<le> t)"
proof -
  have "Some t = script_ttl key (max (watermark_of key) (i + b)) i"
    using assms script_valid [OF assms(1), of key] by simp
  then show ?thesis
    using derived_ttl_ge [of "max (watermark_of key) (i + b) - i"]
    by (cases key) (auto simp: script_ttl_def Let_def le_max_iff_disj split: option.splits)
qed

theorem script_ttl_outlives_witness:
  "\<exists>raw. INVALIDATE_CACHE_SCRIPT False (dec_bytes 5000) (dec_bytes 1700000000000) Absent =
     (ScriptOk, StringKey raw (Some 7200000)) \<and> (2::nat) * 3600000 \<le> 7200000"
proof -
  have v: "valid_invalidation 5000 1700000000000" by (simp add: valid_invalidation_def duration_consts)
  have "script_ttl Absent (max (watermark_of Absent) (1700000000000 + 5000)) 1700000000000 = Some 7200000"
    by (simp add: script_ttl_def derived_ttl_def watermark_of_def round53_exact MIN_WATERMARK_TTL_MS_def WATERMARK_TTL_MARGIN_MS_def
        duration_consts)
  then obtain raw where "INVALIDATE_CACHE_SCRIPT False (dec_bytes 5000) (dec_bytes 1700000000000) Absent =
     (ScriptOk, StringKey raw (Some 7200000))"
    using script_valid [OF v, of Absent] by simp
  with script_ttl_outlives [OF v this] show ?thesis by blast
qed

subsection \<open>Sequences of invalidations\<close>

text \<open>
  What a watermark register promises: an advance raises the level to the maximum of what it was and the
  advance's target. Everything else about sequences of advances follows.
\<close>

locale watermark_register =
  fixes advance :: "'a \<Rightarrow> 's \<Rightarrow> 's"
    and level :: "'s \<Rightarrow> nat"
    and target :: "'a \<Rightarrow> nat"
  assumes level_advance: "level (advance a s) = max (level s) (target a)"
begin

lemma level_fold: "level (fold advance as s) = Max (insert (level s) (target ` set as))"
proof (induction as arbitrary: s)
  case (Cons a as)
  have "level (fold advance (a # as) s) = Max (insert (max (level s) (target a)) (target ` set as))"
    by (simp add: Cons.IH level_advance)
  also have "\<dots> = Max (insert (level s) (insert (target a) (target ` set as)))"
    by (cases "target ` set as = {}") (auto simp: max.assoc)
  finally show ?case by simp
qed simp

lemma level_fold_mono: "level s \<le> level (fold advance as s)"
  by (simp add: level_fold)

lemma level_fold_target: "a \<in> set as \<Longrightarrow> target a \<le> level (fold advance as s)"
  by (simp add: level_fold)

lemma level_fold_set: "set as = set bs \<Longrightarrow> level (fold advance as s) = level (fold advance bs s)"
  by (simp add: level_fold)

lemma level_replay: "level (advance a (advance a s)) = level (advance a s)"
  by (simp add: level_advance)

end

text \<open>One dispatch as an adapter sends it: \<^verbatim>\<open>[futureBufferMs, invalidatedAtMs]\<close>.\<close>

definition dispatch_invalidation :: "nat \<times> nat \<Rightarrow> redis_key \<Rightarrow> redis_key" where
  "dispatch_invalidation a key =
     (case buildRedisInvalidationScriptArguments (fst a) (snd a) of
        (argv1, argv2) \<Rightarrow> snd (INVALIDATE_CACHE_SCRIPT False argv1 argv2 key))"

definition invalidation_target :: "nat \<times> nat \<Rightarrow> nat" where
  "invalidation_target a = (if valid_invalidation (fst a) (snd a) then snd a + fst a else 0)"

lemma valid_target_safe:
  "valid_invalidation b i \<Longrightarrow> int (max (watermark_of key) (i + b)) \<le> MAX_SAFE_INTEGER"
  using watermark_of_safe [of key] by (simp add: valid_invalidation_def max_def)

lemma dispatch_level: "watermark_of (dispatch_invalidation a key) = max (watermark_of key) (invalidation_target a)"
proof (cases "valid_invalidation (fst a) (snd a)")
  case True
  then show ?thesis
    using parse_dec_bytes [OF valid_target_safe [OF True, of key]]
    by (simp add: dispatch_invalidation_def buildRedisInvalidationScriptArguments_def script_valid
        watermark_of_StringKey invalidation_target_def)
next
  case False
  then show ?thesis
    by (simp add: dispatch_invalidation_def buildRedisInvalidationScriptArguments_def script_invalid
        invalidation_target_def)
qed

interpretation redis_watermark: watermark_register dispatch_invalidation watermark_of invalidation_target
  by unfold_locales (rule dispatch_level)

text \<open>
  C22. Invalidations are monotone and order-independent: after any sequence of dispatches the watermark is
  the maximum of the initial one and of every valid target, so concurrent invalidators, retries and
  replays in any order reach the same fence.
\<close>

theorem invalidations_converge:
  assumes "set as = set bs"
  shows "watermark_of (fold dispatch_invalidation as key) = watermark_of (fold dispatch_invalidation bs key) \<and>
    watermark_of key \<le> watermark_of (fold dispatch_invalidation as key) \<and>
    (\<forall>a \<in> set as. invalidation_target a \<le> watermark_of (fold dispatch_invalidation as key))"
  using redis_watermark.level_fold_set [OF assms] redis_watermark.level_fold_mono
    redis_watermark.level_fold_target by blast

theorem invalidations_converge_witness:
  "watermark_of (fold dispatch_invalidation [(0, 9), (5, 7), (0, 9)] Absent) =
   watermark_of (fold dispatch_invalidation [(5, 7), (0, 9)] Absent)"
  using invalidations_converge [of "[(0, 9), (5, 7), (0, 9)]" "[(5, 7), (0, 9)]" Absent] by auto

subsection \<open>Invalidation fences earlier values\<close>

text \<open>What \<^verbatim>\<open>MGET\<close> returns for the watermark key.\<close>

definition watermark_reply :: "redis_key \<Rightarrow> reply" where
  "watermark_reply key = (case key of StringKey raw _ \<Rightarrow> BulkReply raw | _ \<Rightarrow> NullReply)"

definition is_marker :: "redis_key \<Rightarrow> bool" where
  "is_marker key = (case key of StringKey raw _ \<Rightarrow> parse_safe_integer raw \<noteq> None | _ \<Rightarrow> False)"

lemma is_marker_dispatch: "is_marker key \<or> valid_invalidation (fst a) (snd a) \<Longrightarrow> is_marker (dispatch_invalidation a key)"
  using parse_dec_bytes [OF valid_target_safe [of "fst a" "snd a" key]]
  by (cases "valid_invalidation (fst a) (snd a)")
     (auto simp: dispatch_invalidation_def buildRedisInvalidationScriptArguments_def script_valid script_invalid is_marker_def)

lemma is_marker_fold:
  "is_marker key \<or> (\<exists>a \<in> set as. valid_invalidation (fst a) (snd a)) \<Longrightarrow> is_marker (fold dispatch_invalidation as key)"
proof (induction as arbitrary: key)
  case (Cons a as)
  then show ?case using is_marker_dispatch [of key a] by (cases "valid_invalidation (fst a) (snd a)") auto
qed simp

text \<open>
  C2. Invalidation takes effect on every earlier value: after any sequence of dispatches that contains a
  valid one at time \<open>i\<close> with future buffer \<open>b\<close>, a tracked read that sees the resulting marker serves only
  frames stamped strictly after \<open>i + b\<close>.
\<close>

theorem invalidation_fences_values:
  assumes "(b, i) \<in> set as" "valid_invalidation b i"
    and "decodeTrackedRedisReadResult raw (watermark_reply (fold dispatch_invalidation as key)) = Inr (DecodedFrame p c)"
  shows "\<not> num_le c (num_of_int (int (i + b)))"
proof -
  let ?k = "fold dispatch_invalidation as key"
  have "is_marker ?k" using assms(1,2) by (intro is_marker_fold) force
  then obtain raw' t w where k: "?k = StringKey raw' t" "parse_safe_integer raw' = Some w"
    by (auto simp: is_marker_def split: redis_key.splits)
  then have "watermark_of ?k = w" by (simp add: watermark_of_def)
  with redis_watermark.level_fold_target [OF assms(1), of key] assms(2) have w: "i + b \<le> w"
    by (simp add: invalidation_target_def)
  have "\<not> num_le c (num_of_int (int w))"
    using tracked_read_fenced_raw [OF assms(3)] k
    by (auto simp: watermark_reply_def watermark_parsers_raw)
  then show ?thesis using w by (cases c) auto
qed

theorem invalidation_fences_values_witness:
  "\<exists>p c. decodeTrackedRedisReadResult (BulkReply (frame_of (Binary []) 20))
      (watermark_reply (fold dispatch_invalidation [(5, 7)] Absent)) = Inr (DecodedFrame p c) \<and>
    \<not> num_le c (num_of_int 12)"
proof -
  have v: "valid_invalidation 5 7" by (simp add: valid_invalidation_def duration_consts)
  have "fold dispatch_invalidation [(5, 7)] Absent =
      StringKey (dec_bytes 12) (script_ttl Absent 12 7)"
    using v by (simp add: dispatch_invalidation_def buildRedisInvalidationScriptArguments_def script_valid watermark_of_def)
  moreover have "parseRedisWatermark (dec_bytes 12) = Some (num_of_int 12)"
    using parse_dec_bytes [of 12] by (simp add: watermark_parsers_raw MAX_SAFE_INTEGER_def)
  ultimately have r: "decodeTrackedRedisReadResult (BulkReply (frame_of (Binary []) 20))
      (watermark_reply (fold dispatch_invalidation [(5, 7)] Absent)) = Inr (DecodedFrame (Binary []) (num_of_int 20))"
    using tracked_read_of_encoded [of 20 "dec_bytes 12" "num_of_int 12" "Binary []"]
    by (simp add: watermark_reply_def stored_def MAX_SAFE_INTEGER_def)
  show ?thesis using invalidation_fences_values [OF _ v r] r by auto
qed

end
