(* ===== verification/Requests.thy ===== *)
theory Requests
  imports Effects Metrics InvalidateScript
begin

section \<open>What an invocation asks of its environment\<close>

text \<open>
  The requests of the asynchronous code (\<^verbatim>\<open>redis-cache.ts\<close>, \<^verbatim>\<open>dialcache.ts\<close>): clocks, the metrics adapter
  and the logger, the Redis client, the serializer, the process-local LRU, the request-local store, the two
  flight tables, the shadow table and the application's callbacks. \<open>well_answered\<close> says which answers each
  request can receive. Values of the cached type are the type parameter \<open>'v\<close>.
\<close>

text \<open>
  A Redis client's read result before validation: a miss-shaped object with unchecked fields, any other
  object (taken as a frame, its timestamp unchecked), or something that is not an object or cannot be read.
\<close>

record frame =
  fr_payload :: payload
  fr_createdAtMs :: jsval

datatype raw_read = RawMiss jsval jsval | RawFrame frame | RawJunk

record read_request =
  rd_valueKey :: jsstring
  rd_watermarkKey :: "jsstring option"

record write_request =
  wr_valueKey :: jsstring
  wr_cacheTtlMs :: int
  wr_value :: payload
  wr_createdAtMs :: "int option"

record key_spec =
  spec_id :: arg_value
  spec_args :: "(jsstring \<times> arg_value) list option"

text \<open>How a shadow validation starts: from the frame that was served, or from a ramped-down remote policy whose
  caller-owned source run began at the given instant.\<close>

datatype shadow_start = StartRetained frame | StartRedis resolved_remote_layer "rat option"

datatype log_level = LogWarn | LogError

datatype (plugins only: size) (dead 'v) req =
    QMetric metric_event
  | QLog log_level string
  | QPerfNow
  | QDateNow
  | QRead read_request int
  | QWrite write_request
  | QInvalidate jsstring int
  | QDump nat 'v
  | QLoad nat payload
  | QLruGet jsstring
  | QLruSet jsstring 'v int
  | QIsEnabled
  | QSelectKey
  | QProvider DialCacheKey
  | QSourceStart "int option"
  | QSourceAwait
  | QStalePredicate jserror
  | QShouldWrite
  | QRequestLocal
  | QRlRead jsstring
  | QRlSet jsstring 'v
  | QRlLookup jsstring
  | QRlAwait jsstring
  | QRlRegister jsstring
  | QRlClear jsstring
  | QProcLookup jsstring
  | QProcAwait jsstring
  | QProcRegister jsstring rat
  | QProcClear jsstring
  | QShadowTable jsstring
  | QShadowStart jsstring shadow_start rat "(bool \<times> diff_level) option"

datatype (plugins only: size) (dead 'v) ans =
    AUnit
  | AThrow jserror
  | ARat rat
  | AInt int
  | ABool bool
  | ANonBool
  | AVal 'v
  | AOpt "'v option"
  | ARead raw_read
  | APayload payload
  | AProvided jsval
  | ASpec key_spec
  | ATable bool nat

text \<open>\<^verbatim>\<open>Date.now()\<close> is an integral time value; ECMAScript bounds it by \<open>8.64e15\<close> milliseconds.\<close>

definition MAX_TIME_VALUE :: int where
  "MAX_TIME_VALUE = 8640000000000000"

fun well_answered :: "'v req \<Rightarrow> 'v ans \<Rightarrow> bool" where
  "well_answered QPerfNow a = (\<exists>t. a = ARat t)"
| "well_answered QDateNow a = (\<exists>t. a = AInt t \<and> \<bar>t\<bar> \<le> MAX_TIME_VALUE)"
| "well_answered (QRead _ _) a = ((\<exists>r. a = ARead r) \<or> (\<exists>e. a = AThrow e))"
| "well_answered (QWrite _) a = (a = AUnit \<or> (\<exists>e. a = AThrow e))"
| "well_answered (QInvalidate _ _) a = (a = AUnit \<or> (\<exists>e. a = AThrow e))"
| "well_answered (QDump _ _) a = ((\<exists>p. a = APayload p) \<or> (\<exists>e. a = AThrow e))"
| "well_answered (QLoad _ _) a = ((\<exists>v. a = AVal v) \<or> (\<exists>e. a = AThrow e))"
| "well_answered (QLruGet _) a = ((\<exists>v. a = AOpt v) \<or> (\<exists>e. a = AThrow e))"
| "well_answered (QLruSet _ _ _) a = (a = AUnit \<or> (\<exists>e. a = AThrow e))"
| "well_answered QIsEnabled a = (\<exists>b. a = ABool b)"
| "well_answered QSelectKey a = ((\<exists>s. a = ASpec s) \<or> (\<exists>e. a = AThrow e))"
| "well_answered (QProvider _) a = ((\<exists>c. a = AProvided c) \<or> (\<exists>e. a = AThrow e))"
| "well_answered (QSourceStart _) a = (a = AUnit)"
| "well_answered QSourceAwait a = ((\<exists>v. a = AVal v) \<or> (\<exists>e. a = AThrow e))"
| "well_answered (QStalePredicate _) a = ((\<exists>b. a = ABool b) \<or> a = ANonBool \<or> (\<exists>e. a = AThrow e))"
| "well_answered QShouldWrite a = (\<exists>b. a = ABool b)"
| "well_answered QRequestLocal a = (\<exists>b. a = ABool b)"
| "well_answered (QRlRead _) a = (\<exists>v. a = AOpt v)"
| "well_answered (QRlLookup _) a = (\<exists>b. a = ABool b)"
| "well_answered (QRlAwait _) a = ((\<exists>v. a = AVal v) \<or> (\<exists>e. a = AThrow e))"
| "well_answered (QProcLookup _) a = (\<exists>b. a = ABool b)"
| "well_answered (QProcAwait _) a = ((\<exists>v. a = AVal v) \<or> (\<exists>e. a = AThrow e))"
| "well_answered (QShadowTable _) a = (\<exists>b n. a = ATable b n)"
| "well_answered _ a = (a = AUnit)"

lemma well_answered_exists: "\<exists>a. well_answered q a"
  by (cases q) (auto simp: MAX_TIME_VALUE_def intro: exI [of _ 0])

type_synonym ('v, 'r) cache_prog = "('v req, 'v ans, 'r) prog"

subsection \<open>Elementary steps\<close>

text \<open>\<open>ask\<close> raises a thrown answer. \<open>metric\<close> skips an absent adapter; a throwing adapter or logger is
  swallowed by the sources (\<^verbatim>\<open>callObserver\<close>, \<^verbatim>\<open>recordMetric\<close>), so their answers carry nothing.\<close>

definition ask :: "'v req \<Rightarrow> ('v, 'v ans) cache_prog" where
  "ask q = Req q (\<lambda>a. case a of AThrow e \<Rightarrow> Thr e | _ \<Rightarrow> Ret a)"

definition metric :: "bool \<Rightarrow> metric_event \<Rightarrow> ('v, unit) cache_prog" where
  "metric present e = (if present then Req (QMetric e) (\<lambda>_. Ret ()) else Ret ())"

definition logMsg :: "log_level \<Rightarrow> string \<Rightarrow> ('v, unit) cache_prog" where
  "logMsg lvl msg = Req (QLog lvl msg) (\<lambda>_. Ret ())"

definition perfNow :: "('v, rat) cache_prog" where
  "perfNow = Req QPerfNow (\<lambda>a. case a of ARat t \<Rightarrow> Ret t | _ \<Rightarrow> Ret 0)"

definition dateNow :: "('v, int) cache_prog" where
  "dateNow = Req QDateNow (\<lambda>a. case a of AInt t \<Rightarrow> Ret t | _ \<Rightarrow> Ret 0)"

definition elapsedSeconds :: "rat \<Rightarrow> ('v, rat) cache_prog" where
  "elapsedSeconds startMs = pbind perfNow (\<lambda>now. Ret (max ((now - startMs) / 1000) 0))"

text \<open>\<^verbatim>\<open>metrics?.observe...(labels, elapsedSeconds(start))\<close>: the clock is read only for a present adapter.\<close>

definition metric_elapsed :: "bool \<Rightarrow> rat \<Rightarrow> (rat \<Rightarrow> metric_event) \<Rightarrow> ('v, unit) cache_prog" where
  "metric_elapsed present startMs f =
     (if present then pbind (elapsedSeconds startMs) (\<lambda>s. metric True (f s)) else Ret ())"

subsection \<open>Observable behaviour\<close>

text \<open>
  Metrics, logs and the monotonic clock feed observers only. \<open>observes p Q\<close> says that every run of \<open>p\<close> whose
  requests are well answered satisfies \<open>Q\<close> on the rest of its trace. Its equations, collected in \<open>observes\<close>,
  compute the exact condition on that trace for every step and sequencing operator.
\<close>

fun observable :: "'v req \<times> 'v ans \<Rightarrow> bool" where
  "observable (QMetric _, _) = False"
| "observable (QLog _ _, _) = False"
| "observable (QPerfNow, _) = False"
| "observable _ = True"

definition observes ::
  "('v, 'r) cache_prog \<Rightarrow> (('v req, 'v ans) trace \<Rightarrow> 'r res \<Rightarrow> bool) \<Rightarrow> bool" where
  "observes p Q \<longleftrightarrow> always well_answered p (\<lambda>tr out. Q (filter observable tr) out)"

named_theorems obs \<open>weakest preconditions on the observable trace\<close>

lemma observes_basic [obs]:
  "observes (Ret x) Q \<longleftrightarrow> Q [] (Inr x)"
  "observes (Thr e) Q \<longleftrightarrow> Q [] (Inl e)"
  by (simp_all add: observes_def)

lemma observes_pbind [obs]:
  "observes (pbind p f) Q \<longleftrightarrow>
   observes p (\<lambda>tr out. case out of Inl e \<Rightarrow> Q tr (Inl e) | Inr x \<Rightarrow> observes (f x) (\<lambda>tr'. Q (tr @ tr')))"
  by (simp add: observes_def always_pbind cong: sum.case_cong)

lemma observes_pcatch [obs]:
  "observes (pcatch p h) Q \<longleftrightarrow>
   observes p (\<lambda>tr out. case out of Inr x \<Rightarrow> Q tr (Inr x) | Inl e \<Rightarrow> observes (h e) (\<lambda>tr'. Q (tr @ tr')))"
  by (simp add: observes_def always_pcatch cong: sum.case_cong)

lemma observes_attempt [obs]: "observes (attempt p) Q \<longleftrightarrow> observes p (\<lambda>tr out. Q tr (Inr out))"
  by (simp add: observes_def always_attempt)

lemma observes_pfinally [obs]:
  "observes (pfinally p f) Q \<longleftrightarrow>
   observes p (\<lambda>tr out. observes f (\<lambda>tr' out'. Q (tr @ tr') (case out' of Inl e \<Rightarrow> Inl e | Inr _ \<Rightarrow> out)))"
  by (simp add: observes_def always_pfinally)

lemma observes_of_res [obs]: "observes (of_res r) Q \<longleftrightarrow> Q [] r"
  by (cases r) (simp_all add: observes_def)

lemma observes_metric [obs]: "observes (metric b e) Q \<longleftrightarrow> Q [] (Inr ())"
  by (simp add: observes_def metric_def)

lemma observes_logMsg [obs]: "observes (logMsg l m) Q \<longleftrightarrow> Q [] (Inr ())"
  by (simp add: observes_def logMsg_def)

lemma observes_perfNow [obs]: "observes perfNow Q \<longleftrightarrow> (\<forall>t. Q [] (Inr t))"
  by (auto simp: observes_def perfNow_def)

lemma observes_dateNow [obs]:
  "observes dateNow Q \<longleftrightarrow> (\<forall>t. \<bar>t\<bar> \<le> MAX_TIME_VALUE \<longrightarrow> Q [(QDateNow, AInt t)] (Inr t))"
  by (auto simp: observes_def dateNow_def)

lemma observes_metric_elapsed [obs]: "observes (metric_elapsed b s f) Q \<longleftrightarrow> Q [] (Inr ())"
  by (simp add: metric_elapsed_def elapsedSeconds_def obs)

lemma observes_ask:
  assumes "\<And>a. observable (q, a)"
  shows "observes (ask q) Q \<longleftrightarrow>
    (\<forall>a. well_answered q a \<longrightarrow> (case a of AThrow e \<Rightarrow> Q [(q, a)] (Inl e) | _ \<Rightarrow> Q [(q, a)] (Inr a)))"
  using assms by (auto simp: observes_def ask_def split: ans.split)

text \<open>The two shapes of answers: a result or a thrown error, and a plain result.\<close>

lemma all_answers:
  "(\<forall>a. (\<exists>b. a = f b) \<or> R a \<longrightarrow> P a) \<longleftrightarrow> (\<forall>b. P (f b)) \<and> (\<forall>a. R a \<longrightarrow> P a)"
  "(\<forall>a. (\<exists>b. a = f b) \<longrightarrow> P a) \<longleftrightarrow> (\<forall>b. P (f b))"
  "(\<forall>a. (\<exists>b c. a = g b c) \<longrightarrow> P a) \<longleftrightarrow> (\<forall>b c. P (g b c))"
  "(\<forall>a. a = c \<or> R a \<longrightarrow> P a) \<longleftrightarrow> P c \<and> (\<forall>a. R a \<longrightarrow> P a)"
  by blast+

lemma observes_ask_read [obs]:
  "observes (ask (QRead r t)) Q \<longleftrightarrow>
   (\<forall>x. Q [(QRead r t, ARead x)] (Inr (ARead x))) \<and> (\<forall>e. Q [(QRead r t, AThrow e)] (Inl e))"
  by (simp_all add: observes_ask all_answers all_conj_distrib)

lemma observes_ask_write [obs]:
  "observes (ask (QWrite r)) Q \<longleftrightarrow> Q [(QWrite r, AUnit)] (Inr AUnit) \<and> (\<forall>e. Q [(QWrite r, AThrow e)] (Inl e))"
  by (simp_all add: observes_ask all_answers all_conj_distrib)

lemma observes_ask_invalidate [obs]:
  "observes (ask (QInvalidate k b)) Q \<longleftrightarrow>
   Q [(QInvalidate k b, AUnit)] (Inr AUnit) \<and> (\<forall>e. Q [(QInvalidate k b, AThrow e)] (Inl e))"
  by (simp_all add: observes_ask all_answers all_conj_distrib)

lemma observes_ask_dump [obs]:
  "observes (ask (QDump s v)) Q \<longleftrightarrow>
   (\<forall>p. Q [(QDump s v, APayload p)] (Inr (APayload p))) \<and> (\<forall>e. Q [(QDump s v, AThrow e)] (Inl e))"
  by (simp_all add: observes_ask all_answers all_conj_distrib)

lemma observes_ask_load [obs]:
  "observes (ask (QLoad s p)) Q \<longleftrightarrow>
   (\<forall>v. Q [(QLoad s p, AVal v)] (Inr (AVal v))) \<and> (\<forall>e. Q [(QLoad s p, AThrow e)] (Inl e))"
  by (simp_all add: observes_ask all_answers all_conj_distrib)

lemma observes_ask_lru [obs]:
  "observes (ask (QLruGet k)) Q \<longleftrightarrow>
   (\<forall>v. Q [(QLruGet k, AOpt v)] (Inr (AOpt v))) \<and> (\<forall>e. Q [(QLruGet k, AThrow e)] (Inl e))"
  "observes (ask (QLruSet k v ttl)) Q \<longleftrightarrow>
   Q [(QLruSet k v ttl, AUnit)] (Inr AUnit) \<and> (\<forall>e. Q [(QLruSet k v ttl, AThrow e)] (Inl e))"
  by (simp_all add: observes_ask all_answers all_conj_distrib)

lemma observes_ask_bool [obs]:
  "observes (ask QIsEnabled) Q \<longleftrightarrow> (\<forall>b. Q [(QIsEnabled, ABool b)] (Inr (ABool b)))"
  "observes (ask QShouldWrite) Q \<longleftrightarrow> (\<forall>b. Q [(QShouldWrite, ABool b)] (Inr (ABool b)))"
  "observes (ask QRequestLocal) Q \<longleftrightarrow> (\<forall>b. Q [(QRequestLocal, ABool b)] (Inr (ABool b)))"
  "observes (ask (QRlLookup k)) Q \<longleftrightarrow> (\<forall>b. Q [(QRlLookup k, ABool b)] (Inr (ABool b)))"
  "observes (ask (QProcLookup k)) Q \<longleftrightarrow> (\<forall>b. Q [(QProcLookup k, ABool b)] (Inr (ABool b)))"
  by (simp_all add: observes_ask all_answers all_conj_distrib)

lemma observes_ask_value [obs]:
  "observes (ask QSourceAwait) Q \<longleftrightarrow>
   (\<forall>v. Q [(QSourceAwait, AVal v)] (Inr (AVal v))) \<and> (\<forall>e. Q [(QSourceAwait, AThrow e)] (Inl e))"
  "observes (ask (QRlAwait k)) Q \<longleftrightarrow>
   (\<forall>v. Q [(QRlAwait k, AVal v)] (Inr (AVal v))) \<and> (\<forall>e. Q [(QRlAwait k, AThrow e)] (Inl e))"
  "observes (ask (QProcAwait k)) Q \<longleftrightarrow>
   (\<forall>v. Q [(QProcAwait k, AVal v)] (Inr (AVal v))) \<and> (\<forall>e. Q [(QProcAwait k, AThrow e)] (Inl e))"
  "observes (ask (QRlRead k)) Q \<longleftrightarrow> (\<forall>v. Q [(QRlRead k, AOpt v)] (Inr (AOpt v)))"
  by (simp_all add: observes_ask all_answers all_conj_distrib)

lemma observes_ask_unit [obs]:
  "observes (ask (QSourceStart t)) Q \<longleftrightarrow> Q [(QSourceStart t, AUnit)] (Inr AUnit)"
  "observes (ask (QRlSet k v)) Q \<longleftrightarrow> Q [(QRlSet k v, AUnit)] (Inr AUnit)"
  "observes (ask (QRlRegister k)) Q \<longleftrightarrow> Q [(QRlRegister k, AUnit)] (Inr AUnit)"
  "observes (ask (QRlClear k)) Q \<longleftrightarrow> Q [(QRlClear k, AUnit)] (Inr AUnit)"
  "observes (ask (QProcRegister k r)) Q \<longleftrightarrow> Q [(QProcRegister k r, AUnit)] (Inr AUnit)"
  "observes (ask (QProcClear k)) Q \<longleftrightarrow> Q [(QProcClear k, AUnit)] (Inr AUnit)"
  "observes (ask (QShadowStart k st r lp)) Q \<longleftrightarrow> Q [(QShadowStart k st r lp, AUnit)] (Inr AUnit)"
  by (simp_all add: observes_ask all_answers all_conj_distrib)

lemma observes_ask_app [obs]:
  "observes (ask QSelectKey) Q \<longleftrightarrow>
   (\<forall>s. Q [(QSelectKey, ASpec s)] (Inr (ASpec s))) \<and> (\<forall>e. Q [(QSelectKey, AThrow e)] (Inl e))"
  "observes (ask (QProvider k)) Q \<longleftrightarrow>
   (\<forall>c. Q [(QProvider k, AProvided c)] (Inr (AProvided c))) \<and> (\<forall>e. Q [(QProvider k, AThrow e)] (Inl e))"
  "observes (ask (QStalePredicate x)) Q \<longleftrightarrow>
   (\<forall>b. Q [(QStalePredicate x, ABool b)] (Inr (ABool b))) \<and> Q [(QStalePredicate x, ANonBool)] (Inr ANonBool) \<and>
   (\<forall>e. Q [(QStalePredicate x, AThrow e)] (Inl e))"
  "observes (ask (QShadowTable u)) Q \<longleftrightarrow> (\<forall>b n. Q [(QShadowTable u, ATable b n)] (Inr (ATable b n)))"
  by (simp_all add: observes_ask all_answers all_conj_distrib)

lemma observes_mono: "observes p Q \<Longrightarrow> (\<And>tr out. Q tr out \<Longrightarrow> Q' tr out) \<Longrightarrow> observes p Q'"
  unfolding observes_def by (erule always_mono)

lemma observes_conj: "observes p (\<lambda>tr out. Q tr out \<and> Q' tr out) \<longleftrightarrow> observes p Q \<and> observes p Q'"
  by (simp add: observes_def always_conj)

text \<open>Every program has a run, so a statement about every run is never empty.\<close>

lemma observes_nonempty: "\<exists>tr out. runs well_answered p tr out"
  by (rule runs_exists) (rule well_answered_exists)

lemma observes_runs: "observes p Q \<Longrightarrow> runs well_answered p tr out \<Longrightarrow> Q (filter observable tr) out"
  unfolding observes_def by (rule always_runs)

end
