(* ===== verification/RedisCache.thy ===== *)
theory RedisCache
  imports Requests
begin

section \<open>The Redis layer\<close>

text \<open>
  \<^verbatim>\<open>internal/redis-cache.ts\<close>: one definition per method of the class \<^verbatim>\<open>RedisCache\<close>. A method that awaits is a
  program; its exceptions, early returns and \<^verbatim>\<open>finally\<close> blocks are the program's. The instance is the record
  \<open>redis_cache\<close>; \<open>rc_zc\<close> and \<open>rc_zd\<close> are zstd.
\<close>

record redis_cache =
  rc_metrics :: bool
  rc_defaultSerializer :: nat
  rc_compression :: "compression_config option"
  rc_readTimeoutMs :: int
  rc_zc :: "int \<Rightarrow> bytes \<Rightarrow> bytes res"
  rc_zd :: "nat \<Rightarrow> bytes \<Rightarrow> zstd_result"

datatype redis_miss = cache_miss | deserialization_error

datatype valid_read = ValidFrame frame | ValidMiss miss_reason "int option"

datatype 'v redis_get =
    RedisHit 'v frame
  | RedisRetained frame resolved_remote_layer
  | RedisMiss resolved_remote_layer redis_miss "int option"

datatype frame_age = AgeValid int | AgeFuture | AgeInvalid

datatype future_policy = FutureReject | FutureRetain

datatype 'v stale_result = StaleHit 'v | StaleMiss

text \<open>The constructor's checks, on the untrusted \<^verbatim>\<open>redis\<close> option bag.\<close>

definition RedisCache_new ::
  "(int \<Rightarrow> bytes \<Rightarrow> bytes res) \<Rightarrow> (nat \<Rightarrow> bytes \<Rightarrow> zstd_result) \<Rightarrow> bool \<Rightarrow> bool \<Rightarrow> nat \<Rightarrow> jsval \<Rightarrow> redis_cache res" where
  "RedisCache_new zc zd zstd_available metrics default_serializer opts =
     res_bind (check (\<not> hasOwn opts ''keyPrefix'') (TypeError ''RedisConfig.keyPrefix was removed'')) (\<lambda>_.
     res_bind (check (\<not> hasOwn opts ''createClient'') (TypeError ''RedisConfig.createClient was removed'')) (\<lambda>_.
     res_bind (check (\<not> hasOwn opts ''watermarkTtlSec'') (TypeError ''RedisConfig.watermarkTtlSec was removed'')) (\<lambda>_.
     res_bind (resolveCompressionConfig zstd_available (get_prop opts ''compression'')) (\<lambda>comp.
     let t = (if get_prop opts ''readTimeoutMs'' = JUndef then JNum (Fin 50) else get_prop opts ''readTimeoutMs'') in
     res_bind (assertValidDeadlineMs t ''Redis readTimeoutMs'') (\<lambda>_.
     res_bind (check (get_prop opts ''client'' \<noteq> JUndef) (TypeError ''Redis config requires client'')) (\<lambda>_.
     Inr \<lparr>rc_metrics = metrics, rc_defaultSerializer = default_serializer, rc_compression = comp,
          rc_readTimeoutMs = int_of_val t, rc_zc = zc, rc_zd = zd\<rparr>))))))"

definition REDIS_FRAME_KEY_SUFFIX :: jsstring where
  "REDIS_FRAME_KEY_SUFFIX = js '':dialcache-frame-v1''"

definition redisKey :: "DialCacheKey \<Rightarrow> jsstring" where
  "redisKey key = urn key @ REDIS_FRAME_KEY_SUFFIX"

definition redisWatermarkKey :: "jsstring \<Rightarrow> jsstring \<Rightarrow> jsstring \<Rightarrow> jsstring res" where
  "redisWatermarkKey ns kt i =
     res_bind (res_bind (invalidationPrefix ns kt i) redisClusterHashTag) (\<lambda>tag. Inr (tag @ js ''#watermark''))"

definition redisWatermarkKeyFromKey :: "DialCacheKey \<Rightarrow> jsstring res" where
  "redisWatermarkKeyFromKey key = redisWatermarkKey (namespace key) (keyType key) (keyId key)"

definition serializerFor :: "redis_cache \<Rightarrow> DialCacheKey \<Rightarrow> nat" where
  "serializerFor rc key = (case serializer key of None \<Rightarrow> rc_defaultSerializer rc | Some s \<Rightarrow> s)"

definition retentionTtlSecFor :: "resolved_remote_layer \<Rightarrow> int" where
  "retentionTtlSecFor config = (case res_staleMaxAgeSec config of None \<Rightarrow> res_ttlSec config | Some a \<Rightarrow> a)"

definition payloadSize :: "payload \<Rightarrow> nat" where
  "payloadSize p = (case p of Binary b \<Rightarrow> length b | Text s \<Rightarrow> byteLength s)"

subsection \<open>Recording\<close>

definition recordError :: "redis_cache \<Rightarrow> DialCacheKey \<Rightarrow> metric_layer \<Rightarrow> error_kind \<Rightarrow> ('v, unit) cache_prog" where
  "recordError rc key layer kind = metric (rc_metrics rc) (m_error (labelsFor key layer) kind False)"

definition recordMiss :: "redis_cache \<Rightarrow> DialCacheKey \<Rightarrow> metric_layer \<Rightarrow> miss_reason \<Rightarrow> ('v, unit) cache_prog" where
  "recordMiss rc key layer reason = metric (rc_metrics rc) (m_miss (labelsFor key layer) reason)"

definition recordStaleRecovery ::
  "redis_cache \<Rightarrow> DialCacheKey \<Rightarrow> stale_outcome \<Rightarrow> rat option \<Rightarrow> ('v, unit) cache_prog" where
  "recordStaleRecovery rc key outcome valueAgeSeconds =
     pthen (metric (rc_metrics rc) (m_staleRecovery (keyLabels key) outcome))
       (case valueAgeSeconds of None \<Rightarrow> Ret ()
        | Some s \<Rightarrow> metric (rc_metrics rc) (m_observeStaleRecoveryValueAge (keyLabels key) outcome s))"

definition sampleWriteTimestamp :: "redis_cache \<Rightarrow> DialCacheKey \<Rightarrow> metric_layer \<Rightarrow> ('v, int) cache_prog" where
  "sampleWriteTimestamp rc key layer =
     pbind dateNow (\<lambda>createdAtMs.
     case assertValidRedisTimestampMs (JNum (num_of_int createdAtMs)) of
       Inl e \<Rightarrow> pthen (recordError rc key layer cache_write) (Thr e)
     | Inr _ \<Rightarrow> Ret createdAtMs)"

subsection \<open>Reading\<close>

definition validateReadResult :: "DialCacheKey \<Rightarrow> raw_read \<Rightarrow> valid_read" where
  "validateReadResult key result =
     (case result of
        RawMiss rawReason rawWatermark \<Rightarrow>
          let reason = (case miss_reason_of_val rawReason of None \<Rightarrow> unclassified | Some r \<Rightarrow> r);
              observedWatermarkMs =
                (if trackForInvalidation key \<and> isValidRedisTimestampMs rawWatermark
                 then Some (int_of_val rawWatermark) else None)
          in ValidMiss (if reason = watermark_fenced \<and> observedWatermarkMs = None then unclassified else reason)
               observedWatermarkMs
      | RawFrame f \<Rightarrow> ValidFrame f
      | RawJunk \<Rightarrow> ValidMiss unclassified None)"

definition startRawPayloadRead :: "DialCacheKey \<Rightarrow> int \<Rightarrow> ('v, valid_read) cache_prog" where
  "startRawPayloadRead key readTimeoutMs =
     pbind (of_res (if trackForInvalidation key then map_sum id Some (redisWatermarkKeyFromKey key) else Inr None)) (\<lambda>wk.
     pbind (ask (QRead \<lparr>rd_valueKey = redisKey key, rd_watermarkKey = wk\<rparr> readTimeoutMs)) (\<lambda>a.
     Ret (validateReadResult key (case a of ARead r \<Rightarrow> r | _ \<Rightarrow> RawJunk))))"

definition frameAge :: "redis_cache \<Rightarrow> DialCacheKey \<Rightarrow> frame \<Rightarrow> metric_layer \<Rightarrow> ('v, frame_age) cache_prog" where
  "frameAge rc key f layer =
     (if \<not> isValidRedisTimestampMs (fr_createdAtMs f) then Ret AgeInvalid
      else pbind dateNow (\<lambda>readerNowMs.
        let createdAtMs = int_of_val (fr_createdAtMs f) in
        if createdAtMs > readerNowMs then
          pthen (metric (rc_metrics rc)
                   (m_observeFutureTimestampOffset (labelsFor key layer) (of_int (createdAtMs - readerNowMs) / 1000)))
            (Ret AgeFuture)
        else Ret (AgeValid (readerNowMs - createdAtMs))))"

definition validateFrameAge ::
  "redis_cache \<Rightarrow> DialCacheKey \<Rightarrow> valid_read \<Rightarrow> int option \<Rightarrow> metric_layer \<Rightarrow> future_policy \<Rightarrow> ('v, valid_read) cache_prog" where
  "validateFrameAge rc key result maxAgeMs layer policy =
     (case result of ValidMiss _ _ \<Rightarrow> Ret result
      | ValidFrame f \<Rightarrow>
          pbind (frameAge rc key f layer) (\<lambda>age.
          Ret (case age of
                 AgeFuture \<Rightarrow> (if policy = FutureReject then ValidMiss unclassified None else result)
               | AgeInvalid \<Rightarrow> ValidMiss unclassified None
               | AgeValid ageMs \<Rightarrow>
                   (case maxAgeMs of None \<Rightarrow> result
                    | Some m \<Rightarrow> if ageMs < m then result else ValidMiss expired None))))"

definition deserializePayload ::
  "redis_cache \<Rightarrow> DialCacheKey \<Rightarrow> payload \<Rightarrow> metric_layer \<Rightarrow> ('v, 'v) cache_prog" where
  "deserializePayload rc key p layer =
     pbind perfNow (\<lambda>decompressStart.
     case decompressPayload (rc_zd rc) MAX_DECOMPRESSED_BYTES p of (d, outcome) \<Rightarrow>
     pthen (if outcome \<noteq> passthrough
            then pthen (metric (rc_metrics rc) (m_compression (labelsFor key layer) (ReadOutcome outcome)))
                   (metric_elapsed (rc_metrics rc) decompressStart (m_observeCompression (labelsFor key layer) ''decompress''))
            else Ret ())
     (pbind perfNow (\<lambda>start.
      pfinally
        (pcatch (pbind (ask (QLoad (serializerFor rc key) d)) (\<lambda>a. case a of AVal v \<Rightarrow> Ret v | _ \<Rightarrow> Thr (PlainError ''load'')))
           (\<lambda>e. pthen (recordError rc key layer serialization_load) (Thr e)))
        (metric_elapsed (rc_metrics rc) start (m_observeSerialization (labelsFor key layer) ''load'')))))"

text \<open>The disposition of a frame whose age was sampled; \<open>getWithResolvedConfig\<close> is the read around it.\<close>

definition serveByAge ::
  "redis_cache \<Rightarrow> DialCacheKey \<Rightarrow> resolved_remote_layer \<Rightarrow> int \<Rightarrow> int \<Rightarrow> frame \<Rightarrow> frame_age \<Rightarrow> ('v, 'v redis_get) cache_prog" where
  "serveByAge rc key layerConfig freshAgeMs maximumAgeMs f age =
     (case age of
        AgeValid ageMs \<Rightarrow>
          if ageMs \<ge> maximumAgeMs then
            pthen (recordMiss rc key LayerRemote expired) (Ret (RedisMiss layerConfig cache_miss None))
          else if ageMs \<ge> freshAgeMs then
            pthen (recordMiss rc key LayerRemote expired) (Ret (RedisRetained f layerConfig))
          else
            pcatch (pbind (deserializePayload rc key (fr_payload f) LayerRemote) (\<lambda>v. Ret (RedisHit v f)))
              (\<lambda>_. pthen (recordMiss rc key LayerRemote unclassified)
                     (Ret (RedisMiss layerConfig deserialization_error None)))
      | _ \<Rightarrow> pthen (recordMiss rc key LayerRemote unclassified) (Ret (RedisMiss layerConfig cache_miss None)))"

definition getWithResolvedConfig ::
  "redis_cache \<Rightarrow> DialCacheKey \<Rightarrow> resolved_remote_layer \<Rightarrow> int \<Rightarrow> ('v, 'v redis_get) cache_prog" where
  "getWithResolvedConfig rc key layerConfig readTimeoutMs =
     pbind (of_res (cacheTtlSecToMs (res_ttlSec layerConfig))) (\<lambda>freshAgeMs.
     pbind (of_res (cacheTtlSecToMs (retentionTtlSecFor layerConfig))) (\<lambda>maximumAgeMs.
     pbind perfNow (\<lambda>start.
     pthen (metric (rc_metrics rc) (m_request (labelsFor key LayerRemote)))
     (pfinally
       (pbind (pcatch (startRawPayloadRead key readTimeoutMs)
                 (\<lambda>e. pthen (recordError rc key LayerRemote
                               (case e of RedisReadTimeoutError _ _ \<Rightarrow> cache_read_timeout | _ \<Rightarrow> cache_read)) (Thr e)))
        (\<lambda>result. case result of
           ValidMiss reason observedWatermarkMs \<Rightarrow>
             pthen (recordMiss rc key LayerRemote reason) (Ret (RedisMiss layerConfig cache_miss observedWatermarkMs))
         | ValidFrame f \<Rightarrow>
             pbind (frameAge rc key f LayerRemote) (serveByAge rc key layerConfig freshAgeMs maximumAgeMs f)))
       (metric_elapsed (rc_metrics rc) start (m_observeGet (labelsFor key LayerRemote)))))))"

definition recoverRetainedCandidate ::
  "redis_cache \<Rightarrow> DialCacheKey \<Rightarrow> frame option \<Rightarrow> int \<Rightarrow> ('v, 'v stale_result) cache_prog" where
  "recoverRetainedCandidate rc key fo maxAgeSec =
     (case fo of None \<Rightarrow> pthen (recordStaleRecovery rc key stale_miss None) (Ret StaleMiss)
      | Some f \<Rightarrow>
          pbind (of_res (cacheTtlSecToMs maxAgeSec)) (\<lambda>maximumAgeMs.
          pbind (frameAge rc key f LayerRemote) (\<lambda>initialAge.
          if (case initialAge of AgeValid a \<Rightarrow> a \<ge> maximumAgeMs | _ \<Rightarrow> True)
          then pthen (recordStaleRecovery rc key stale_miss None) (Ret StaleMiss)
          else
            pbind (attempt (deserializePayload rc key (fr_payload f) LayerRemote)) (\<lambda>r. case r of
              Inl _ \<Rightarrow> pthen (recordStaleRecovery rc key stale_deserialization_error None) (Ret StaleMiss)
            | Inr v \<Rightarrow>
                pbind (frameAge rc key f LayerRemote) (\<lambda>servingAge. case servingAge of
                  AgeValid a \<Rightarrow>
                    if a \<ge> maximumAgeMs
                    then pthen (recordStaleRecovery rc key stale_miss None) (Ret StaleMiss)
                    else pthen (recordStaleRecovery rc key stale_served (Some (of_int a / 1000))) (Ret (StaleHit v))
                | _ \<Rightarrow> pthen (recordStaleRecovery rc key stale_miss None) (Ret StaleMiss))))))"

definition deserializeForShadow :: "redis_cache \<Rightarrow> DialCacheKey \<Rightarrow> payload \<Rightarrow> ('v, 'v) cache_prog" where
  "deserializeForShadow rc key p = deserializePayload rc key p LayerRemoteShadow"

definition startPayloadRead ::
  "redis_cache \<Rightarrow> DialCacheKey \<Rightarrow> int option \<Rightarrow> int \<Rightarrow> metric_layer \<Rightarrow> future_policy \<Rightarrow> ('v, valid_read) cache_prog" where
  "startPayloadRead rc key maxAgeMs readTimeoutMs layer policy =
     pbind (startRawPayloadRead key readTimeoutMs) (\<lambda>r. validateFrameAge rc key r maxAgeMs layer policy)"

definition startMeasuredPayloadRead ::
  "redis_cache \<Rightarrow> DialCacheKey \<Rightarrow> int option \<Rightarrow> int \<Rightarrow> metric_layer \<Rightarrow> future_policy \<Rightarrow> ('v, valid_read) cache_prog" where
  "startMeasuredPayloadRead rc key maxAgeMs readTimeoutMs layer policy =
     pbind perfNow (\<lambda>start.
     pthen (metric (rc_metrics rc) (m_request (labelsFor key layer)))
     (pfinally
       (pbind (attempt (startPayloadRead rc key maxAgeMs readTimeoutMs layer policy)) (\<lambda>r. case r of
          Inr (ValidMiss reason w) \<Rightarrow> pthen (recordMiss rc key layer reason) (Ret (ValidMiss reason w))
        | Inr (ValidFrame f) \<Rightarrow> Ret (ValidFrame f)
        | Inl e \<Rightarrow> pthen (recordError rc key layer
                            (case e of RedisReadTimeoutError _ _ \<Rightarrow> cache_read_timeout | _ \<Rightarrow> cache_read)) (Thr e)))
       (metric_elapsed (rc_metrics rc) start (m_observeGet (labelsFor key layer)))))"

definition startPayloadReadForShadow ::
  "redis_cache \<Rightarrow> DialCacheKey \<Rightarrow> int option \<Rightarrow> int \<Rightarrow> future_policy \<Rightarrow> ('v, valid_read) cache_prog" where
  "startPayloadReadForShadow rc key maxAgeSec readTimeoutMs policy =
     pbind (of_res (case maxAgeSec of None \<Rightarrow> Inr None | Some s \<Rightarrow> map_sum id Some (cacheTtlSecToMs s))) (\<lambda>maxAgeMs.
     startMeasuredPayloadRead rc key maxAgeMs readTimeoutMs LayerRemoteShadow policy)"

subsection \<open>Writing\<close>

text \<open>\<open>asks_shouldWrite\<close>: a \<^verbatim>\<open>shouldWrite\<close> callback was passed (shadow fills do).\<close>

definition dumpValue :: "redis_cache \<Rightarrow> DialCacheKey \<Rightarrow> 'v \<Rightarrow> metric_layer \<Rightarrow> ('v, payload) cache_prog" where
  "dumpValue rc key v layer =
     pbind perfNow (\<lambda>start.
     pfinally
       (pcatch (pbind (ask (QDump (serializerFor rc key) v)) (\<lambda>a. case a of APayload p \<Rightarrow> Ret p | _ \<Rightarrow> Thr (PlainError ''dump'')))
          (\<lambda>e. pthen (recordError rc key layer serialization_dump) (Thr e)))
       (metric_elapsed (rc_metrics rc) start (m_observeSerialization (labelsFor key layer) ''dump'')))"

definition envelopeValue :: "redis_cache \<Rightarrow> DialCacheKey \<Rightarrow> payload \<Rightarrow> metric_layer \<Rightarrow> ('v, payload) cache_prog" where
  "envelopeValue rc key serialized layer =
     (case rc_compression rc of
        None \<Rightarrow> Ret (escapeRawPayload serialized)
      | Some cfg \<Rightarrow>
          pbind perfNow (\<lambda>compressStart.
          case compressPayload (rc_zc rc) MAX_DECOMPRESSED_BYTES serialized cfg of
            Inl e \<Rightarrow> pthen (recordError rc key layer compression_failure) (Thr e)
          | Inr c \<Rightarrow>
              pthen (metric (rc_metrics rc) (m_compression (labelsFor key layer) (WriteOutcome (cp_outcome c))))
              (pthen (if cp_outcome c = compressed \<or> cp_outcome c = not_smaller
                      then metric_elapsed (rc_metrics rc) compressStart (m_observeCompression (labelsFor key layer) ''compress'')
                      else Ret ())
              (pthen (if cp_outcome c = compressed
                      then metric (rc_metrics rc) (m_observeCompressionRatio (labelsFor key layer)
                             (of_nat (cp_storedBytes c) / of_nat (cp_originalBytes c)))
                      else Ret ())
               (Ret (cp_payload c))))))"

definition writeTtlMs :: "DialCacheKey \<Rightarrow> int \<Rightarrow> int" where
  "writeTtlMs key configuredTtlMs =
     (if trackForInvalidation key then min configuredTtlMs MAX_TRACKED_REDIS_VALUE_TTL_MS else configuredTtlMs)"

definition putWithLayer ::
  "redis_cache \<Rightarrow> DialCacheKey \<Rightarrow> 'v \<Rightarrow> int \<Rightarrow> metric_layer \<Rightarrow> bool \<Rightarrow> int option \<Rightarrow> ('v, bool) cache_prog" where
  "putWithLayer rc key v ttl layer asks_shouldWrite fenceMs =
     pbind (of_res (cacheTtlSecToMs ttl)) (\<lambda>configuredTtlMs.
     let cacheTtlMs = writeTtlMs key configuredTtlMs;
         observedWatermarkMs = (if trackForInvalidation key then fenceMs else None)
     in
     pbind (case observedWatermarkMs of None \<Rightarrow> Ret False
            | Some w \<Rightarrow> pbind (sampleWriteTimestamp rc key layer) (\<lambda>t. Ret (t \<le> w))) (\<lambda>fenced.
     if fenced then Ret False else
     pbind (dumpValue rc key v layer) (\<lambda>serialized.
     pthen (metric (rc_metrics rc) (m_observeSize (labelsFor key layer) (payloadSize serialized)))
     (pbind (envelopeValue rc key serialized layer) (\<lambda>storedPayload.
     pthen (metric (rc_metrics rc) (m_observeStoredSize (labelsFor key layer) (payloadSize storedPayload)))
     (pbind (if asks_shouldWrite then pbind (ask QShouldWrite) (\<lambda>a. Ret (a = ABool True)) else Ret True) (\<lambda>go.
     if \<not> go then Ret False else
     pbind (case observedWatermarkMs of None \<Rightarrow> Ret (Some None)
            | Some w \<Rightarrow> pbind (sampleWriteTimestamp rc key layer) (\<lambda>t. Ret (if t \<le> w then None else Some (Some t)))) (\<lambda>stamp.
     case stamp of None \<Rightarrow> Ret False
     | Some createdAtMs \<Rightarrow>
     pthen (if cacheTtlMs < configuredTtlMs then recordError rc key layer tracked_ttl_clamped else Ret ())
     (pbind (pcatch (ask (QWrite \<lparr>wr_valueKey = redisKey key, wr_cacheTtlMs = cacheTtlMs, wr_value = storedPayload,
                                  wr_createdAtMs = createdAtMs\<rparr>))
               (\<lambda>e. pthen (recordError rc key layer cache_write) (Thr e))) (\<lambda>_.
      Ret True))))))))))"

definition put ::
  "redis_cache \<Rightarrow> DialCacheKey \<Rightarrow> 'v \<Rightarrow> resolved_remote_layer \<Rightarrow> int option \<Rightarrow> ('v, unit) cache_prog" where
  "put rc key v config observedWatermarkMs =
     pbind (putWithLayer rc key v (retentionTtlSecFor config) LayerRemote False observedWatermarkMs) (\<lambda>_. Ret ())"

definition putForShadow ::
  "redis_cache \<Rightarrow> DialCacheKey \<Rightarrow> 'v \<Rightarrow> resolved_remote_layer \<Rightarrow> int option \<Rightarrow> ('v, bool) cache_prog" where
  "putForShadow rc key v config observedWatermarkMs =
     putWithLayer rc key v (retentionTtlSecFor config) LayerRemoteShadow True observedWatermarkMs"

definition invalidate :: "jsstring \<Rightarrow> jsstring \<Rightarrow> int \<Rightarrow> jsstring \<Rightarrow> ('v, unit) cache_prog" where
  "invalidate kt i futureBufferMs ns =
     pbind (of_res (redisWatermarkKey ns kt i)) (\<lambda>wk.
     pbind (ask (QInvalidate wk futureBufferMs)) (\<lambda>_. Ret ()))"

end
