(* ===== verification/RedisCacheSpec.thy ===== *)
theory RedisCacheSpec
  imports RedisCache
begin

section \<open>What the Redis layer guarantees\<close>

text \<open>
  Properties of every run of the methods of \<^verbatim>\<open>redis-cache.ts\<close>: the exact observable behaviour of the small
  methods (collected in \<open>obs\<close>), then what reads, stale recovery and writes promise.
\<close>

subsection \<open>Observable behaviour of the small methods\<close>

lemma observes_recordError [obs]: "observes (recordError rc key l k) Q \<longleftrightarrow> Q [] (Inr ())"
  by (simp add: recordError_def obs)

lemma observes_recordMiss [obs]: "observes (recordMiss rc key l r) Q \<longleftrightarrow> Q [] (Inr ())"
  by (simp add: recordMiss_def obs)

lemma observes_recordStaleRecovery [obs]: "observes (recordStaleRecovery rc key out s) Q \<longleftrightarrow> Q [] (Inr ())"
  by (cases s) (simp_all add: recordStaleRecovery_def obs)

lemma assertValid_int:
  "assertValidRedisTimestampMs (JNum (num_of_int t)) =
     (if 0 \<le> t \<and> t \<le> MAX_SAFE_INTEGER then Inr ()
      else Inl (RangeError ''DialCache Redis timestamp must be a nonnegative safe integer''))"
  by (simp add: assertValidRedisTimestampMs_def check_def isValidRedisTimestampMs_iff)

lemma time_value_safe: "\<bar>t\<bar> \<le> MAX_TIME_VALUE \<Longrightarrow> t \<le> MAX_SAFE_INTEGER"
  by (simp add: MAX_TIME_VALUE_def MAX_SAFE_INTEGER_def)

lemma observes_sampleWriteTimestamp [obs]:
  "observes (sampleWriteTimestamp rc key l) Q \<longleftrightarrow>
   (\<forall>t. \<bar>t\<bar> \<le> MAX_TIME_VALUE \<longrightarrow> Q [(QDateNow, AInt t)]
     (if 0 \<le> t then Inr t
      else Inl (RangeError ''DialCache Redis timestamp must be a nonnegative safe integer'')))"
  by (auto simp: sampleWriteTimestamp_def obs assertValid_int time_value_safe split: if_splits sum.splits)

definition frame_stamp :: "frame \<Rightarrow> int" where
  "frame_stamp f = int_of_val (fr_createdAtMs f)"

definition age_at :: "frame \<Rightarrow> int \<Rightarrow> frame_age" where
  "age_at f now = (if frame_stamp f > now then AgeFuture else AgeValid (now - frame_stamp f))"

lemma observes_frameAge [obs]:
  "observes (frameAge rc key f l) Q \<longleftrightarrow>
   (if isValidRedisTimestampMs (fr_createdAtMs f)
    then \<forall>t. \<bar>t\<bar> \<le> MAX_TIME_VALUE \<longrightarrow> Q [(QDateNow, AInt t)] (Inr (age_at f t))
    else Q [] (Inr AgeInvalid))"
  by (auto simp: frameAge_def obs Let_def age_at_def frame_stamp_def)

definition loaded_payload :: "redis_cache \<Rightarrow> payload \<Rightarrow> payload" where
  "loaded_payload rc p = fst (decompressPayload (rc_zd rc) MAX_DECOMPRESSED_BYTES p)"

lemma observes_deserializePayload [obs]:
  "observes (deserializePayload rc key p l) Q \<longleftrightarrow>
   (\<forall>v. Q [(QLoad (serializerFor rc key) (loaded_payload rc p), AVal v)] (Inr v)) \<and>
   (\<forall>e. Q [(QLoad (serializerFor rc key) (loaded_payload rc p), AThrow e)] (Inl e))"
proof -
  obtain d out where d: "decompressPayload (rc_zd rc) MAX_DECOMPRESSED_BYTES p = (d, out)" by fastforce
  then show ?thesis
    by (cases "out = passthrough") (simp_all add: deserializePayload_def obs loaded_payload_def)
qed

definition read_of :: "DialCacheKey \<Rightarrow> read_request res" where
  "read_of key =
     (if trackForInvalidation key
      then map_sum id (\<lambda>wk. \<lparr>rd_valueKey = redisKey key, rd_watermarkKey = Some wk\<rparr>) (redisWatermarkKeyFromKey key)
      else Inr \<lparr>rd_valueKey = redisKey key, rd_watermarkKey = None\<rparr>)"

lemma observes_startRawPayloadRead [obs]:
  "observes (startRawPayloadRead key t) Q \<longleftrightarrow>
   (case read_of key of
      Inl e \<Rightarrow> Q [] (Inl e)
    | Inr r \<Rightarrow> (\<forall>x. Q [(QRead r t, ARead x)] (Inr (validateReadResult key x))) \<and>
               (\<forall>e. Q [(QRead r t, AThrow e)] (Inl e)))"
  by (cases "redisWatermarkKeyFromKey key") (simp_all add: startRawPayloadRead_def read_of_def obs)

lemma observes_dumpValue [obs]:
  "observes (dumpValue rc key v l) Q \<longleftrightarrow>
   (\<forall>p. Q [(QDump (serializerFor rc key) v, APayload p)] (Inr p)) \<and>
   (\<forall>e. Q [(QDump (serializerFor rc key) v, AThrow e)] (Inl e))"
  by (simp add: dumpValue_def obs)

definition enveloped :: "redis_cache \<Rightarrow> payload \<Rightarrow> payload res" where
  "enveloped rc p =
     (case rc_compression rc of None \<Rightarrow> Inr (escapeRawPayload p)
      | Some cfg \<Rightarrow> map_sum id cp_payload (compressPayload (rc_zc rc) MAX_DECOMPRESSED_BYTES p cfg))"

lemma observes_if: "observes (if b then p else p') Q \<longleftrightarrow> (if b then observes p Q else observes p' Q)"
  by simp

lemma observes_envelopeValue [obs]: "observes (envelopeValue rc key p l) Q \<longleftrightarrow> Q [] (enveloped rc p)"
proof (cases "rc_compression rc")
  case (Some cfg)
  then show ?thesis
    by (cases "compressPayload (rc_zc rc) MAX_DECOMPRESSED_BYTES p cfg")
       (auto simp: envelopeValue_def enveloped_def obs observes_if)
qed (simp add: envelopeValue_def enveloped_def obs)

subsection \<open>Reads\<close>

text \<open>What a resolved remote policy satisfies (see \<open>resolveRemote_valid\<close>).\<close>

definition valid_remote :: "resolved_remote_layer \<Rightarrow> bool" where
  "valid_remote lc \<longleftrightarrow> 1 \<le> res_ttlSec lc \<and> res_ttlSec lc \<le> MAX_CACHE_TTL_SEC \<and>
     (case res_staleMaxAgeSec lc of None \<Rightarrow> True | Some a \<Rightarrow> res_ttlSec lc < a \<and> a \<le> MAX_CACHE_TTL_SEC)"

lemma valid_remote_ttl:
  "valid_remote lc \<Longrightarrow> cacheTtlSecToMs (res_ttlSec lc) = Inr (res_ttlSec lc * 1000)"
  "valid_remote lc \<Longrightarrow> cacheTtlSecToMs (retentionTtlSecFor lc) = Inr (retentionTtlSecFor lc * 1000)"
  by (auto simp: valid_remote_def cacheTtlSecToMs_Inr retentionTtlSecFor_def split: option.splits)

definition fresh_at :: "frame \<Rightarrow> int \<Rightarrow> int \<Rightarrow> bool" where
  "fresh_at f maxAgeMs now \<longleftrightarrow>
     isValidRedisTimestampMs (fr_createdAtMs f) \<and> 0 \<le> now - frame_stamp f \<and> now - frame_stamp f < maxAgeMs"

text \<open>The read as a function of what the environment answered.\<close>

definition load_of :: "redis_cache \<Rightarrow> DialCacheKey \<Rightarrow> frame \<Rightarrow> 'v req" where
  "load_of rc key f = QLoad (serializerFor rc key) (loaded_payload rc (fr_payload f))"

definition serve_post ::
  "redis_cache \<Rightarrow> DialCacheKey \<Rightarrow> resolved_remote_layer \<Rightarrow> frame \<Rightarrow> int \<Rightarrow>
   (('v req, 'v ans) trace \<Rightarrow> 'v redis_get res \<Rightarrow> bool) \<Rightarrow> bool" where
  "serve_post rc key lc f now Q \<longleftrightarrow>
     (if \<not> fresh_at f (retentionTtlSecFor lc * 1000) now then Q [] (Inr (RedisMiss lc cache_miss None))
      else if \<not> fresh_at f (res_ttlSec lc * 1000) now then Q [] (Inr (RedisRetained f lc))
      else (\<forall>v. Q [(load_of rc key f, AVal v)] (Inr (RedisHit v f))) \<and>
           (\<forall>e. Q [(load_of rc key f, AThrow e)] (Inr (RedisMiss lc deserialization_error None))))"

lemma observes_serveByAge:
  assumes "isValidRedisTimestampMs (fr_createdAtMs f)"
  shows "observes (serveByAge rc key lc (res_ttlSec lc * 1000) (retentionTtlSecFor lc * 1000) f (age_at f now)) Q \<longleftrightarrow>
    serve_post rc key lc f now Q"
  using assms by (auto simp: serveByAge_def age_at_def serve_post_def fresh_at_def load_of_def obs)

lemma observes_serveByAge_invalid:
  "observes (serveByAge rc key lc a b f AgeInvalid) Q \<longleftrightarrow> Q [] (Inr (RedisMiss lc cache_miss None))"
  by (simp add: serveByAge_def obs)

lemma observes_case_valid_read:
  "observes (case r of ValidFrame f \<Rightarrow> F f | ValidMiss reason w \<Rightarrow> G reason w) Q \<longleftrightarrow>
    (case r of ValidFrame f \<Rightarrow> observes (F f) Q | ValidMiss reason w \<Rightarrow> observes (G reason w) Q)"
  by (cases r) simp_all

lemma observes_getWithResolvedConfig [obs]:
  assumes "valid_remote lc"
  shows "observes (getWithResolvedConfig rc key lc t) Q \<longleftrightarrow>
    (case read_of key of
       Inl e \<Rightarrow> Q [] (Inl e)
     | Inr r \<Rightarrow>
         (\<forall>x. case validateReadResult key x of
            ValidMiss reason w \<Rightarrow> Q [(QRead r t, ARead x)] (Inr (RedisMiss lc cache_miss w))
          | ValidFrame f \<Rightarrow>
              if isValidRedisTimestampMs (fr_createdAtMs f)
              then \<forall>now. \<bar>now\<bar> \<le> MAX_TIME_VALUE \<longrightarrow>
                serve_post rc key lc f now (\<lambda>tr. Q ((QRead r t, ARead x) # (QDateNow, AInt now) # tr))
              else Q [(QRead r t, ARead x)] (Inr (RedisMiss lc cache_miss None))) \<and>
         (\<forall>e. Q [(QRead r t, AThrow e)] (Inl e)))"
  using assms
  by (cases "read_of key")
     (simp_all add: getWithResolvedConfig_def obs valid_remote_ttl observes_case_valid_read
       observes_serveByAge observes_serveByAge_invalid cong: valid_read.case_cong if_cong)

lemma observed_watermark:
  "validateReadResult key x = ValidMiss reason (Some w) \<Longrightarrow> trackForInvalidation key \<and> (\<exists>m. x = RawMiss m (JNum (num_of_int w)))"
  by (auto simp: validateReadResult_def Let_def isValidRedisTimestampMs_iff split: raw_read.splits if_splits)

lemma getWithResolvedConfig_post:
  assumes "valid_remote lc"
  shows "observes (getWithResolvedConfig rc key lc t) (\<lambda>tr out. case out of
      Inl e \<Rightarrow> (if tr = [] then read_of key = Inl e else (\<exists>r. read_of key = Inr r \<and> tr = [(QRead r t, AThrow e)]))
    | Inr (RedisHit v f) \<Rightarrow>
        (\<exists>r now. read_of key = Inr r \<and> fresh_at f (res_ttlSec lc * 1000) now \<and>
           tr = [(QRead r t, ARead (RawFrame f)), (QDateNow, AInt now), (load_of rc key f, AVal v)])
    | Inr (RedisRetained f lc') \<Rightarrow>
        (\<exists>r now a. read_of key = Inr r \<and> lc' = lc \<and> res_staleMaxAgeSec lc = Some a \<and>
           fresh_at f (a * 1000) now \<and> \<not> fresh_at f (res_ttlSec lc * 1000) now \<and>
           tr = [(QRead r t, ARead (RawFrame f)), (QDateNow, AInt now)])
    | Inr (RedisMiss lc' m w) \<Rightarrow> lc' = lc \<and>
        (if w = None then True
         else trackForInvalidation key \<and> (\<exists>r x. tr = [(QRead r t, ARead (RawMiss x (JNum (num_of_int (the w)))))])))"
proof -
  have raw: "x = RawFrame f" if "validateReadResult key x = ValidFrame f" for x f
    using that by (auto simp: validateReadResult_def Let_def split: raw_read.splits)
  show ?thesis
    by (auto simp: observes_getWithResolvedConfig [OF assms] serve_post_def retentionTtlSecFor_def
        split: sum.splits valid_read.splits option.splits dest: raw observed_watermark)
qed

text \<open>
  C6. Every Redis read, on every answer of the client, the clock and the serializer: an error can only be the
  read's own; a hit was loaded from exactly the frame the read returned and that frame's age, at a clock sample
  taken after the read, is within the fresh TTL and not negative; a retained candidate is past the fresh TTL but
  strictly inside the stale window, and is not deserialized; a miss carries a fence only if Redis returned one.
\<close>

theorem redis_read_classified:
  assumes "valid_remote lc"
  shows "observes (getWithResolvedConfig rc key lc t) (\<lambda>tr out. case out of
      Inl e \<Rightarrow> (if tr = [] then read_of key = Inl e else (\<exists>r. read_of key = Inr r \<and> tr = [(QRead r t, AThrow e)]))
    | Inr (RedisHit v f) \<Rightarrow>
        (\<exists>r now. read_of key = Inr r \<and> fresh_at f (res_ttlSec lc * 1000) now \<and>
           tr = [(QRead r t, ARead (RawFrame f)), (QDateNow, AInt now), (load_of rc key f, AVal v)])
    | Inr (RedisRetained f lc') \<Rightarrow>
        (\<exists>r now a. read_of key = Inr r \<and> lc' = lc \<and> res_staleMaxAgeSec lc = Some a \<and>
           fresh_at f (a * 1000) now \<and> \<not> fresh_at f (res_ttlSec lc * 1000) now \<and>
           tr = [(QRead r t, ARead (RawFrame f)), (QDateNow, AInt now)])
    | Inr (RedisMiss lc' m w) \<Rightarrow> lc' = lc \<and>
        (if w = None then True
         else trackForInvalidation key \<and> (\<exists>r x. tr = [(QRead r t, ARead (RawMiss x (JNum (num_of_int (the w)))))])))"
  by (rule getWithResolvedConfig_post [OF assms])

definition sample_redis :: redis_cache where
  "sample_redis = \<lparr>rc_metrics = False, rc_defaultSerializer = 0, rc_compression = None, rc_readTimeoutMs = 50,
     rc_zc = toy_zc, rc_zd = toy_zd\<rparr>"

definition sample_remote :: resolved_remote_layer where
  "sample_remote = \<lparr>res_ttlSec = 60, res_ramp = 100, res_staleMaxAgeSec = Some 120\<rparr>"

lemma sample_remote_valid: "valid_remote sample_remote"
  by (simp add: sample_remote_def valid_remote_def MAX_CACHE_TTL_SEC_def MAX_SUPPORTED_DURATION_MS_def)

theorem redis_read_classified_witness:
  "valid_remote sample_remote \<and>
   observes (getWithResolvedConfig sample_redis sample_key sample_remote 50 :: (nat, nat redis_get) cache_prog)
     (\<lambda>tr out. \<forall>v f. out = Inr (RedisHit v f) \<longrightarrow> (\<exists>now. now - frame_stamp f < 60000))"
  by (intro conjI sample_remote_valid observes_mono [OF redis_read_classified [OF sample_remote_valid]])
     (auto simp: sample_remote_def fresh_at_def)

subsection \<open>Stale recovery\<close>

lemma observes_recoverRetainedCandidate [obs]:
  assumes "1 \<le> a" "a \<le> MAX_CACHE_TTL_SEC"
  shows "observes (recoverRetainedCandidate rc key fo a) Q \<longleftrightarrow>
    (case fo of None \<Rightarrow> Q [] (Inr StaleMiss)
     | Some f \<Rightarrow>
         if \<not> isValidRedisTimestampMs (fr_createdAtMs f) then Q [] (Inr StaleMiss) else
         (\<forall>t. \<bar>t\<bar> \<le> MAX_TIME_VALUE \<longrightarrow>
            (if \<not> fresh_at f (a * 1000) t then Q [(QDateNow, AInt t)] (Inr StaleMiss)
             else (\<forall>e. Q [(QDateNow, AInt t), (load_of rc key f, AThrow e)] (Inr StaleMiss)) \<and>
               (\<forall>v t'. \<bar>t'\<bar> \<le> MAX_TIME_VALUE \<longrightarrow>
                 Q [(QDateNow, AInt t), (load_of rc key f, AVal v), (QDateNow, AInt t')]
                   (Inr (if fresh_at f (a * 1000) t' then StaleHit v else StaleMiss))))))"
proof (cases fo)
  case (Some f)
  have "cacheTtlSecToMs a = Inr (a * 1000)" using assms by (simp add: cacheTtlSecToMs_Inr)
  with Some show ?thesis
    by (auto simp: recoverRetainedCandidate_def obs age_at_def fresh_at_def load_of_def)
qed (simp add: recoverRetainedCandidate_def obs)

text \<open>
  C27. Stale recovery never throws and never touches Redis; it serves a value only if the retained frame's age was
  inside the stale window both before deserializing and again at the moment of serving, and the value is the one
  the serializer loaded from that frame.
\<close>

theorem stale_recovery_bounded:
  assumes "1 \<le> a" "a \<le> MAX_CACHE_TTL_SEC"
  shows "observes (recoverRetainedCandidate rc key fo a) (\<lambda>tr out. case out of
      Inl _ \<Rightarrow> False
    | Inr (StaleHit v) \<Rightarrow> (\<exists>f t t'. fo = Some f \<and> fresh_at f (a * 1000) t \<and> fresh_at f (a * 1000) t' \<and>
        tr = [(QDateNow, AInt t), (load_of rc key f, AVal v), (QDateNow, AInt t')])
    | Inr StaleMiss \<Rightarrow> set (map fst tr) \<subseteq> {QDateNow} \<union> load_of rc key ` set_option fo)"
  by (auto simp: observes_recoverRetainedCandidate [OF assms] split: option.splits)

definition sample_frame :: frame where
  "sample_frame = \<lparr>fr_payload = Text (js ''v''), fr_createdAtMs = JNum (num_of_int 1000)\<rparr>"

theorem stale_recovery_bounded_witness:
  "observes (recoverRetainedCandidate sample_redis sample_key (Some sample_frame) 120 :: (nat, nat stale_result) cache_prog)
     (\<lambda>tr out. \<forall>v. out = Inr (StaleHit v) \<longrightarrow> (\<exists>t. (QDateNow, AInt t) = last tr \<and> t - frame_stamp sample_frame < 120000))"
  by (rule observes_mono [OF stale_recovery_bounded [of 120 sample_redis sample_key "Some sample_frame"]])
     (auto simp: MAX_CACHE_TTL_SEC_def MAX_SUPPORTED_DURATION_MS_def fresh_at_def)

subsection \<open>Writes\<close>

text \<open>
  C5. A write, on every answer of the clock, the serializer and the client: at most one value is written, under
  the key's own frame key, with the configured retention capped at one hour for a tracked key; what is written
  is the envelope of what the serializer produced for this value; and when the miss carried an invalidation
  fence, the written timestamp is a clock sample strictly above it. \<^verbatim>\<open>true\<close> is returned exactly when a write
  was acknowledged.
\<close>

theorem redis_write_fenced:
  assumes "1 \<le> ttl" "ttl \<le> MAX_CACHE_TTL_SEC"
  shows "observes (putWithLayer rc key v ttl layer sw fence) (\<lambda>tr out.
      length (filter (\<lambda>(q, _). case q of QWrite _ \<Rightarrow> True | _ \<Rightarrow> False) tr) \<le> 1 \<and>
      (out = Inr True \<longleftrightarrow> (\<exists>w. (QWrite w, AUnit) \<in> set tr)) \<and>
      (\<forall>w a. (QWrite w, a) \<in> set tr \<longrightarrow>
         wr_valueKey w = redisKey key \<and>
         wr_cacheTtlMs w = (if trackForInvalidation key then min (ttl * 1000) 3600000 else ttl * 1000) \<and>
         (\<exists>p. (QDump (serializerFor rc key) v, APayload p) \<in> set tr \<and> enveloped rc p = Inr (wr_value w)) \<and>
         (if trackForInvalidation key \<and> fence \<noteq> None
          then (\<exists>t. wr_createdAtMs w = Some t \<and> (QDateNow, AInt t) \<in> set tr \<and> t > the fence)
          else wr_createdAtMs w = None)))"
proof -
  have ttl: "cacheTtlSecToMs ttl = Inr (ttl * 1000)" using assms by (simp add: cacheTtlSecToMs_Inr)
  show ?thesis
  proof (cases "trackForInvalidation key \<and> fence \<noteq> None")
    case True
    then obtain f where "trackForInvalidation key" "fence = Some f" by auto
    then show ?thesis
      by (auto simp: putWithLayer_def obs ttl Let_def writeTtlMs_def MAX_TRACKED_REDIS_VALUE_TTL_MS_def
          split: sum.splits)
  next
    case False
    then have "(if trackForInvalidation key then fence else None) = None" by auto
    with False show ?thesis
      by (auto simp: putWithLayer_def obs ttl Let_def writeTtlMs_def MAX_TRACKED_REDIS_VALUE_TTL_MS_def
          split: sum.splits)
  qed
qed

theorem redis_write_fenced_witness:
  "observes (putWithLayer sample_redis (sample_key\<lparr>trackForInvalidation := True\<rparr>) (7 :: nat) 7200 LayerRemote False (Some 500))
     (\<lambda>tr out. \<forall>w a. (QWrite w, a) \<in> set tr \<longrightarrow> wr_cacheTtlMs w = 3600000 \<and> (\<exists>t > 500. wr_createdAtMs w = Some t))"
  by (rule observes_mono [OF redis_write_fenced [of 7200 sample_redis "sample_key\<lparr>trackForInvalidation := True\<rparr>"
        7 LayerRemote False "Some 500"]])
     (fastforce simp: MAX_CACHE_TTL_SEC_def MAX_SUPPORTED_DURATION_MS_def)+

subsection \<open>Keys of the Redis layer\<close>

text \<open>
  For every tracked key the constructor accepts, the value key a read or write uses and the watermark key it is
  checked against carry the same Redis cluster hash tag, so the two are always on one shard; and the watermark
  key is the one an invalidation of the same namespace, key type and id advances, whatever the use case and
  the secondary dimensions.
\<close>

theorem tracked_keys_colocated:
  assumes "DialCacheKey_new init = Inr key" "trackForInvalidation key"
  shows "\<exists>tag rest wk r. 123 \<notin> set tag \<and> 125 \<notin> set tag \<and> redisKey key = 123 # tag @ 125 # rest \<and>
    wk = 123 # tag @ 125 # js ''#watermark'' \<and> read_of key = Inr r \<and> rd_watermarkKey r = Some wk \<and>
    rd_valueKey r = redisKey key \<and>
    observes (invalidate (keyType key) (keyId key) b (namespace key) :: ('v, unit) cache_prog)
      (\<lambda>tr out. \<exists>a. tr = [(QInvalidate wk b, a)])"
proof -
  from assms(1) obtain raw argText ucText where raw: "joinUrnComponents [namespace key, keyType key, keyId key] = Inr raw"
    and u: "urn key = (keyPrefix key @ argText) @ 35 # ucText"
    and pre: "keyPrefix key = (if trackForInvalidation key then 123 # raw @ [125] else raw)"
    by (rule DialCacheKey_new_shape) blast
  have wk: "redisWatermarkKey (namespace key) (keyType key) (keyId key) = Inr (123 # raw @ 125 # js ''#watermark'')"
    using assms raw
    by (auto simp: DialCacheKey_new_def Let_def res_simps redisWatermarkKey_def invalidationPrefix_def
        redisClusterHashTag_def split: if_splits)
  show ?thesis
    using assms(2) u pre key_prefix_chars(3,4) [OF raw]
    by (intro exI [of _ raw] exI [of _ "argText @ 35 # ucText @ REDIS_FRAME_KEY_SUFFIX"]
          exI [of _ "123 # raw @ 125 # js ''#watermark''"]
          exI [of _ "\<lparr>rd_valueKey = redisKey key, rd_watermarkKey = Some (123 # raw @ 125 # js ''#watermark'')\<rparr>"])
       (simp add: redisKey_def read_of_def redisWatermarkKeyFromKey_def wk invalidate_def obs)
qed

theorem tracked_keys_colocated_witness:
  "\<exists>key tag rest. DialCacheKey_new (sample_init (js ''4:2'') True) = Inr key \<and> redisKey key = 123 # tag @ 125 # rest \<and>
    (\<exists>r. read_of key = Inr r \<and> rd_watermarkKey r = Some (123 # tag @ 125 # js ''#watermark''))"
proof -
  obtain k where k: "DialCacheKey_new (sample_init (js ''4:2'') True) = Inr k"
    using DialCacheKey_new_ok sample_init_ok by blast
  then have "trackForInvalidation k"
    by (auto simp: DialCacheKey_new_def Let_def res_simps sample_init_def)
  from tracked_keys_colocated [OF k this, where b = 0 and ?'v = nat] k show ?thesis by blast
qed

end
