(* ===== verification/ReadPath.thy ===== *)
theory ReadPath
  imports RedisCacheSpec
begin

section \<open>The read path\<close>

text \<open>
  \<^verbatim>\<open>dialcache.ts\<close>, the class \<^verbatim>\<open>DialCache\<close>: one definition per method of an invocation, from
  \<open>executeCacheOperation\<close> down to the local and Redis layers, as programs over the requests of one invocation.
  A call of the application's loader is a request \<^term>\<open>QSourceStart\<close> (with the deadline it runs under) and a later
  \<^term>\<open>QSourceAwait\<close>, so that work scheduled between the two is in its place. The synchronous prefix of an
  invocation is not interleaved with others, so a flight is entered in its table before the work it names.
\<close>

record dialcache =
  dc_namespace :: jsstring
  dc_metrics :: bool
  dc_shadowMetric :: bool
  dc_redis :: "redis_cache option"
  dc_localMaxSize :: int
  dc_shadowMaxInFlight :: int
  dc_fmt :: "rat \<Rightarrow> jsstring"

record cache_options =
  opt_useCase :: jsstring
  opt_keyType :: jsstring
  opt_serializer :: "nat option"
  opt_trackForInvalidation :: "bool option"

text \<open>A stale-recovery predicate: the built-in one or the application's.\<close>

datatype stale_predicate = defaultStaleRecoveryPredicate | CustomPredicate

datatype 'v local_get = LocalHit 'v | LocalMiss resolved_layer | LocalDisabled disabled_reason

text \<open>The boolean of \<open>RemoteDisabled\<close> is \<^verbatim>\<open>skipCacheWrite\<close>.\<close>

datatype 'v remote_get = RemoteGot "'v redis_get" | RemoteError | RemoteDisabled disabled_reason bool

subsection \<open>Recording\<close>

definition dcRecordError :: "dialcache \<Rightarrow> DialCacheKey \<Rightarrow> metric_layer \<Rightarrow> error_kind \<Rightarrow> ('v, unit) cache_prog" where
  "dcRecordError dc key layer kind = metric (dc_metrics dc) (m_error (labelsFor key layer) kind False)"

definition recordInvalidLeaf :: "dialcache \<Rightarrow> DialCacheKey \<Rightarrow> metric_layer \<Rightarrow> disabled_reason \<Rightarrow> ('v, unit) cache_prog" where
  "recordInvalidLeaf dc key layer reason =
     (if reason = invalid_ttl \<or> reason = invalid_ramp then dcRecordError dc key layer config_resolution else Ret ())"

definition recordShadowOutcome :: "dialcache \<Rightarrow> DialCacheKey \<Rightarrow> shadow_outcome \<Rightarrow> ('v, unit) cache_prog" where
  "recordShadowOutcome dc key outcome =
     metric (dc_metrics dc \<and> dc_shadowMetric dc) (m_shadowValidation (keyLabels key) outcome)"

subsection \<open>Keys\<close>

definition buildKey :: "dialcache \<Rightarrow> cache_options \<Rightarrow> key_spec \<Rightarrow> key_config option \<Rightarrow> DialCacheKey res" where
  "buildKey dc options spec dflt =
     DialCacheKey_new \<lparr>init_hasUrnPrefix = False, init_keyType = opt_keyType options,
       init_id = js_String (dc_fmt dc) (spec_id spec), init_useCase = opt_useCase options,
       init_args = Some (normalizeArgs (dc_fmt dc) (case spec_args spec of None \<Rightarrow> [] | Some a \<Rightarrow> a)),
       init_namespace = Some (dc_namespace dc), init_defaultConfig = dflt,
       init_serializer = opt_serializer options,
       init_trackForInvalidation = Some (case opt_trackForInvalidation options of None \<Rightarrow> False | Some b \<Rightarrow> b)\<rparr>"

subsection \<open>The source of truth\<close>

definition startFallback :: "int option \<Rightarrow> ('v, rat) cache_prog" where
  "startFallback fallbackTimeoutMs =
     pbind perfNow (\<lambda>start. pbind (ask (QSourceStart fallbackTimeoutMs)) (\<lambda>_. Ret start))"

definition awaitSource :: "('v, 'v) cache_prog" where
  "awaitSource = pbind (ask QSourceAwait) (\<lambda>a. case a of AVal v \<Rightarrow> Ret v | _ \<Rightarrow> Thr (PlainError ''source''))"

definition settleFallback :: "dialcache \<Rightarrow> CacheMetricLabels \<Rightarrow> rat \<Rightarrow> ('v, 'v) cache_prog" where
  "settleFallback dc labels start =
     pfinally
       (pcatch awaitSource (\<lambda>e. pthen (metric (dc_metrics dc) (m_error labels fallback_failure True)) (Thr e)))
       (metric_elapsed (dc_metrics dc) start (m_observeFallback labels))"

definition callFallback :: "dialcache \<Rightarrow> CacheMetricLabels \<Rightarrow> int option \<Rightarrow> ('v, 'v) cache_prog" where
  "callFallback dc labels fallbackTimeoutMs = pbind (startFallback fallbackTimeoutMs) (settleFallback dc labels)"

definition rawFallback :: "('v, 'v) cache_prog" where
  "rawFallback = pbind (ask (QSourceStart None)) (\<lambda>_. awaitSource)"

subsection \<open>The local layer\<close>

definition localGet :: "dialcache \<Rightarrow> DialCacheKey \<Rightarrow> resolved_layer \<Rightarrow> ('v, 'v local_get) cache_prog" where
  "localGet dc key layerConfig =
     (if dc_localMaxSize dc = 0 then Ret (LocalMiss layerConfig)
      else pbind (ask (QLruGet (urn key))) (\<lambda>a.
        Ret (case a of AOpt (Some v) \<Rightarrow> LocalHit v | _ \<Rightarrow> LocalMiss layerConfig)))"

definition localPut :: "dialcache \<Rightarrow> DialCacheKey \<Rightarrow> 'v \<Rightarrow> resolved_layer \<Rightarrow> ('v, unit) cache_prog" where
  "localPut dc key v config =
     pbind (of_res (cacheTtlSecToMs (res_ttlSec config))) (\<lambda>ms.
     if dc_localMaxSize dc = 0 then Ret ()
     else pbind (ask (QLruSet (urn key) v (ms - 1))) (\<lambda>_. Ret ()))"

definition resolveLocalLayerConfig ::
  "dialcache \<Rightarrow> DialCacheKey \<Rightarrow> key_config option \<Rightarrow> ('v, resolved_layer layer_resolution) cache_prog" where
  "resolveLocalLayerConfig dc key keyConfig =
     (let report = (\<lambda>reason. pthen (metric (dc_metrics dc) (m_disabled (labelsFor key LayerLocal) reason))
                               (recordInvalidLeaf dc key LayerLocal reason))
      in
      pcatch
        (pbind (Ret (resolveLayerConfigResult keyConfig key LOCAL)) (\<lambda>result.
         pthen (case result of LayerEnabled _ \<Rightarrow> Ret () | LayerRampedDown _ \<Rightarrow> report ramped_down
                | LayerDisabled reason \<Rightarrow> report reason)
           (Ret result)))
        (\<lambda>e. pthen (logMsg LogError ''Error resolving local cache config'')
             (pthen (dcRecordError dc key LayerLocal config_resolution)
             (pthen (metric (dc_metrics dc) (m_disabled (labelsFor key LayerLocal) config_error))
              (Ret (LayerDisabled config_error))))))"

definition readLocalWithResolvedConfig ::
  "dialcache \<Rightarrow> DialCacheKey \<Rightarrow> resolved_layer \<Rightarrow> ('v, 'v local_get) cache_prog" where
  "readLocalWithResolvedConfig dc key layerConfig =
     pbind perfNow (\<lambda>start.
     pcatch
       (pbind (localGet dc key layerConfig) (\<lambda>result.
        pthen (metric (dc_metrics dc) (m_request (labelsFor key LayerLocal)))
        (pthen (metric_elapsed (dc_metrics dc) start (m_observeGet (labelsFor key LayerLocal)))
        (pthen (case result of LocalMiss _ \<Rightarrow> metric (dc_metrics dc) (m_miss (labelsFor key LayerLocal) value_absent) | _ \<Rightarrow> Ret ())
         (Ret result)))))
       (\<lambda>e. pthen (logMsg LogError ''Error getting value from local cache'')
            (pthen (dcRecordError dc key LayerLocal cache_read)
            (pthen (metric (dc_metrics dc) (m_disabled (labelsFor key LayerLocal) config_error))
             (Ret (LocalDisabled config_error))))))"

definition putLocalFailOpen :: "dialcache \<Rightarrow> DialCacheKey \<Rightarrow> 'v \<Rightarrow> resolved_layer \<Rightarrow> ('v, unit) cache_prog" where
  "putLocalFailOpen dc key v config =
     pcatch (localPut dc key v config)
       (\<lambda>e. pthen (logMsg LogWarn ''Error putting value in local cache'') (dcRecordError dc key LayerLocal cache_write))"

text \<open>\<^verbatim>\<open>if (local.status === "miss") await this.putLocalFailOpen(...)\<close>.\<close>

definition publishLocal :: "dialcache \<Rightarrow> DialCacheKey \<Rightarrow> 'v \<Rightarrow> 'v local_get \<Rightarrow> ('v, unit) cache_prog" where
  "publishLocal dc key v l = (case l of LocalMiss c \<Rightarrow> putLocalFailOpen dc key v c | _ \<Rightarrow> Ret ())"

definition finishLocalOnly ::
  "dialcache \<Rightarrow> DialCacheKey \<Rightarrow> 'v local_get \<Rightarrow> int option \<Rightarrow> ('v, 'v) cache_prog" where
  "finishLocalOnly dc key l fallbackTimeoutMs =
     pbind (callFallback dc (labelsFor key LayerLocal) fallbackTimeoutMs) (\<lambda>v.
     pthen (publishLocal dc key v l) (Ret v))"

subsection \<open>Shadow admission\<close>

definition resolveShadowLogging ::
  "dialcache \<Rightarrow> DialCacheKey \<Rightarrow> jsval \<Rightarrow> ('v, (bool \<times> diff_level) option) cache_prog" where
  "resolveShadowLogging dc key shadowConfig =
     (let r = resolveMismatchLogging shadowConfig in
      pthen (if log_invalid r then dcRecordError dc key LayerRemote config_resolution else Ret ())
        (Ret (if log_value r \<or> log_diff r \<noteq> DiffOff then Some (log_value r, log_diff r) else None)))"

definition scheduleShadowValidation ::
  "dialcache \<Rightarrow> DialCacheKey \<Rightarrow> key_config option \<Rightarrow> shadow_start \<Rightarrow> ('v, unit) cache_prog" where
  "scheduleShadowValidation dc key keyConfig start =
     (let shadowConfig = (case keyConfig of None \<Rightarrow> JUndef | Some c \<Rightarrow> shadow c);
          shadowPercentage = get_prop shadowConfig ''ramp''
      in
      if \<not> is_plain_object shadowConfig then
        (if shadowConfig \<noteq> JUndef then dcRecordError dc key LayerRemote config_resolution else Ret ())
      else if shadowPercentage = JUndef \<or> shadowPercentage = JNum (Fin 0) then Ret ()
      else if \<not> num_in_0_100 shadowPercentage then dcRecordError dc key LayerRemote config_resolution
      else if \<not> (dc_metrics dc \<and> dc_shadowMetric dc) then Ret ()
      else if rat_of_val shadowPercentage < 100 \<and> deterministicShadowRampSample key \<ge> rat_of_val shadowPercentage then Ret ()
      else
        pbind (ask (QShadowTable (urn key))) (\<lambda>a.
        if (case a of ATable present n \<Rightarrow> present \<or> int n \<ge> dc_shadowMaxInFlight dc | _ \<Rightarrow> True)
        then recordShadowOutcome dc key sv_dropped
        else
          pbind (resolveShadowLogging dc key shadowConfig) (\<lambda>logPlan.
          pbind (case start of StartRedis _ (Some t) \<Rightarrow> Ret t | _ \<Rightarrow> perfNow) (\<lambda>startedAtMs.
          pbind (ask (QShadowStart (urn key) start startedAtMs logPlan)) (\<lambda>_. Ret ())))))"

subsection \<open>The remote layer\<close>

text \<open>The boolean of the result is \<^verbatim>\<open>skipCacheWrite\<close>.\<close>

definition resolveRemoteLayerConfig ::
  "dialcache \<Rightarrow> DialCacheKey \<Rightarrow> key_config option \<Rightarrow> ('v, resolved_remote_layer layer_resolution \<times> bool) cache_prog" where
  "resolveRemoteLayerConfig dc key keyConfig =
     (let report = (\<lambda>reason. pthen (metric (dc_metrics dc) (m_disabled (labelsFor key LayerRemote) reason))
                               (recordInvalidLeaf dc key LayerRemote reason))
      in
      pcatch
        (pbind (Ret (resolveRemoteLayerConfigResult keyConfig key)) (\<lambda>(result, staleOnErrorConfigError).
         pthen (if staleOnErrorConfigError then dcRecordError dc key LayerRemote config_resolution else Ret ())
         (pthen (case result of LayerEnabled _ \<Rightarrow> Ret () | LayerRampedDown _ \<Rightarrow> report ramped_down
                 | LayerDisabled reason \<Rightarrow> report reason)
           (Ret (result, False)))))
        (\<lambda>e. pthen (logMsg LogWarn ''Error resolving Redis cache config'')
             (pthen (dcRecordError dc key LayerRemote config_resolution)
             (pthen (metric (dc_metrics dc) (m_disabled (labelsFor key LayerRemote) config_error))
              (Ret (LayerDisabled config_error, trackForInvalidation key))))))"

definition readRemoteWithResolvedConfig ::
  "redis_cache \<Rightarrow> DialCacheKey \<Rightarrow> resolved_remote_layer \<Rightarrow> int \<Rightarrow> ('v, 'v remote_get) cache_prog" where
  "readRemoteWithResolvedConfig rc key layerConfig readTimeoutMs =
     pcatch (pbind (getWithResolvedConfig rc key layerConfig readTimeoutMs) (\<lambda>r. Ret (RemoteGot r)))
       (\<lambda>e. pthen (logMsg LogWarn ''Error getting value from Redis cache'') (Ret RemoteError))"

definition remoteTimeoutFor :: "redis_cache \<Rightarrow> key_config option \<Rightarrow> int" where
  "remoteTimeoutFor rc keyConfig =
     (case keyConfig of None \<Rightarrow> rc_readTimeoutMs rc
      | Some c \<Rightarrow> (case remoteReadTimeoutMs c of None \<Rightarrow> rc_readTimeoutMs rc | Some t \<Rightarrow> t))"

definition shouldAttemptStaleRecovery :: "stale_predicate \<Rightarrow> jserror \<Rightarrow> ('v, bool) cache_prog" where
  "shouldAttemptStaleRecovery predicate fallbackError =
     (case predicate of
        defaultStaleRecoveryPredicate \<Rightarrow> Ret (case fallbackError of FallbackTimeoutError _ _ \<Rightarrow> True | _ \<Rightarrow> False)
      | CustomPredicate \<Rightarrow>
          pbind (attempt (ask (QStalePredicate fallbackError))) (\<lambda>r. case r of
            Inl e \<Rightarrow> pthen (logMsg LogWarn ''DialCache stale recovery predicate threw; recovery was denied'') (Ret False)
          | Inr (ABool b) \<Rightarrow> Ret b
          | Inr _ \<Rightarrow> pthen (logMsg LogWarn ''DialCache stale recovery predicate returned a non-boolean; recovery was denied'')
                       (Ret False)))"

definition finishRampedDownRemote ::
  "dialcache \<Rightarrow> DialCacheKey \<Rightarrow> key_config option \<Rightarrow> 'v local_get option \<Rightarrow> resolved_remote_layer \<Rightarrow>
   CacheMetricLabels \<Rightarrow> int option \<Rightarrow> ('v, 'v) cache_prog" where
  "finishRampedDownRemote dc key keyConfig l remoteConfig fallbackLabels fallbackTimeoutMs =
     (let configured = (case keyConfig of None \<Rightarrow> JUndef | Some c \<Rightarrow> get_prop (shadow c) ''ramp'') in
      pbind (if configured = JUndef \<or> configured = JNum (Fin 0) then Ret None else pbind perfNow (\<lambda>t. Ret (Some t)))
        (\<lambda>shadowStartedAtMs.
      pbind (startFallback fallbackTimeoutMs) (\<lambda>start.
      pthen (scheduleShadowValidation dc key keyConfig (StartRedis remoteConfig shadowStartedAtMs))
      (pbind (settleFallback dc fallbackLabels start) (\<lambda>v.
       pthen (case l of Some l' \<Rightarrow> publishLocal dc key v l' | None \<Rightarrow> Ret ()) (Ret v))))))"

text \<open>The source call of \<open>finishRedisChain\<close> with its stale recovery; \<open>Inl\<close> the rejection it rethrows.\<close>

definition fallbackOrStale ::
  "dialcache \<Rightarrow> redis_cache \<Rightarrow> DialCacheKey \<Rightarrow> metric_layer \<Rightarrow> int option \<Rightarrow> frame option \<Rightarrow> stale_predicate \<Rightarrow>
   int option \<Rightarrow> ('v, bool \<times> 'v) cache_prog" where
  "fallbackOrStale dc rc key fallbackLayer staleRecoveryMaxAgeSec retainedFrame predicate fallbackTimeoutMs =
     pcatch (pbind (callFallback dc (labelsFor key fallbackLayer) fallbackTimeoutMs) (\<lambda>v. Ret (True, v)))
       (\<lambda>fallbackError. case staleRecoveryMaxAgeSec of
          None \<Rightarrow> Thr fallbackError
        | Some maxAge \<Rightarrow>
            pbind (shouldAttemptStaleRecovery predicate fallbackError) (\<lambda>allowed.
            if \<not> allowed then Thr fallbackError
            else
              pbind (pcatch (recoverRetainedCandidate rc key retainedFrame maxAge)
                       (\<lambda>_. pthen (logMsg LogWarn ''Error using retained Redis value during stale recovery'') (Ret StaleMiss)))
                (\<lambda>recovered. case recovered of StaleHit v \<Rightarrow> Ret (False, v) | StaleMiss \<Rightarrow> Thr fallbackError)))"

definition finishRedisChain ::
  "dialcache \<Rightarrow> redis_cache \<Rightarrow> DialCacheKey \<Rightarrow> key_config option \<Rightarrow> 'v local_get \<Rightarrow> 'v remote_get \<Rightarrow>
   stale_predicate \<Rightarrow> int option \<Rightarrow> ('v, 'v) cache_prog" where
  "finishRedisChain dc rc key keyConfig l remote predicate fallbackTimeoutMs =
     (case remote of
        RemoteGot (RedisHit v f) \<Rightarrow>
          pthen (publishLocal dc key v l)
          (pthen (scheduleShadowValidation dc key keyConfig (StartRetained f)) (Ret v))
      | RemoteError \<Rightarrow>
          pbind (callFallback dc (labelsFor key LayerRemote) fallbackTimeoutMs) (\<lambda>v.
          pthen (if trackForInvalidation key then Ret () else publishLocal dc key v l) (Ret v))
      | _ \<Rightarrow>
          let remoteWriteConfig = (case remote of RemoteGot (RedisMiss c _ _) \<Rightarrow> Some c | RemoteGot (RedisRetained _ c) \<Rightarrow> Some c | _ \<Rightarrow> None);
              fallbackLayer =
                (case remote of RemoteDisabled reason _ \<Rightarrow> if reason = config_error then LayerRemote else LayerLocal | _ \<Rightarrow> LayerRemote);
              staleRecoveryMaxAgeSec =
                (case remote of RemoteGot (RedisRetained _ c) \<Rightarrow> res_staleMaxAgeSec c
                 | RemoteGot (RedisMiss c cache_miss _) \<Rightarrow> res_staleMaxAgeSec c | _ \<Rightarrow> None);
              retainedFrame = (case remote of RemoteGot (RedisRetained f _) \<Rightarrow> Some f | _ \<Rightarrow> None);
              observedWatermarkMs = (case remote of RemoteGot (RedisMiss _ _ w) \<Rightarrow> w | _ \<Rightarrow> None);
              suppressLocalWrite =
                ((case remote of RemoteDisabled _ skip \<Rightarrow> skip | _ \<Rightarrow> False) \<or> (remoteWriteConfig \<noteq> None \<and> trackForInvalidation key))
          in
          pbind (fallbackOrStale dc rc key fallbackLayer staleRecoveryMaxAgeSec retainedFrame predicate fallbackTimeoutMs)
            (\<lambda>(fromSource, v).
          if \<not> fromSource then Ret v else
          pthen (case remoteWriteConfig of None \<Rightarrow> Ret ()
                 | Some c \<Rightarrow> pcatch (put rc key v c observedWatermarkMs)
                               (\<lambda>e. logMsg LogWarn ''Error putting value in Redis cache''))
          (pthen (if suppressLocalWrite then Ret () else publishLocal dc key v l) (Ret v))))"

subsection \<open>Single flights\<close>

text \<open>One invocation's view of the two flight tables; the tables themselves are the subject of theory
  \<^verbatim>\<open>Coalescing\<close>.\<close>

definition joined :: "'v ans \<Rightarrow> ('v, 'v) cache_prog" where
  "joined a = (case a of AVal v \<Rightarrow> Ret v | _ \<Rightarrow> Thr (PlainError ''flight''))"

definition singleFlightRequestLocal :: "dialcache \<Rightarrow> DialCacheKey \<Rightarrow> ('v, 'v) cache_prog \<Rightarrow> ('v, 'v) cache_prog" where
  "singleFlightRequestLocal dc key run =
     pbind (ask (QRlLookup (urn key))) (\<lambda>a.
     if a = ABool True then
       pthen (metric (dc_metrics dc) (m_coalesced (keyLabels key) scope_request_local))
         (pbind (ask (QRlAwait (urn key))) joined)
     else
       pbind (ask (QRlRegister (urn key))) (\<lambda>_.
       pfinally run (pbind (ask (QRlClear (urn key))) (\<lambda>_. Ret ()))))"

definition singleFlightProcess :: "dialcache \<Rightarrow> DialCacheKey \<Rightarrow> ('v, 'v) cache_prog \<Rightarrow> ('v, 'v) cache_prog" where
  "singleFlightProcess dc key run =
     pbind (ask (QProcLookup (urn key))) (\<lambda>a.
     if a = ABool True then
       pthen (metric (dc_metrics dc) (m_coalesced (keyLabels key) scope_process))
         (pbind (ask (QProcAwait (urn key))) joined)
     else
       pbind perfNow (\<lambda>startedAtMs.
       pbind (ask (QProcRegister (urn key) startedAtMs)) (\<lambda>_.
       pfinally run (pbind (ask (QProcClear (urn key))) (\<lambda>_. Ret ())))))"

subsection \<open>The cache chain\<close>

definition getThroughActiveLocal ::
  "dialcache \<Rightarrow> DialCacheKey \<Rightarrow> key_config option \<Rightarrow> resolved_layer \<Rightarrow> stale_predicate \<Rightarrow> int option \<Rightarrow> ('v, 'v) cache_prog" where
  "getThroughActiveLocal dc key keyConfig localConfig predicate fallbackTimeoutMs =
     pbind (readLocalWithResolvedConfig dc key localConfig) (\<lambda>l.
     case l of LocalHit v \<Rightarrow> Ret v
     | _ \<Rightarrow>
       (case dc_redis dc of
          None \<Rightarrow> finishLocalOnly dc key l fallbackTimeoutMs
        | Some rc \<Rightarrow>
            pbind (resolveRemoteLayerConfig dc key keyConfig) (\<lambda>(remoteLayer, skipCacheWrite).
            case remoteLayer of
              LayerRampedDown c \<Rightarrow>
                finishRampedDownRemote dc key keyConfig (Some l) c (labelsFor key LayerLocal) fallbackTimeoutMs
            | LayerDisabled reason \<Rightarrow>
                finishRedisChain dc rc key keyConfig l (RemoteDisabled reason skipCacheWrite) predicate fallbackTimeoutMs
            | LayerEnabled c \<Rightarrow>
                pbind (readRemoteWithResolvedConfig rc key c (remoteTimeoutFor rc keyConfig)) (\<lambda>remote.
                finishRedisChain dc rc key keyConfig l remote predicate fallbackTimeoutMs))))"

definition coalesces :: "key_config option \<Rightarrow> bool" where
  "coalesces keyConfig \<longleftrightarrow> (case keyConfig of None \<Rightarrow> True | Some c \<Rightarrow> coalesce c \<noteq> Some False)"

definition disabled_of :: "'c layer_resolution \<Rightarrow> disabled_reason" where
  "disabled_of r = (case r of LayerDisabled reason \<Rightarrow> reason | _ \<Rightarrow> ramped_down)"

definition getThroughSharedLayers ::
  "dialcache \<Rightarrow> DialCacheKey \<Rightarrow> key_config option \<Rightarrow> stale_predicate \<Rightarrow> int option \<Rightarrow> metric_layer \<Rightarrow> ('v, 'v) cache_prog" where
  "getThroughSharedLayers dc key keyConfig predicate fallbackTimeoutMs fallbackMetricLayer =
     (let single = (\<lambda>run. if coalesces keyConfig then singleFlightProcess dc key run else run) in
      pbind (resolveLocalLayerConfig dc key keyConfig) (\<lambda>localLayer.
      case localLayer of
        LayerEnabled localConfig \<Rightarrow>
          single (getThroughActiveLocal dc key keyConfig localConfig predicate fallbackTimeoutMs)
      | _ \<Rightarrow>
        (case dc_redis dc of
           None \<Rightarrow> callFallback dc (labelsFor key fallbackMetricLayer) fallbackTimeoutMs
         | Some rc \<Rightarrow>
             pbind (resolveRemoteLayerConfig dc key keyConfig) (\<lambda>(remoteLayer, skipCacheWrite).
             case remoteLayer of
               LayerDisabled reason \<Rightarrow>
                 callFallback dc (labelsFor key (if reason = config_error then LayerRemote else fallbackMetricLayer)) fallbackTimeoutMs
             | LayerRampedDown c \<Rightarrow>
                 finishRampedDownRemote dc key keyConfig None c (labelsFor key fallbackMetricLayer) fallbackTimeoutMs
             | LayerEnabled c \<Rightarrow>
                 single
                   (pbind (readRemoteWithResolvedConfig rc key c (remoteTimeoutFor rc keyConfig)) (\<lambda>remote.
                    finishRedisChain dc rc key keyConfig (LocalDisabled (disabled_of localLayer)) remote predicate fallbackTimeoutMs))))))"

definition requestLocalRun ::
  "dialcache \<Rightarrow> DialCacheKey \<Rightarrow> key_config option \<Rightarrow> stale_predicate \<Rightarrow> int option \<Rightarrow> ('v, 'v) cache_prog" where
  "requestLocalRun dc key keyConfig predicate fallbackTimeoutMs =
     pbind perfNow (\<lambda>start.
     pbind (ask (QRlRead (urn key))) (\<lambda>result.
     pthen (metric (dc_metrics dc) (m_request (labelsFor key LayerRequestLocal)))
     (pthen (metric_elapsed (dc_metrics dc) start (m_observeGet (labelsFor key LayerRequestLocal)))
     (case result of
        AOpt (Some v) \<Rightarrow> Ret v
      | _ \<Rightarrow>
          pthen (metric (dc_metrics dc) (m_miss (labelsFor key LayerRequestLocal) value_absent))
          (pbind (getThroughSharedLayers dc key keyConfig predicate fallbackTimeoutMs LayerRequestLocal) (\<lambda>v.
           pbind (ask (QRlSet (urn key) v)) (\<lambda>_. Ret v)))))))"

definition getThroughRequestLocal ::
  "dialcache \<Rightarrow> DialCacheKey \<Rightarrow> key_config option \<Rightarrow> stale_predicate \<Rightarrow> int option \<Rightarrow> ('v, 'v) cache_prog" where
  "getThroughRequestLocal dc key keyConfig predicate fallbackTimeoutMs =
     (let run = requestLocalRun dc key keyConfig predicate fallbackTimeoutMs in
      if coalesces keyConfig then singleFlightRequestLocal dc key run else run)"

definition executeCacheOperation ::
  "dialcache \<Rightarrow> cache_options \<Rightarrow> key_config option \<Rightarrow> int option \<Rightarrow> stale_predicate \<Rightarrow> ('v, 'v) cache_prog" where
  "executeCacheOperation dc options dflt fallbackTimeoutMs predicate =
     (let noLayerLabels = \<lparr>lb_namespace = dc_namespace dc, lb_useCase = opt_useCase options,
                           lb_keyType = opt_keyType options, lb_layer = LayerNone\<rparr>
      in
      pbind (ask QIsEnabled) (\<lambda>enabled.
      if enabled \<noteq> ABool True then
        pthen (metric (dc_metrics dc) (m_disabled noLayerLabels context_disabled)) rawFallback
      else
      pbind (attempt (pbind (ask QSelectKey) (\<lambda>a. case a of
               ASpec spec \<Rightarrow> of_res (buildKey dc options spec dflt) | _ \<Rightarrow> Thr (PlainError ''key'')))) (\<lambda>k. case k of
        Inl e \<Rightarrow>
          pthen (logMsg LogError ''Could not construct DialCache key'')
          (pthen (metric (dc_metrics dc) (m_error noLayerLabels key_construction False))
           (callFallback dc noLayerLabels fallbackTimeoutMs))
      | Inr key \<Rightarrow>
      pbind (attempt (pbind (ask (QProvider key)) (\<lambda>a. case a of
               AProvided c \<Rightarrow> of_res (fetchKeyConfig (defaultConfig key) c) | _ \<Rightarrow> Thr (PlainError ''config'')))) (\<lambda>c. case c of
        Inl e \<Rightarrow>
          pthen (logMsg LogWarn ''Could not resolve DialCache key config'')
          (pthen (dcRecordError dc key LayerNone config_resolution)
          (pthen (metric (dc_metrics dc) (m_disabled noLayerLabels config_error))
           (callFallback dc noLayerLabels fallbackTimeoutMs)))
      | Inr keyConfig \<Rightarrow>
      pbind (ask QIsEnabled) (\<lambda>stillEnabled.
      if stillEnabled \<noteq> ABool True then
        pthen (metric (dc_metrics dc) (m_disabled noLayerLabels context_disabled))
          (callFallback dc noLayerLabels fallbackTimeoutMs)
      else
      pbind (if (case keyConfig of None \<Rightarrow> False | Some kc \<Rightarrow> requestLocal kc = Some True)
             then ask QRequestLocal else Ret (ABool False)) (\<lambda>requestLocalCache.
      if requestLocalCache = ABool True
      then getThroughRequestLocal dc key keyConfig predicate fallbackTimeoutMs
      else getThroughSharedLayers dc key keyConfig predicate fallbackTimeoutMs LayerLocal))))))"

subsection \<open>Invalidation\<close>

definition invalidateRemote :: "dialcache \<Rightarrow> jsstring \<Rightarrow> arg_value \<Rightarrow> jsval \<Rightarrow> ('v, unit) cache_prog" where
  "invalidateRemote dc kt i futureBufferMs =
     (let buffer = (if futureBufferMs = JUndef then JNum (Fin 0) else futureBufferMs) in
      pbind (of_res (assertSupportedFutureBufferMs buffer)) (\<lambda>_.
      pthen (metric (dc_metrics dc) (m_invalidation (dc_namespace dc) kt LayerRemote))
      (pcatch
        (case dc_redis dc of
           None \<Rightarrow> Thr (TypeError ''DialCache invalidateRemote requires a configured Redis client'')
         | Some rc \<Rightarrow> invalidate kt (js_String (dc_fmt dc) i) (int_of_val buffer) (dc_namespace dc))
        (\<lambda>e. pthen (logMsg LogWarn ''Error writing DialCache invalidation watermark'')
             (pthen (metric (dc_metrics dc)
                (m_error \<lparr>lb_namespace = dc_namespace dc, lb_useCase = js ''watermark'', lb_keyType = kt,
                          lb_layer = LayerRemote\<rparr> invalidation_failure False))
              (Thr e))))))"

end
