(* ===== verification/ReadPathSpec.thy ===== *)
theory ReadPathSpec
  imports ReadPath
begin

section \<open>What an invocation guarantees\<close>

text \<open>
  Properties of every run of \<open>executeCacheOperation\<close>, whatever the caches, the application's callbacks and the
  other invocations answer: exact behaviour of the small methods, a contract for the cache chain proved method
  by method, and the guarantees of a whole invocation.
\<close>

subsection \<open>Sequencing rules for contracts\<close>

lemma observes_mono2:
  assumes "observes p P" "observes p P'" "\<And>tr out. P tr out \<Longrightarrow> P' tr out \<Longrightarrow> Q tr out"
  shows "observes p Q"
proof -
  have "observes p (\<lambda>tr out. P tr out \<and> P' tr out)" using assms(1,2) by (simp only: observes_conj)
  then show ?thesis by (rule observes_mono) (use assms(3) in blast)
qed

lemma observes_bindI:
  assumes "observes p P" "\<And>tr x. P tr (Inr x) \<Longrightarrow> observes (f x) (\<lambda>tr'. Q (tr @ tr'))"
    and "\<And>tr e. P tr (Inl e) \<Longrightarrow> Q tr (Inl e)"
  shows "observes (pbind p f) Q"
  unfolding observes_pbind by (rule observes_mono [OF assms(1)]) (auto split: sum.split intro: assms(2,3))

lemma observes_catchI:
  assumes "observes p P" "\<And>tr e. P tr (Inl e) \<Longrightarrow> observes (h e) (\<lambda>tr'. Q (tr @ tr'))"
    and "\<And>tr x. P tr (Inr x) \<Longrightarrow> Q tr (Inr x)"
  shows "observes (pcatch p h) Q"
  unfolding observes_pcatch by (rule observes_mono [OF assms(1)]) (auto split: sum.split intro: assms(2,3))

lemma observes_finallyI:
  assumes "observes p P" "\<And>tr out. P tr out \<Longrightarrow> observes f (\<lambda>tr' out'. Q (tr @ tr') (case out' of Inl e \<Rightarrow> Inl e | Inr _ \<Rightarrow> out))"
  shows "observes (pfinally p f) Q"
  unfolding observes_pfinally by (rule observes_mono [OF assms(1)]) (rule assms(2))

subsection \<open>Exact behaviour of the small methods\<close>

lemma observes_recording [obs]:
  "observes (dcRecordError dc key l k) Q \<longleftrightarrow> Q [] (Inr ())"
  "observes (recordInvalidLeaf dc key l r) Q \<longleftrightarrow> Q [] (Inr ())"
  "observes (recordShadowOutcome dc key out) Q \<longleftrightarrow> Q [] (Inr ())"
  by (simp_all add: dcRecordError_def recordInvalidLeaf_def recordShadowOutcome_def obs)

lemma observes_startFallback [obs]:
  "observes (startFallback t) Q \<longleftrightarrow> (\<forall>s. Q [(QSourceStart t, AUnit)] (Inr s))"
  by (simp add: startFallback_def obs)

lemma observes_awaitSource [obs]:
  "observes awaitSource Q \<longleftrightarrow>
   (\<forall>v. Q [(QSourceAwait, AVal v)] (Inr v)) \<and> (\<forall>e. Q [(QSourceAwait, AThrow e)] (Inl e))"
  by (simp add: awaitSource_def obs)

lemma observes_settleFallback [obs]:
  "observes (settleFallback dc labels s) Q \<longleftrightarrow>
   (\<forall>v. Q [(QSourceAwait, AVal v)] (Inr v)) \<and> (\<forall>e. Q [(QSourceAwait, AThrow e)] (Inl e))"
  by (simp add: settleFallback_def obs)

lemma observes_callFallback [obs]:
  "observes (callFallback dc labels t) Q \<longleftrightarrow>
   (\<forall>v. Q [(QSourceStart t, AUnit), (QSourceAwait, AVal v)] (Inr v)) \<and>
   (\<forall>e. Q [(QSourceStart t, AUnit), (QSourceAwait, AThrow e)] (Inl e))"
  by (simp add: callFallback_def obs)

lemma callFallback_post:
  "observes (callFallback dc labels t) (\<lambda>tr out. case out of
     Inl e \<Rightarrow> tr = [(QSourceStart t, AUnit), (QSourceAwait, AThrow e)]
   | Inr v \<Rightarrow> tr = [(QSourceStart t, AUnit), (QSourceAwait, AVal v)])"
  by (simp add: obs)

lemma observes_rawFallback [obs]:
  "observes rawFallback Q \<longleftrightarrow>
   (\<forall>v. Q [(QSourceStart None, AUnit), (QSourceAwait, AVal v)] (Inr v)) \<and>
   (\<forall>e. Q [(QSourceStart None, AUnit), (QSourceAwait, AThrow e)] (Inl e))"
  by (simp add: rawFallback_def obs)

lemma observes_readLocalWithResolvedConfig [obs]:
  "observes (readLocalWithResolvedConfig dc key c) Q \<longleftrightarrow>
   (if dc_localMaxSize dc = 0 then Q [] (Inr (LocalMiss c))
    else (\<forall>v. Q [(QLruGet (urn key), AOpt (Some v))] (Inr (LocalHit v))) \<and>
         Q [(QLruGet (urn key), AOpt None)] (Inr (LocalMiss c)) \<and>
         (\<forall>e. Q [(QLruGet (urn key), AThrow e)] (Inr (LocalDisabled config_error))))"
  by (auto simp: readLocalWithResolvedConfig_def localGet_def obs split_option_all)

lemma observes_putLocalFailOpen [obs]:
  "observes (putLocalFailOpen dc key v c) Q \<longleftrightarrow>
   (case cacheTtlSecToMs (res_ttlSec c) of Inl e \<Rightarrow> Q [] (Inr ())
    | Inr ms \<Rightarrow> if dc_localMaxSize dc = 0 then Q [] (Inr ())
        else Q [(QLruSet (urn key) v (ms - 1), AUnit)] (Inr ()) \<and>
             (\<forall>e. Q [(QLruSet (urn key) v (ms - 1), AThrow e)] (Inr ())))"
  by (cases "cacheTtlSecToMs (res_ttlSec c)") (simp_all add: putLocalFailOpen_def localPut_def obs)

lemma observes_resolveLocalLayerConfig [obs]:
  "observes (resolveLocalLayerConfig dc key c) Q \<longleftrightarrow> Q [] (Inr (resolveLayerConfigResult c key LOCAL))"
  by (cases "resolveLayerConfigResult c key LOCAL") (simp_all add: resolveLocalLayerConfig_def Let_def obs)

lemma observes_resolveRemoteLayerConfig [obs]:
  "observes (resolveRemoteLayerConfig dc key c) Q \<longleftrightarrow> Q [] (Inr (fst (resolveRemoteLayerConfigResult c key), False))"
proof -
  obtain r b where "resolveRemoteLayerConfigResult c key = (r, b)" by fastforce
  then show ?thesis
    by (cases r) (simp_all add: resolveRemoteLayerConfig_def Let_def obs)
qed

lemma observes_resolveShadowLogging [obs]:
  "observes (resolveShadowLogging dc key c) Q \<longleftrightarrow>
   Q [] (Inr (let r = resolveMismatchLogging c in
     if log_value r \<or> log_diff r \<noteq> DiffOff then Some (log_value r, log_diff r) else None))"
  by (simp add: resolveShadowLogging_def Let_def obs)

subsection \<open>Contracts\<close>

text \<open>Traces that consist of requests of one kind.\<close>

definition only :: "('v req \<Rightarrow> bool) \<Rightarrow> ('v req, 'v ans) trace \<Rightarrow> bool" where
  "only P tr \<longleftrightarrow> (\<forall>q a. (q, a) \<in> set tr \<longrightarrow> P q)"

lemma only_simps [simp]:
  "only P []" "only P ((q, a) # tr) \<longleftrightarrow> P q \<and> only P tr" "only P (tr @ tr') \<longleftrightarrow> only P tr \<and> only P tr'"
  by (auto simp: only_def)

definition starts :: "('v req, 'v ans) trace \<Rightarrow> nat" where
  "starts tr = length (filter (\<lambda>(q, _). case q of QSourceStart _ \<Rightarrow> True | _ \<Rightarrow> False) tr)"

lemma starts_simps [simp]:
  "starts [] = 0" "starts (tr @ tr') = starts tr + starts tr'"
  "starts ((q, a) # tr) = (case q of QSourceStart _ \<Rightarrow> Suc (starts tr) | _ \<Rightarrow> starts tr)"
  by (simp_all add: starts_def split: req.split)

definition shadow_request :: "DialCacheKey \<Rightarrow> 'v req \<Rightarrow> bool" where
  "shadow_request key q \<longleftrightarrow> (case q of QShadowTable u \<Rightarrow> u = urn key | QShadowStart u _ _ _ \<Rightarrow> u = urn key | _ \<Rightarrow> False)"

definition put_request :: "redis_cache \<Rightarrow> DialCacheKey \<Rightarrow> 'v \<Rightarrow> 'v req \<Rightarrow> bool" where
  "put_request rc key v q \<longleftrightarrow>
     (case q of QDateNow \<Rightarrow> True | QDump s v' \<Rightarrow> s = serializerFor rc key \<and> v' = v
      | QWrite w \<Rightarrow> wr_valueKey w = redisKey key | _ \<Rightarrow> False)"

lemma only_starts: "only P tr \<Longrightarrow> (\<And>t. \<not> P (QSourceStart t)) \<Longrightarrow> starts tr = 0"
  by (induction tr) (auto split: req.split)

text \<open>Shadow admission never fails its caller and only touches the shadow table, under the caller's URN.\<close>

lemma scheduleShadowValidation_post:
  "observes (scheduleShadowValidation dc key c st) (\<lambda>tr out. out = Inr () \<and> only (shadow_request key) tr)"
  by (auto simp: scheduleShadowValidation_def Let_def obs shadow_request_def split: shadow_start.split option.split)

lemma put_post:
  assumes "valid_remote lc"
  shows "observes (put rc key v lc w) (\<lambda>tr out. only (put_request rc key v) tr)"
  by (auto simp: put_def putWithLayer_def obs valid_remote_ttl [OF assms] Let_def put_request_def
      split: sum.splits option.split)

subsection \<open>The contract of a cache chain\<close>

definition joined_flight :: "DialCacheKey \<Rightarrow> 'v req \<Rightarrow> bool" where
  "joined_flight key q \<longleftrightarrow> q = QRlAwait (urn key) \<or> q = QProcAwait (urn key)"

text \<open>Where a result may come from.\<close>

definition rejected_by :: "DialCacheKey \<Rightarrow> ('v req, 'v ans) trace \<Rightarrow> jserror \<Rightarrow> bool" where
  "rejected_by key tr e \<longleftrightarrow>
     (QSourceAwait, AThrow e) \<in> set tr \<or> (\<exists>q. joined_flight key q \<and> (q, AThrow e) \<in> set tr)"

definition cached_value :: "DialCacheKey \<Rightarrow> ('v req, 'v ans) trace \<Rightarrow> 'v \<Rightarrow> bool" where
  "cached_value key tr v \<longleftrightarrow>
     (QLruGet (urn key), AOpt (Some v)) \<in> set tr \<or> (QRlRead (urn key), AOpt (Some v)) \<in> set tr \<or>
     (\<exists>s p. (QLoad s p, AVal v) \<in> set tr) \<or> (\<exists>q. joined_flight key q \<and> (q, AVal v) \<in> set tr)"

definition reads_redis :: "('v req, 'v ans) trace \<Rightarrow> bool" where
  "reads_redis tr \<longleftrightarrow> (\<exists>r t a. (QRead r t, a) \<in> set tr)"

lemma reads_redis_simps [simp]:
  "\<not> reads_redis []" "reads_redis (tr @ tr') \<longleftrightarrow> reads_redis tr \<or> reads_redis tr'"
  "reads_redis ((q, a) # tr) \<longleftrightarrow> (\<exists>r t. q = QRead r t) \<or> reads_redis tr"
  by (auto simp: reads_redis_def)

text \<open>A value recovered from a retained frame: the frame a read of this run returned, inside the stale window at a
  clock sample, loaded by the key's serializer.\<close>

definition recovered :: "dialcache \<Rightarrow> DialCacheKey \<Rightarrow> ('v req, 'v ans) trace \<Rightarrow> 'v \<Rightarrow> bool" where
  "recovered dc key tr v \<longleftrightarrow>
     (\<exists>rc r t f a now. dc_redis dc = Some rc \<and> (QRead r t, ARead (RawFrame f)) \<in> set tr \<and>
        (load_of rc key f, AVal v) \<in> set tr \<and> (QDateNow, AInt now) \<in> set tr \<and>
        a \<le> MAX_CACHE_TTL_SEC \<and> fresh_at f (a * 1000) now)"

definition chain_ok :: "dialcache \<Rightarrow> DialCacheKey \<Rightarrow> ('v req, 'v ans) trace \<Rightarrow> 'v res \<Rightarrow> bool" where
  "chain_ok dc key tr out \<longleftrightarrow>
     starts tr \<le> 1 \<and>
     (\<forall>e. out = Inl e \<longrightarrow> rejected_by key tr e) \<and>
     (\<forall>v. out = Inr v \<longrightarrow> (QSourceAwait, AVal v) \<in> set tr \<or> cached_value key tr v) \<and>
     (\<forall>v e. out = Inr v \<longrightarrow> (QSourceAwait, AThrow e) \<in> set tr \<longrightarrow> recovered dc key tr v) \<and>
     (\<forall>u v ttl a. (QLruSet u v ttl, a) \<in> set tr \<longrightarrow>
        u = urn key \<and> out = Inr v \<and> (trackForInvalidation key \<longrightarrow> reads_redis tr \<longrightarrow> starts tr = 0)) \<and>
     (\<forall>s v a. (QDump s v, a) \<in> set tr \<longrightarrow> out = Inr v \<and> (QSourceAwait, AVal v) \<in> set tr) \<and>
     (\<forall>w a. (QWrite w, a) \<in> set tr \<longrightarrow> wr_valueKey w = redisKey key) \<and>
     (\<forall>u v a. (QRlSet u v, a) \<in> set tr \<longrightarrow> u = urn key \<and> out = Inr v)"

text \<open>What the reads before the end of the chain have seen.\<close>

definition pre_request :: "'v req \<Rightarrow> bool" where
  "pre_request q \<longleftrightarrow> (case q of QLruGet _ \<Rightarrow> True | QRead _ _ \<Rightarrow> True | QDateNow \<Rightarrow> True | QLoad _ _ \<Rightarrow> True | _ \<Rightarrow> False)"

definition read_before :: "dialcache \<Rightarrow> redis_cache \<Rightarrow> DialCacheKey \<Rightarrow> 'v remote_get \<Rightarrow> ('v req, 'v ans) trace \<Rightarrow> bool" where
  "read_before dc rc key remote pre \<longleftrightarrow>
     dc_redis dc = Some rc \<and> only pre_request pre \<and>
     (case remote of
        RemoteGot (RedisHit v f) \<Rightarrow> (load_of rc key f, AVal v) \<in> set pre
      | RemoteGot (RedisRetained f c) \<Rightarrow> valid_remote c \<and> (\<exists>r t. (QRead r t, ARead (RawFrame f)) \<in> set pre)
      | RemoteGot (RedisMiss c _ _) \<Rightarrow> valid_remote c
      | RemoteDisabled _ _ \<Rightarrow> \<not> reads_redis pre
      | RemoteError \<Rightarrow> True)"

lemma only_notin: "only P tr \<Longrightarrow> \<not> P q \<Longrightarrow> (q, a) \<notin> set tr"
  by (auto simp: only_def)

lemma publishLocal_post:
  "observes (publishLocal dc key v l) (\<lambda>tr out. out = Inr () \<and> only (\<lambda>q. \<exists>ttl. q = QLruSet (urn key) v ttl) tr)"
  by (auto simp: publishLocal_def obs split: local_get.split sum.split)

lemma shouldAttemptStaleRecovery_post:
  "observes (shouldAttemptStaleRecovery p e) (\<lambda>tr out. (\<exists>b. out = Inr b) \<and> only (\<lambda>q. q = QStalePredicate e) tr)"
  by (auto simp: shouldAttemptStaleRecovery_def obs split: stale_predicate.split)

definition fallback_request :: "'v req \<Rightarrow> bool" where
  "fallback_request q \<longleftrightarrow> (case q of QSourceStart _ \<Rightarrow> True | QSourceAwait \<Rightarrow> True | QStalePredicate _ \<Rightarrow> True
     | QDateNow \<Rightarrow> True | QLoad _ _ \<Rightarrow> True | _ \<Rightarrow> False)"

definition fallback_post ::
  "redis_cache \<Rightarrow> DialCacheKey \<Rightarrow> int option \<Rightarrow> frame option \<Rightarrow> int option \<Rightarrow> ('v req, 'v ans) trace \<Rightarrow> (bool \<times> 'v) res \<Rightarrow> bool" where
  "fallback_post rc key stale fo t tr out \<longleftrightarrow> starts tr = 1 \<and> only fallback_request tr \<and>
    (case out of
       Inl e \<Rightarrow> (QSourceAwait, AThrow e) \<in> set tr
     | Inr (fromSource, v) \<Rightarrow>
         if fromSource then tr = [(QSourceStart t, AUnit), (QSourceAwait, AVal v)]
         else (\<exists>f a now. fo = Some f \<and> stale = Some a \<and> (load_of rc key f, AVal v) \<in> set tr \<and>
                (QDateNow, AInt now) \<in> set tr \<and> fresh_at f (a * 1000) now))"

lemma fallbackOrStale_post:
  assumes "\<And>a. stale = Some a \<Longrightarrow> 1 \<le> a \<and> a \<le> MAX_CACHE_TTL_SEC"
  shows "observes (fallbackOrStale dc rc key l stale fo p t) (fallback_post rc key stale fo t)"
proof (cases stale)
  case None
  then show ?thesis by (simp add: fallbackOrStale_def fallback_post_def obs fallback_request_def)
next
  case (Some a)
  with assms have a: "1 \<le> a" "a \<le> MAX_CACHE_TTL_SEC" by auto
  show ?thesis
    by (auto simp: Some fallbackOrStale_def fallback_post_def obs observes_recoverRetainedCandidate [OF a] fallback_request_def load_of_def
        shouldAttemptStaleRecovery_def split: option.split stale_predicate.split)
qed

text \<open>The clauses of \<open>chain_ok\<close> about single requests, as one condition on every request.\<close>

definition permitted :: "DialCacheKey \<Rightarrow> ('v req, 'v ans) trace \<Rightarrow> 'v res \<Rightarrow> 'v req \<Rightarrow> bool" where
  "permitted key tr out q \<longleftrightarrow>
     (case q of
        QLruSet u v _ \<Rightarrow> u = urn key \<and> out = Inr v \<and> (trackForInvalidation key \<longrightarrow> reads_redis tr \<longrightarrow> starts tr = 0)
      | QDump _ v \<Rightarrow> out = Inr v \<and> (QSourceAwait, AVal v) \<in> set tr
      | QWrite w \<Rightarrow> wr_valueKey w = redisKey key
      | QRlSet u v \<Rightarrow> u = urn key \<and> out = Inr v
      | _ \<Rightarrow> True)"

lemma chain_ok_permitted:
  "chain_ok dc key tr out \<longleftrightarrow>
     starts tr \<le> 1 \<and>
     (\<forall>e. out = Inl e \<longrightarrow> rejected_by key tr e) \<and>
     (\<forall>v. out = Inr v \<longrightarrow> (QSourceAwait, AVal v) \<in> set tr \<or> cached_value key tr v) \<and>
     (\<forall>v e. out = Inr v \<longrightarrow> (QSourceAwait, AThrow e) \<in> set tr \<longrightarrow> recovered dc key tr v) \<and>
     only (permitted key tr out) tr"
proof -
  have "only (permitted key tr out) tr \<longleftrightarrow>
     (\<forall>u v ttl a. (QLruSet u v ttl, a) \<in> set tr \<longrightarrow>
        u = urn key \<and> out = Inr v \<and> (trackForInvalidation key \<longrightarrow> reads_redis tr \<longrightarrow> starts tr = 0)) \<and>
     (\<forall>s v a. (QDump s v, a) \<in> set tr \<longrightarrow> out = Inr v \<and> (QSourceAwait, AVal v) \<in> set tr) \<and>
     (\<forall>w a. (QWrite w, a) \<in> set tr \<longrightarrow> wr_valueKey w = redisKey key) \<and>
     (\<forall>u v a. (QRlSet u v, a) \<in> set tr \<longrightarrow> u = urn key \<and> out = Inr v)" (is "?l \<longleftrightarrow> ?r")
  proof
    show "?l \<Longrightarrow> ?r" by (fastforce simp: only_def permitted_def)
    show "?r \<Longrightarrow> ?l" by (auto simp: only_def permitted_def split: req.split)
  qed
  then show ?thesis by (auto simp: chain_ok_def)
qed

lemma only_mono: "only P tr \<Longrightarrow> (\<And>q. P q \<Longrightarrow> P' q) \<Longrightarrow> only P' tr"
  by (auto simp: only_def)

lemma requests_permitted:
  "pre_request q \<Longrightarrow> permitted key tr out q"
  "shadow_request key' q \<Longrightarrow> permitted key tr out q"
  "fallback_request q \<Longrightarrow> permitted key tr out q"
  "put_request rc key v q \<Longrightarrow> (QSourceAwait, AVal v) \<in> set tr \<Longrightarrow> permitted key tr (Inr v) q"
  by (cases q; simp add: permitted_def pre_request_def shadow_request_def fallback_request_def put_request_def)+

lemma only_permitted:
  "only pre_request tr \<Longrightarrow> only (permitted key tr' out) tr"
  "only (shadow_request key') tr \<Longrightarrow> only (permitted key tr' out) tr"
  "only fallback_request tr \<Longrightarrow> only (permitted key tr' out) tr"
  "only (put_request rc key v) tr \<Longrightarrow> (QSourceAwait, AVal v) \<in> set tr' \<Longrightarrow> only (permitted key tr' (Inr v)) tr"
  by (auto elim: only_mono intro: requests_permitted)

lemma only_permitted_set:
  assumes "only (\<lambda>q. \<exists>ttl. q = QLruSet (urn key) v ttl) tr"
    and "trackForInvalidation key \<Longrightarrow> reads_redis tr' \<Longrightarrow> starts tr' = 0"
  shows "only (permitted key tr' (Inr v)) tr"
  by (rule only_mono [OF assms(1)]) (auto simp: permitted_def assms(2))

lemma only_no_start:
  "only pre_request tr \<Longrightarrow> starts tr = 0"
  "only (shadow_request key) tr \<Longrightarrow> starts tr = 0"
  "only (\<lambda>q. \<exists>ttl. q = QLruSet u v ttl) tr \<Longrightarrow> starts tr = 0"
  "only (put_request rc key v) tr \<Longrightarrow> starts tr = 0"
  by (erule only_starts, simp add: pre_request_def shadow_request_def put_request_def)+

lemma only_no_await:
  "only pre_request tr \<Longrightarrow> (QSourceAwait, a) \<notin> set tr"
  "only (shadow_request key) tr \<Longrightarrow> (QSourceAwait, a) \<notin> set tr"
  "only (\<lambda>q. \<exists>ttl. q = QLruSet u v ttl) tr \<Longrightarrow> (QSourceAwait, a) \<notin> set tr"
  "only (put_request rc key v) tr \<Longrightarrow> (QSourceAwait, a) \<notin> set tr"
  by (erule only_notin, simp add: pre_request_def shadow_request_def put_request_def)+

lemma only_no_reads: "only P tr \<Longrightarrow> (\<And>r t. \<not> P (QRead r t)) \<Longrightarrow> \<not> reads_redis tr"
  by (auto simp: reads_redis_def only_def)

lemma only_no_read:
  "only (shadow_request key) tr \<Longrightarrow> \<not> reads_redis tr"
  "only fallback_request tr \<Longrightarrow> \<not> reads_redis tr"
  "only (\<lambda>q. \<exists>ttl. q = QLruSet u v ttl) tr \<Longrightarrow> \<not> reads_redis tr"
  "only (put_request rc key v) tr \<Longrightarrow> \<not> reads_redis tr"
  by (erule only_no_reads, simp add: shadow_request_def fallback_request_def put_request_def)+

lemmas only_facts = only_no_start only_no_await only_no_read

subsection \<open>The end of the chain\<close>

lemma read_beforeD:
  "read_before dc rc key remote pre \<Longrightarrow> dc_redis dc = Some rc"
  "read_before dc rc key remote pre \<Longrightarrow> only pre_request pre"
  by (auto simp: read_before_def)

lemma chain_hit:
  assumes "only pre_request pre" "cached_value key pre v"
    and "only (\<lambda>q. \<exists>ttl. q = QLruSet (urn key) v ttl) tr1" "only (shadow_request key) tr2"
  shows "chain_ok dc key (pre @ tr1 @ tr2) (Inr v)"
  using assms
  by (auto simp: chain_ok_permitted only_facts cached_value_def only_permitted only_permitted_set)

lemma chain_source:
  assumes "only pre_request pre" "only (shadow_request key) tr0"
    and "tr1 = [] \<or> only (put_request rc key v) tr1"
    and "only (\<lambda>q. \<exists>ttl. q = QLruSet (urn key) v ttl) tr2"
    and "tr2 \<noteq> [] \<Longrightarrow> trackForInvalidation key \<Longrightarrow> \<not> reads_redis pre"
  shows "chain_ok dc key (pre @ (QSourceStart t, AUnit) # tr0 @ (QSourceAwait, AVal v) # tr1 @ tr2) (Inr v)"
proof -
  have put: "only (put_request rc key v) tr1" using assms(3) by auto
  let ?tr = "pre @ (QSourceStart t, AUnit) # tr0 @ (QSourceAwait, AVal v) # tr1 @ tr2"
  have "only (permitted key ?tr (Inr v)) tr2"
  proof (cases "tr2 = []")
    case False
    then show ?thesis
      using assms only_no_read(1) [OF assms(2)] only_no_read(4) [OF put] only_no_read(3) [OF assms(4)]
      by (intro only_permitted_set [OF assms(4)]) auto
  qed simp
  moreover have "permitted key ?tr (Inr v) (QSourceStart t)" "permitted key ?tr (Inr v) QSourceAwait"
    by (simp_all add: permitted_def)
  moreover have "starts ?tr = 1" "\<forall>e. (QSourceAwait, AThrow e) \<notin> set ?tr"
    using assms put by (auto simp: only_facts)
  ultimately show ?thesis
    using assms put unfolding chain_ok_permitted by (simp add: only_permitted)
qed

lemma chain_error:
  assumes "only pre_request pre" "only (\<lambda>q. fallback_request q \<or> shadow_request key q) tr" "starts tr = 1"
    and "(QSourceAwait, AThrow e) \<in> set tr"
  shows "chain_ok dc key (pre @ tr) (Inl e)"
proof -
  have "only (permitted key (pre @ tr) (Inl e)) tr"
    by (rule only_mono [OF assms(2)]) (auto intro: requests_permitted)
  then show ?thesis
    using assms by (simp add: chain_ok_permitted only_facts only_permitted rejected_by_def)
qed

lemma chain_stale:
  assumes "dc_redis dc = Some rc" "only pre_request pre" "only fallback_request tr" "starts tr = 1"
    and "(QRead r t, ARead (RawFrame f)) \<in> set pre" "(load_of rc key f, AVal v) \<in> set tr"
    and "(QDateNow, AInt now) \<in> set tr" "fresh_at f (a * 1000) now" "a \<le> MAX_CACHE_TTL_SEC"
  shows "chain_ok dc key (pre @ tr) (Inr v)"
proof -
  have "recovered dc key (pre @ tr) v" using assms unfolding recovered_def set_append Un_iff by blast
  moreover have "cached_value key (pre @ tr) v" using assms(6) by (auto simp: cached_value_def load_of_def)
  ultimately show ?thesis
    using assms by (simp add: chain_ok_permitted only_facts only_permitted)
qed

text \<open>\<open>finishRedisChain\<close> completes every run that reached the Redis layer.\<close>

lemma finishRedisChain_hit:
  assumes "read_before dc rc key (RemoteGot (RedisHit v f)) pre"
  shows "observes (finishRedisChain dc rc key c l (RemoteGot (RedisHit v f)) p t) (\<lambda>tr. chain_ok dc key (pre @ tr))"
proof -
  have pre: "only pre_request pre" "cached_value key pre v"
    using assms by (auto simp: read_before_def cached_value_def load_of_def)
  show ?thesis
    unfolding finishRedisChain_def
    by (simp, rule observes_bindI [OF publishLocal_post], rule observes_bindI [OF scheduleShadowValidation_post])
       (auto simp: obs intro: chain_hit [OF pre])
qed

lemma finishRedisChain_error:
  assumes "read_before dc rc key RemoteError pre"
  shows "observes (finishRedisChain dc rc key c l RemoteError p t) (\<lambda>tr. chain_ok dc key (pre @ tr))"
proof -
  note pre = read_beforeD(2) [OF assms]
  have err: "chain_ok dc key (pre @ [(QSourceStart t, AUnit), (QSourceAwait, AThrow e)]) (Inl e)" for e
    by (rule chain_error [OF pre]) (simp_all add: fallback_request_def)
  have ok: "observes (if trackForInvalidation key then Ret () else publishLocal dc key v l)
      (\<lambda>tr out. out = Inr () \<and> chain_ok dc key (pre @ (QSourceStart t, AUnit) # (QSourceAwait, AVal v) # tr) (Inr v))" for v
  proof (cases "trackForInvalidation key")
    case True
    then show ?thesis using chain_source [OF pre, of key "[]" "[]" rc v "[]"] by (simp add: obs)
  next
    case False
    then have "chain_ok dc key (pre @ (QSourceStart t, AUnit) # (QSourceAwait, AVal v) # tr) (Inr v)"
      if "only (\<lambda>q. \<exists>ttl. q = QLruSet (urn key) v ttl) tr" for tr
      using chain_source [OF pre, of key "[]" "[]" rc v tr] that by simp
    with False show ?thesis by (auto intro: observes_mono [OF publishLocal_post])
  qed
  have finish: "observes (pthen (if trackForInvalidation key then Ret () else publishLocal dc key v l) (Ret v))
      (\<lambda>tr. chain_ok dc key (pre @ (QSourceStart t, AUnit) # (QSourceAwait, AVal v) # tr))" for v
    by (rule observes_bindI [OF ok]) (simp_all add: obs)
  show ?thesis
    unfolding finishRedisChain_def remote_get.case
    by (rule observes_bindI [OF callFallback_post]) (simp_all add: err finish del: if_split)
qed

lemma finishRedisChain_body:
  assumes pre: "only pre_request pre" and rc: "dc_redis dc = Some rc"
    and stale: "\<And>a. stale = Some a \<Longrightarrow> 1 \<le> a \<and> a \<le> MAX_CACHE_TTL_SEC"
    and fo: "\<And>f. fo = Some f \<Longrightarrow> \<exists>r t. (QRead r t, ARead (RawFrame f)) \<in> set pre"
    and wc: "\<And>c. wc = Some c \<Longrightarrow> valid_remote c"
    and suppress: "\<not> suppress \<Longrightarrow> trackForInvalidation key \<Longrightarrow> \<not> reads_redis pre"
  shows "observes
    (pbind (fallbackOrStale dc rc key layer stale fo p t) (\<lambda>(fromSource, v).
       if \<not> fromSource then Ret v else
       pthen (case wc of None \<Rightarrow> Ret () | Some c \<Rightarrow> pcatch (put rc key v c w) (\<lambda>e. logMsg LogWarn msg))
       (pthen (if suppress then Ret () else publishLocal dc key v l) (Ret v))))
    (\<lambda>tr. chain_ok dc key (pre @ tr))"
proof (rule observes_bindI [OF fallbackOrStale_post [OF stale]])
  fix tr :: "('a req, 'a ans) trace" and e
  assume "fallback_post rc key stale fo t tr (Inl e)"
  then have "starts tr = 1" "(QSourceAwait, AThrow e) \<in> set tr" "only fallback_request tr"
    by (simp_all add: fallback_post_def)
  moreover from this(3) have "only (\<lambda>q. fallback_request q \<or> shadow_request key q) tr"
    by (rule only_mono) blast
  ultimately show "chain_ok dc key (pre @ tr) (Inl e)" by (intro chain_error [OF pre])
next
  fix tr :: "('a req, 'a ans) trace" and x
  assume post: "fallback_post rc key stale fo t tr (Inr x)"
  obtain fs v where x: "x = (fs, v)" by fastforce
  have written: "observes (case wc of None \<Rightarrow> Ret () | Some c \<Rightarrow> pcatch (put rc key v c w) (\<lambda>e. logMsg LogWarn msg))
      (\<lambda>tr out. out = Inr () \<and> only (put_request rc key v) tr)"
    using wc by (auto simp: obs split: option.split intro: put_post)
  have publish: "observes (if suppress then Ret () else publishLocal dc key v l)
      (\<lambda>tr out. out = Inr () \<and> only (\<lambda>q. \<exists>ttl. q = QLruSet (urn key) v ttl) tr \<and> (suppress \<longrightarrow> tr = []))"
    by (auto simp: obs intro: observes_mono [OF publishLocal_post])
  show "observes (case x of (fromSource, v) \<Rightarrow>
       if \<not> fromSource then Ret v else
       pthen (case wc of None \<Rightarrow> Ret () | Some c \<Rightarrow> pcatch (put rc key v c w) (\<lambda>e. logMsg LogWarn msg))
       (pthen (if suppress then Ret () else publishLocal dc key v l) (Ret v)))
     (\<lambda>tr'. chain_ok dc key (pre @ tr @ tr'))"
  proof (cases fs)
    case True
    with post x have tr: "tr = [(QSourceStart t, AUnit), (QSourceAwait, AVal v)]" by (simp add: fallback_post_def)
    have "chain_ok dc key (pre @ tr @ tr1 @ tr2) (Inr v)"
      if "only (put_request rc key v) tr1" "only (\<lambda>q. \<exists>ttl. q = QLruSet (urn key) v ttl) tr2" "suppress \<longrightarrow> tr2 = []" for tr1 tr2
      using chain_source [OF pre, of key "[]" tr1 rc v tr2] that suppress tr by auto
    then have "observes (pthen (case wc of None \<Rightarrow> Ret () | Some c \<Rightarrow> pcatch (put rc key v c w) (\<lambda>e. logMsg LogWarn msg))
         (pthen (if suppress then Ret () else publishLocal dc key v l) (Ret v))) (\<lambda>tr'. chain_ok dc key (pre @ tr @ tr'))"
      by (intro observes_bindI [OF written] observes_bindI [OF publish]) (auto simp: obs)
    then show ?thesis using True x by (simp del: if_split)
  next
    case False
    with post x obtain f a now where "fo = Some f" "stale = Some a" "(load_of rc key f, AVal v) \<in> set tr"
      "(QDateNow, AInt now) \<in> set tr" "fresh_at f (a * 1000) now"
      and "starts tr = 1" "only fallback_request tr" by (auto simp: fallback_post_def)
    with fo stale have "chain_ok dc key (pre @ tr) (Inr v)" by (blast intro: chain_stale [OF rc pre])
    with False x show ?thesis by (simp add: obs)
  qed
qed

lemma finishRedisChain_post:
  assumes "read_before dc rc key remote pre"
  shows "observes (finishRedisChain dc rc key c l remote p t) (\<lambda>tr. chain_ok dc key (pre @ tr))"
proof (cases remote)
  case (RemoteGot g)
  note rb = assms [unfolded RemoteGot] and d = read_beforeD [OF assms]
  show ?thesis
  proof (cases g)
    case (RedisHit v f)
    with RemoteGot rb show ?thesis by (simp add: finishRedisChain_hit)
  next
    case (RedisRetained f lc)
    with rb have "valid_remote lc" "\<exists>r t. (QRead r t, ARead (RawFrame f)) \<in> set pre" by (auto simp: read_before_def)
    then show ?thesis
      unfolding RemoteGot RedisRetained finishRedisChain_def remote_get.case redis_get.case Let_def
      by (intro finishRedisChain_body d) (auto simp: valid_remote_def)
  next
    case (RedisMiss lc m w)
    with rb have "valid_remote lc" by (auto simp: read_before_def)
    then show ?thesis
      unfolding RemoteGot RedisMiss finishRedisChain_def remote_get.case redis_get.case Let_def
      by (intro finishRedisChain_body d) (auto simp: valid_remote_def split: redis_miss.splits)
  qed
next
  case RemoteError
  with assms show ?thesis by (simp add: finishRedisChain_error)
next
  case (RemoteDisabled reason skip)
  note d = read_beforeD [OF assms]
  from assms RemoteDisabled have "\<not> reads_redis pre" by (simp add: read_before_def)
  then show ?thesis
    unfolding RemoteDisabled finishRedisChain_def remote_get.case Let_def
    by (intro finishRedisChain_body d) auto
qed

subsection \<open>The chain through both shared layers\<close>

lemma resolved_remote_valid:
  assumes "fst (resolveRemoteLayerConfigResult c key) \<in> {LayerEnabled lc, LayerRampedDown lc}"
  shows "valid_remote lc"
  using assms
  by (auto simp: resolveRemoteLayerConfigResult_def resolveLayerConfigResult_def Let_def stale_window_def remote_layer_def
      valid_remote_def isSupportedCacheTtlSec_iff split: option.splits layer_resolution.splits if_splits)

lemma getWithResolvedConfig_requests:
  assumes "valid_remote lc"
  shows "observes (getWithResolvedConfig rc key lc t) (\<lambda>tr out. only pre_request tr)"
  by (auto simp: observes_getWithResolvedConfig [OF assms] serve_post_def pre_request_def load_of_def
      split: sum.splits valid_read.splits)

lemma readRemote_post:
  assumes rc: "dc_redis dc = Some rc" and lc: "valid_remote lc" and pre: "only pre_request pre"
  shows "observes (readRemoteWithResolvedConfig rc key lc t) (\<lambda>tr out. case out of
     Inl _ \<Rightarrow> False | Inr remote \<Rightarrow> read_before dc rc key remote (pre @ tr))"
proof -
  have "observes (getWithResolvedConfig rc key lc t) (\<lambda>tr out. only pre_request tr \<and>
     (case out of Inl e \<Rightarrow> True | Inr r \<Rightarrow> read_before dc rc key (RemoteGot r) (pre @ tr)))"
    by (rule observes_mono2 [OF getWithResolvedConfig_post [OF lc] getWithResolvedConfig_requests [OF lc]])
       (use assms in \<open>fastforce simp: read_before_def split: sum.splits redis_get.splits\<close>)
  then show ?thesis
    unfolding readRemoteWithResolvedConfig_def observes_pcatch observes_pbind
    by (rule observes_mono) (use assms in \<open>auto simp: obs read_before_def split: sum.splits redis_get.splits\<close>)
qed

lemma readThenFinish_post:
  assumes "dc_redis dc = Some rc" "valid_remote lc" "only pre_request pre"
  shows "observes (pbind (readRemoteWithResolvedConfig rc key lc rt) (\<lambda>remote.
      finishRedisChain dc rc key c l remote p t)) (\<lambda>tr. chain_ok dc key (pre @ tr))"
proof (rule observes_bindI [OF readRemote_post [OF assms]])
  fix tr remote
  assume "case Inr remote of Inl _ \<Rightarrow> False | Inr r \<Rightarrow> read_before dc rc key r (pre @ tr)"
  then have "read_before dc rc key remote (pre @ tr)" by (simp only: sum.case)
  from finishRedisChain_post [OF this, of c l p t]
  show "observes (finishRedisChain dc rc key c l remote p t) (\<lambda>tr'. chain_ok dc key (pre @ tr @ tr'))"
    by (simp only: append_assoc)
qed (simp only: sum.case)

lemma chain_fallback:
  assumes "only pre_request pre" "\<not> reads_redis pre"
  shows "observes (callFallback dc labels t) (\<lambda>tr. chain_ok dc key (pre @ tr))"
    and "observes (finishLocalOnly dc key l t) (\<lambda>tr. chain_ok dc key (pre @ tr))"
proof -
  have err: "chain_ok dc key (pre @ [(QSourceStart t, AUnit), (QSourceAwait, AThrow e)]) (Inl e)" for e
    by (rule chain_error [OF assms(1)]) (simp_all add: fallback_request_def)
  have ok: "chain_ok dc key (pre @ (QSourceStart t, AUnit) # (QSourceAwait, AVal v) # tr) (Inr v)"
    if "only (\<lambda>q. \<exists>ttl. q = QLruSet (urn key) v ttl) tr" for v tr
    using chain_source [OF assms(1), of key "[]" "[]" undefined v tr] that assms(2) by simp
  show "observes (callFallback dc labels t) (\<lambda>tr. chain_ok dc key (pre @ tr))"
    using err ok [of _ "[]"] by (simp add: observes_callFallback)
  have "observes (pthen (publishLocal dc key v l) (Ret v))
      (\<lambda>tr. chain_ok dc key (pre @ (QSourceStart t, AUnit) # (QSourceAwait, AVal v) # tr))" for v
    by (rule observes_bindI [OF publishLocal_post]) (simp_all add: obs ok)
  then show "observes (finishLocalOnly dc key l t) (\<lambda>tr. chain_ok dc key (pre @ tr))"
    unfolding finishLocalOnly_def by (intro observes_bindI [OF callFallback_post]) (simp_all add: err)
qed

lemma finishRampedDownRemote_post:
  assumes "only pre_request pre" "\<not> reads_redis pre"
  shows "observes (finishRampedDownRemote dc key c l rc labels t) (\<lambda>tr. chain_ok dc key (pre @ tr))"
proof -
  have err: "chain_ok dc key (pre @ (QSourceStart t, AUnit) # tr @ [(QSourceAwait, AThrow e)]) (Inl e)"
    if "only (shadow_request key) tr" for e tr
  proof (rule chain_error [OF assms(1)])
    show "only (\<lambda>q. fallback_request q \<or> shadow_request key q) ((QSourceStart t, AUnit) # tr @ [(QSourceAwait, AThrow e)])"
      using only_mono [OF that, of "\<lambda>q. fallback_request q \<or> shadow_request key q"] by (simp add: fallback_request_def)
  qed (use that in \<open>simp_all add: only_facts\<close>)
  have ok: "chain_ok dc key (pre @ (QSourceStart t, AUnit) # tr @ (QSourceAwait, AVal v) # tr') (Inr v)"
    if "only (shadow_request key) tr" "only (\<lambda>q. \<exists>ttl. q = QLruSet (urn key) v ttl) tr'" for v tr tr'
    using chain_source [OF assms(1) that(1), of "[]" undefined v tr'] that assms(2) by simp
  have publish: "observes (pthen (case l of Some l' \<Rightarrow> publishLocal dc key v l' | None \<Rightarrow> Ret ()) (Ret v))
      (\<lambda>tr'. chain_ok dc key (pre @ (QSourceStart t, AUnit) # tr @ (QSourceAwait, AVal v) # tr'))"
    if "only (shadow_request key) tr" for tr v
  proof -
    have "observes (case l of Some l' \<Rightarrow> publishLocal dc key v l' | None \<Rightarrow> Ret ())
        (\<lambda>tr out. out = Inr () \<and> only (\<lambda>q. \<exists>ttl. q = QLruSet (urn key) v ttl) tr)"
      by (simp add: obs publishLocal_post split: option.split)
    then show ?thesis by (rule observes_bindI) (simp_all add: obs ok [OF that])
  qed
  have settle: "observes (pbind (settleFallback dc labels s) (\<lambda>v.
       pthen (case l of Some l' \<Rightarrow> publishLocal dc key v l' | None \<Rightarrow> Ret ()) (Ret v)))
      (\<lambda>tr'. chain_ok dc key (pre @ (QSourceStart t, AUnit) # tr @ tr'))"
    if "only (shadow_request key) tr" for tr s
    unfolding observes_pbind [of "settleFallback dc labels s"] observes_settleFallback
    using err [OF that] publish [OF that] by simp
  have schedule: "observes (pthen (scheduleShadowValidation dc key c st) (pbind (settleFallback dc labels s) (\<lambda>v.
       pthen (case l of Some l' \<Rightarrow> publishLocal dc key v l' | None \<Rightarrow> Ret ()) (Ret v))))
      (\<lambda>tr'. chain_ok dc key (pre @ (QSourceStart t, AUnit) # tr'))" for s st
    by (rule observes_bindI [OF scheduleShadowValidation_post]) (simp_all add: settle)
  have start: "observes (startFallback t) (\<lambda>tr out. tr = [(QSourceStart t, AUnit)] \<and> (\<exists>s. out = Inr s))"
    by (simp add: obs)
  have clock: "observes (if b then Ret None else pbind perfNow (\<lambda>t. Ret (Some t))) (\<lambda>tr out. tr = [] \<and> (\<exists>x. out = Inr x))" for b
    by (simp add: obs)
  show ?thesis
    unfolding finishRampedDownRemote_def Let_def
    by (intro observes_bindI [OF clock] observes_bindI [OF start]) (auto simp: schedule)
qed

definition neutral :: "'v req \<Rightarrow> bool" where
  "neutral q \<longleftrightarrow> (case q of QSourceStart _ \<Rightarrow> False | QSourceAwait \<Rightarrow> False | QLruSet _ _ _ \<Rightarrow> False | QDump _ _ \<Rightarrow> False
     | QWrite _ \<Rightarrow> False | QRlSet _ _ \<Rightarrow> False | QRead _ _ \<Rightarrow> False | _ \<Rightarrow> True)"

lemma neutral_facts:
  "only neutral tr \<Longrightarrow> starts tr = 0" "only neutral tr \<Longrightarrow> (QSourceAwait, a) \<notin> set tr"
  "only neutral tr \<Longrightarrow> \<not> reads_redis tr"
  by (erule only_starts only_notin only_no_reads, simp add: neutral_def)+

lemma neutral_permitted: "neutral q \<Longrightarrow> permitted key tr out q"
  by (cases q; simp add: neutral_def permitted_def)

lemma source_monos:
  "recovered dc key tr v \<Longrightarrow> set tr \<subseteq> set tr' \<Longrightarrow> recovered dc key tr' v"
  "rejected_by key tr e \<Longrightarrow> set tr \<subseteq> set tr' \<Longrightarrow> rejected_by key tr' e"
  "cached_value key tr v \<Longrightarrow> set tr \<subseteq> set tr' \<Longrightarrow> cached_value key tr' v"
  unfolding recovered_def rejected_by_def cached_value_def by blast+

lemma chain_ok_wrap:
  assumes "chain_ok dc key tr out" "only neutral pre" "only neutral post"
  shows "chain_ok dc key (pre @ tr @ post) out"
proof -
  have perm: "permitted key (pre @ tr @ post) out q \<longleftrightarrow> permitted key tr out q" for q
    by (cases q; use assms(2,3) in \<open>simp add: permitted_def neutral_facts\<close>)
  have "only (permitted key tr out) pre" "only (permitted key tr out) post"
    using assms(2,3) by (auto simp: only_def intro: neutral_permitted)
  moreover have "set tr \<subseteq> set (pre @ tr @ post)" by auto
  note mono = source_monos [OF _ this]
  ultimately show ?thesis
    using assms(1) unfolding chain_ok_permitted perm by (auto simp: neutral_facts assms(2,3) intro: mono)
qed

lemma getThroughActiveLocal_post:
  "observes (getThroughActiveLocal dc key c lc p t) (chain_ok dc key)"
proof -
  have hit: "chain_ok dc key [(QLruGet (urn key), AOpt (Some v))] (Inr v)" for v :: 'a
    by (simp add: chain_ok_permitted permitted_def cached_value_def)
  have rest: "observes
      (case dc_redis dc of
          None \<Rightarrow> finishLocalOnly dc key l t
        | Some rc \<Rightarrow>
            pbind (resolveRemoteLayerConfig dc key c) (\<lambda>(remoteLayer, skipCacheWrite).
            case remoteLayer of
              LayerRampedDown c' \<Rightarrow> finishRampedDownRemote dc key c (Some l) c' (labelsFor key LayerLocal) t
            | LayerDisabled reason \<Rightarrow> finishRedisChain dc rc key c l (RemoteDisabled reason skipCacheWrite) p t
            | LayerEnabled c' \<Rightarrow>
                pbind (readRemoteWithResolvedConfig rc key c' (remoteTimeoutFor rc c)) (\<lambda>remote.
                finishRedisChain dc rc key c l remote p t)))
      (\<lambda>tr. chain_ok dc key (pre @ tr))"
    if pre: "only pre_request pre" "\<not> reads_redis pre" for pre and l :: "'a local_get"
  proof (cases "dc_redis dc")
    case None
    then show ?thesis by (simp add: chain_fallback [OF pre])
  next
    case (Some rc)
    have dis: "observes (finishRedisChain dc rc key c l (RemoteDisabled reason False) p t) (\<lambda>tr. chain_ok dc key (pre @ tr))" for reason
      by (rule finishRedisChain_post) (use Some pre in \<open>simp add: read_before_def\<close>)
    obtain r b where r: "resolveRemoteLayerConfigResult c key = (r, b)" by fastforce
    show ?thesis
      using Some resolved_remote_valid [of c key] r
      by (cases r) (simp_all add: observes_pbind [of "resolveRemoteLayerConfig dc key c"] observes_resolveRemoteLayerConfig
          dis readThenFinish_post [OF Some _ pre(1)] finishRampedDownRemote_post [OF pre])
  qed
  show ?thesis
    unfolding getThroughActiveLocal_def observes_pbind [of "readLocalWithResolvedConfig dc key lc"]
      observes_readLocalWithResolvedConfig
    using hit rest [of "[]"] rest [of "[(QLruGet (urn key), AOpt None)]"] rest [of "[(QLruGet (urn key), AThrow e)]" for e]
    by (simp add: pre_request_def obs)
qed

lemma singleFlightProcess_post:
  assumes "observes run (chain_ok dc key)"
  shows "observes (singleFlightProcess dc key run) (chain_ok dc key)"
proof -
  have join: "chain_ok dc key [(QProcLookup (urn key), ABool True), (QProcAwait (urn key), AVal v)] (Inr v)"
    "chain_ok dc key [(QProcLookup (urn key), ABool True), (QProcAwait (urn key), AThrow e)] (Inl e)" for v e
    by (auto simp: chain_ok_permitted permitted_def cached_value_def rejected_by_def joined_flight_def)
  have "chain_ok dc key ((QProcLookup (urn key), ABool False) # (QProcRegister (urn key) s, AUnit) # tr @ [(QProcClear (urn key), AUnit)]) out"
    if "chain_ok dc key tr out" for tr out s
    using chain_ok_wrap [OF that, of "[(QProcLookup (urn key), ABool False), (QProcRegister (urn key) s, AUnit)]"
        "[(QProcClear (urn key), AUnit)]"] by (simp add: neutral_def)
  then have lead: "observes run (\<lambda>tr out. chain_ok dc key ((QProcLookup (urn key), ABool False) #
      (QProcRegister (urn key) s, AUnit) # tr @ [(QProcClear (urn key), AUnit)]) out)" for s
    by (rule observes_mono [OF assms])
  show ?thesis
    by (simp add: singleFlightProcess_def obs joined_def join lead)
qed

lemma singleFlightRequestLocal_post:
  assumes "observes run (chain_ok dc key)"
  shows "observes (singleFlightRequestLocal dc key run) (chain_ok dc key)"
proof -
  have join: "chain_ok dc key [(QRlLookup (urn key), ABool True), (QRlAwait (urn key), AVal v)] (Inr v)"
    "chain_ok dc key [(QRlLookup (urn key), ABool True), (QRlAwait (urn key), AThrow e)] (Inl e)" for v e
    by (auto simp: chain_ok_permitted permitted_def cached_value_def rejected_by_def joined_flight_def)
  have "chain_ok dc key ((QRlLookup (urn key), ABool False) # (QRlRegister (urn key), AUnit) # tr @ [(QRlClear (urn key), AUnit)]) out"
    if "chain_ok dc key tr out" for tr out
    using chain_ok_wrap [OF that, of "[(QRlLookup (urn key), ABool False), (QRlRegister (urn key), AUnit)]"
        "[(QRlClear (urn key), AUnit)]"] by (simp add: neutral_def)
  then have lead: "observes run (\<lambda>tr out. chain_ok dc key ((QRlLookup (urn key), ABool False) #
      (QRlRegister (urn key), AUnit) # tr @ [(QRlClear (urn key), AUnit)]) out)"
    by (rule observes_mono [OF assms])
  show ?thesis
    by (simp add: singleFlightRequestLocal_def obs joined_def join lead)
qed

end
