(* ===== verification/InvocationSpec.thy ===== *)
theory InvocationSpec
  imports ReadPathSpec
begin

section \<open>The guarantees of an invocation\<close>

text \<open>
  The contract of the cache chain carried through flights, request-local memoization and
  \<open>executeCacheOperation\<close>, and the guarantees it gives for a whole invocation of \<^verbatim>\<open>cached()\<close> or \<^verbatim>\<open>getOrLoad()\<close>.
\<close>

subsection \<open>Through the shared layers and the request-local layer\<close>

lemma observes_true: "(\<And>tr out. Q tr out) \<Longrightarrow> observes p Q"
  using observes_mono [of p "\<lambda>_ _. True" Q] by (simp add: observes_def always_True)

lemma getThroughSharedLayers_post:
  "observes (getThroughSharedLayers dc key c p t layer) (chain_ok dc key)"
proof -
  have fb: "observes (callFallback dc labels t) (chain_ok dc key)" for labels
    using chain_fallback(1) [of "[]"] by simp
  have ramped: "observes (finishRampedDownRemote dc key c None c' labels t) (chain_ok dc key)" for c' labels
    using finishRampedDownRemote_post [of "[]"] by simp
  have finish: "observes (pbind (readRemoteWithResolvedConfig rc key lc (remoteTimeoutFor rc c)) (\<lambda>remote.
      finishRedisChain dc rc key c l remote p t)) (chain_ok dc key)" if "dc_redis dc = Some rc" "valid_remote lc" for rc lc l
    using readThenFinish_post [OF that, of "[]"] by simp
  obtain r b where r: "resolveRemoteLayerConfigResult c key = (r, b)" by fastforce
  show ?thesis
    unfolding getThroughSharedLayers_def Let_def observes_pbind [of "resolveLocalLayerConfig dc key c"]
      observes_resolveLocalLayerConfig sum.case
    using resolved_remote_valid [of c key]
    by (cases "coalesces c"; cases "resolveLayerConfigResult c key LOCAL"; cases "dc_redis dc"; cases r)
       (simp_all add: r observes_pbind [of "resolveRemoteLayerConfig dc key c"] observes_resolveRemoteLayerConfig
          fb ramped finish getThroughActiveLocal_post singleFlightProcess_post)
qed

lemma requestLocalRun_post:
  "observes (requestLocalRun dc key c p t :: ('v, 'v) cache_prog) (chain_ok dc key)"
proof -
  have hit: "chain_ok dc key [(QRlRead (urn key), AOpt (Some v))] (Inr v)" for v :: 'v
    by (simp add: chain_ok_permitted permitted_def cached_value_def)
  have err: "chain_ok dc key ((QRlRead (urn key), AOpt None) # tr) (Inl e)" if "chain_ok dc key tr (Inl e)"
    for tr :: "('v req, 'v ans) trace" and e
    using chain_ok_wrap [OF that, of "[(QRlRead (urn key), AOpt None)]" "[]"] by (simp add: neutral_def)
  have set: "chain_ok dc key ((QRlRead (urn key), AOpt None) # tr @ [(QRlSet (urn key) v, AUnit)]) (Inr v)"
    if "chain_ok dc key tr (Inr v)" for tr :: "('v req, 'v ans) trace" and v
  proof -
    have "chain_ok dc key ((QRlRead (urn key), AOpt None) # tr) (Inr v)"
      using chain_ok_wrap [OF that, of "[(QRlRead (urn key), AOpt None)]" "[]"] by (simp add: neutral_def)
    moreover have "set tr' \<subseteq> set (tr' @ [(QRlSet (urn key) v, AUnit)])" for tr' :: "('v req, 'v ans) trace" by auto
    ultimately show ?thesis
      unfolding chain_ok_def by (auto intro: source_monos [OF _ _])
  qed
  have "observes (pbind (getThroughSharedLayers dc key c p t LayerRequestLocal) (\<lambda>v :: 'v. pbind (ask (QRlSet (urn key) v)) (\<lambda>_. Ret v)))
      (\<lambda>tr. chain_ok dc key ((QRlRead (urn key), AOpt None) # tr))"
    by (rule observes_bindI [OF getThroughSharedLayers_post]) (simp_all add: obs err set)
  with hit show ?thesis
    unfolding requestLocalRun_def by (simp add: observes_pbind [of perfNow] observes_perfNow observes_pbind [of "ask _"]
      observes_ask_value observes_pbind [of "metric _ _"] observes_metric observes_pbind [of "metric_elapsed _ _ _"]
      observes_metric_elapsed split_option_all observes_basic)
qed

lemma getThroughRequestLocal_post:
  "observes (getThroughRequestLocal dc key c p t) (chain_ok dc key)"
  by (simp add: getThroughRequestLocal_def Let_def requestLocalRun_post singleFlightRequestLocal_post)

subsection \<open>A whole invocation\<close>

definition prologue_request :: "'v req \<Rightarrow> bool" where
  "prologue_request q \<longleftrightarrow> q = QIsEnabled \<or> q = QSelectKey"

text \<open>A run that went straight to the source, before any key was built.\<close>

definition uncached :: "('v req, 'v ans) trace \<Rightarrow> 'v res \<Rightarrow> bool" where
  "uncached tr out \<longleftrightarrow> (\<exists>pre t a. tr = pre @ [(QSourceStart t, AUnit), (QSourceAwait, a)] \<and> only prologue_request pre \<and>
     (case out of Inl e \<Rightarrow> a = AThrow e | Inr v \<Rightarrow> a = AVal v))"

definition invocation_ok :: "dialcache \<Rightarrow> cache_options \<Rightarrow> key_config option \<Rightarrow> ('v req, 'v ans) trace \<Rightarrow> 'v res \<Rightarrow> bool" where
  "invocation_ok dc opts dflt tr out \<longleftrightarrow>
     uncached tr out \<or>
     (\<exists>spec key a. (QSelectKey, ASpec spec) \<in> set tr \<and> buildKey dc opts spec dflt = Inr key \<and>
        (QProvider key, a) \<in> set tr \<and> chain_ok dc key tr out)"

lemma executeCacheOperation_post:
  "observes (executeCacheOperation dc opts dflt t p :: ('v, 'v) cache_prog) (invocation_ok dc opts dflt)"
proof -
  have wrap: "invocation_ok dc opts dflt (pre @ tr) out"
    if "chain_ok dc key tr out" "only neutral pre" "(QSelectKey, ASpec spec) \<in> set pre" "buildKey dc opts spec dflt = Inr key"
      "(QProvider key, a) \<in> set pre" for key spec a pre and tr :: "('v req, 'v ans) trace" and out
    using chain_ok_wrap [OF that(1,2), of "[]"] that unfolding invocation_ok_def by auto
  have fb: "observes (callFallback dc labels t) (\<lambda>tr. invocation_ok dc opts dflt (pre @ tr))"
    if "only neutral pre" "(QSelectKey, ASpec spec) \<in> set pre" "buildKey dc opts spec dflt = Inr key"
      "(QProvider key, a) \<in> set pre" for spec key a labels and pre :: "('v req, 'v ans) trace"
    using chain_fallback(1) [of "[]" dc labels t key] by (auto intro: observes_mono wrap [OF _ that])
  have shared: "observes (getThroughSharedLayers dc key c p t layer) (\<lambda>tr. invocation_ok dc opts dflt (pre @ tr))"
    if "only neutral pre" "(QSelectKey, ASpec spec) \<in> set pre" "buildKey dc opts spec dflt = Inr key"
      "(QProvider key, a) \<in> set pre" for spec key a c layer and pre :: "('v req, 'v ans) trace"
    by (rule observes_mono [OF getThroughSharedLayers_post]) (rule wrap [OF _ that])
  have local: "observes (getThroughRequestLocal dc key c p t) (\<lambda>tr. invocation_ok dc opts dflt (pre @ tr))"
    if "only neutral pre" "(QSelectKey, ASpec spec) \<in> set pre" "buildKey dc opts spec dflt = Inr key"
      "(QProvider key, a) \<in> set pre" for spec key a c and pre :: "('v req, 'v ans) trace"
    by (rule observes_mono [OF getThroughRequestLocal_post]) (rule wrap [OF _ that])
  have unc: "invocation_ok dc opts dflt (pre @ [(QSourceStart t', AUnit), (QSourceAwait, AThrow e)]) (Inl e)"
    "invocation_ok dc opts dflt (pre @ [(QSourceStart t', AUnit), (QSourceAwait, AVal v)]) (Inr v)"
    if "only prologue_request pre" for pre e t' and v :: 'v
    using that by (auto simp: invocation_ok_def uncached_def)
  let ?e = "(QIsEnabled, ABool True) :: 'v req \<times> 'v ans" and ?s = "\<lambda>s. (QSelectKey, ASpec s) :: 'v req \<times> 'v ans"
  note fb3 = fb [of "[?e, ?s s, (QProvider k, a)]" s k a for s k a, unfolded observes_callFallback, simplified]
  note fb4 = fb [of "[?e, ?s s, (QProvider k, a), (QIsEnabled, b)]" s k a for s k a b, unfolded observes_callFallback, simplified]
  note shared4 = shared [of "[?e, ?s s, (QProvider k, a), ?e]" s k a for s k a, simplified]
  note shared5 = shared [of "[?e, ?s s, (QProvider k, a), ?e, (QRequestLocal, b)]" s k a for s k a b, simplified]
  note local5 = local [of "[?e, ?s s, (QProvider k, a), ?e, (QRequestLocal, b)]" s k a for s k a b, simplified]
  show ?thesis
    unfolding executeCacheOperation_def Let_def
    using unc [of "[(QIsEnabled, b)]" for b] unc [of "[?e, (QSelectKey, b)]" for b]
    by (auto simp: observes_pbind observes_attempt observes_of_res observes_basic observes_ask_bool observes_ask_app
        observes_metric observes_logMsg observes_recording observes_rawFallback observes_callFallback
        neutral_def prologue_request_def split: sum.split intro!: shared4 shared5 local5
        fb3 [THEN conjunct1, rule_format] fb3 [THEN conjunct2, rule_format] fb4 [THEN conjunct1, rule_format] fb4 [THEN conjunct2, rule_format])
qed

lemma prologue_facts:
  "only prologue_request tr \<Longrightarrow> starts tr = 0" "only prologue_request tr \<Longrightarrow> (QSourceAwait, a) \<notin> set tr"
  by (erule only_starts only_notin, simp add: prologue_request_def)+

lemma chain_okD:
  assumes "chain_ok dc key tr out"
  shows "(QLruSet u v ttl, a) \<in> set tr \<Longrightarrow>
      u = urn key \<and> out = Inr v \<and> (trackForInvalidation key \<longrightarrow> reads_redis tr \<longrightarrow> starts tr = 0)"
    and "(QDump s v, a) \<in> set tr \<Longrightarrow> out = Inr v \<and> (QSourceAwait, AVal v) \<in> set tr"
    and "(QWrite w, a) \<in> set tr \<Longrightarrow> wr_valueKey w = redisKey key"
    and "out = Inr v \<Longrightarrow> (QSourceAwait, AThrow e) \<in> set tr \<Longrightarrow> recovered dc key tr v"
  using assms unfolding chain_ok_def by blast+

lemma invocation_cases:
  assumes "invocation_ok dc opts dflt tr out"
  obtains (direct) pre t a where "tr = pre @ [(QSourceStart t, AUnit), (QSourceAwait, a)]" "only prologue_request pre"
      "case out of Inl e \<Rightarrow> a = AThrow e | Inr v \<Rightarrow> a = AVal v"
    | (chain) key b where "(QProvider key, b) \<in> set tr" "chain_ok dc key tr out"
  using assms unfolding invocation_ok_def uncached_def by blast





text \<open>
  C28. Outside an enabled context the library is transparent: the only thing that happens is one run of the loader,
  without a deadline, whose result is the result.
\<close>

theorem disabled_context_transparent:
  "observes (executeCacheOperation dc opts dflt t p) (\<lambda>tr out. hd tr = (QIsEnabled, ABool False) \<longrightarrow>
     (\<exists>x. tr = [(QIsEnabled, ABool False), (QSourceStart None, AUnit), (QSourceAwait, x)] \<and>
       out = (case x of AVal v \<Rightarrow> Inr v | AThrow e \<Rightarrow> Inl e)))"
  unfolding executeCacheOperation_def Let_def observes_pbind [of "ask QIsEnabled"] observes_ask_bool sum.case
  by (auto simp: observes_pbind [of "metric _ _"] observes_metric observes_rawFallback intro: observes_true)

text \<open>
  C29. When neither layer has an enabled or ramped-down policy, going through the shared layers is exactly running
  the loader under its deadline: no cache, flight or shadow request is made.
\<close>

theorem disabled_policy_is_source:
  assumes "resolveLayerConfigResult c key LOCAL = LayerDisabled r1"
    and "resolveLayerConfigResult c key REMOTE = LayerDisabled r2"
  shows "observes (getThroughSharedLayers dc key c p t layer) Q \<longleftrightarrow>
    (\<forall>v. Q [(QSourceStart t, AUnit), (QSourceAwait, AVal v)] (Inr v)) \<and>
    (\<forall>e. Q [(QSourceStart t, AUnit), (QSourceAwait, AThrow e)] (Inl e))"
  using assms
  by (auto simp: getThroughSharedLayers_def Let_def resolveRemoteLayerConfigResult_def obs split: option.split)

text \<open>
  C30. A remote invalidation reports exactly what happened: an unsupported buffer or a missing Redis client rejects
  before anything is sent; otherwise one request advances the watermark of the namespace, key type and id, and
  the call resolves if and only if the client acknowledged it.
\<close>

theorem invalidateRemote_exact:
  "observes (invalidateRemote dc kt i b) Q \<longleftrightarrow>
   (let buffer = (if b = JUndef then JNum (Fin 0) else b) in
    case assertSupportedFutureBufferMs buffer of
      Inl e \<Rightarrow> Q [] (Inl e)
    | Inr _ \<Rightarrow>
      (case dc_redis dc of
         None \<Rightarrow> Q [] (Inl (TypeError ''DialCache invalidateRemote requires a configured Redis client''))
       | Some rc \<Rightarrow>
         (case redisWatermarkKey (dc_namespace dc) kt (js_String (dc_fmt dc) i) of
            Inl e \<Rightarrow> Q [] (Inl e)
          | Inr wk \<Rightarrow> Q [(QInvalidate wk (int_of_val buffer), AUnit)] (Inr ()) \<and>
              (\<forall>e. Q [(QInvalidate wk (int_of_val buffer), AThrow e)] (Inl e)))))"
  by (auto simp: invalidateRemote_def invalidate_def Let_def obs split: sum.split option.split)

subsection \<open>Concrete runs\<close>

definition sample_dc :: "redis_cache option \<Rightarrow> dialcache" where
  "sample_dc r = \<lparr>dc_namespace = js ''n'', dc_metrics = False, dc_shadowMetric = False, dc_redis = r,
     dc_localMaxSize = 10, dc_shadowMaxInFlight = 1, dc_fmt = (\<lambda>_. [])\<rparr>"

definition sample_opts :: "bool \<Rightarrow> cache_options" where
  "sample_opts b = \<lparr>opt_useCase = js ''u'', opt_keyType = js ''t'', opt_serializer = None, opt_trackForInvalidation = Some b\<rparr>"

definition sample_spec :: key_spec where
  "sample_spec = \<lparr>spec_id = ArgStr (js ''i''), spec_args = None\<rparr>"

lemma sample_buildKey:
  obtains key where "buildKey (sample_dc r) (sample_opts b) sample_spec (Some (sample_config 100)) = Inr key"
    "defaultConfig key = Some (sample_config 100)" "trackForInvalidation key = b" "serializer key = None"
proof -
  have "\<exists>k. buildKey (sample_dc r) (sample_opts b) sample_spec (Some (sample_config 100)) = Inr k"
    unfolding buildKey_def DialCacheKey_new_ok
    by (simp add: key_init_ok_def sample_dc_def sample_opts_def sample_spec_def normalizeArgs_def sort_by_def has_brace_def
        well_formed_ascii js_def)
  then obtain k where k: "buildKey (sample_dc r) (sample_opts b) sample_spec (Some (sample_config 100)) = Inr k" by blast
  then have "defaultConfig k = Some (sample_config 100)" "trackForInvalidation k = b" "serializer k = None"
    by (auto simp: buildKey_def DialCacheKey_new_def Let_def res_simps sample_opts_def)
  with k that show thesis by blast
qed

lemma sample_policy:
  "resolveLayerConfigResult (Some (sample_config 100)) key LOCAL = LayerEnabled \<lparr>res_ttlSec = 10, res_ramp = 100\<rparr>"
  "resolveRemoteLayerConfigResult (Some (sample_config 100)) key =
     (LayerEnabled \<lparr>res_ttlSec = 60, res_ramp = 100, res_staleMaxAgeSec = Some 300\<rparr>, False)"
  by (simp_all add: resolveLayerConfigResult_def resolveRemoteLayerConfigResult_def sample_config_def remote_layer_def
      stale_window_def Let_def num_in_0_100_iff)

lemma sample_fields [simp]:
  "dc_metrics (sample_dc r) = False" "dc_redis (sample_dc r) = r" "dc_localMaxSize (sample_dc r) = 10"
  "rc_metrics sample_redis = False" "rc_compression sample_redis = None" "rc_readTimeoutMs sample_redis = 50"
  "requestLocal (sample_config q) = Some True" "coalesce (sample_config q) = None" "shadow (sample_config q) = JUndef"
  "remoteReadTimeoutMs (sample_config q) = None"
  by (simp_all add: sample_dc_def sample_redis_def sample_config_def)

lemmas run_defs = executeCacheOperation_def getThroughSharedLayers_def getThroughActiveLocal_def singleFlightProcess_def
  resolveLocalLayerConfig_def readLocalWithResolvedConfig_def localGet_def finishLocalOnly_def callFallback_def
  startFallback_def settleFallback_def awaitSource_def publishLocal_def putLocalFailOpen_def localPut_def
  resolveRemoteLayerConfig_def attempt_def of_res_def pfinally_def ask_def metric_def logMsg_def perfNow_def dateNow_def
  metric_elapsed_def coalesces_def sample_policy fetchKeyConfig_def cacheTtlSecToMs_Inr

lemma publishing_run:
  assumes "buildKey (sample_dc None) (sample_opts b) sample_spec (Some (sample_config 100)) = Inr key"
    "defaultConfig key = Some (sample_config 100)"
  shows "\<exists>tr. replay (executeCacheOperation (sample_dc None) (sample_opts b) (Some (sample_config 100)) (Some 100) p)
     [ABool True, ASpec sample_spec, AProvided JNull, ABool True, ABool False, ABool False, ARat 0, AUnit, ARat 0, AOpt None,
      ARat 0, AUnit, AVal v, AUnit, AUnit] = Some (tr, Inr v) \<and>
     (QLruSet (urn key) v 9999, AUnit) \<in> set tr \<and> list_all (\<lambda>(q, a). well_answered q a) tr"
  using assms
  by (simp add: run_defs Let_def MAX_CACHE_TTL_SEC_def MAX_SUPPORTED_DURATION_MS_def) auto

text \<open>An untracked key: a Redis miss, the loader's value, and its write-back.\<close>

lemmas redis_run_defs = readRemoteWithResolvedConfig_def getWithResolvedConfig_def startRawPayloadRead_def
  validateReadResult_def finishRedisChain_def fallbackOrStale_def put_def putWithLayer_def dumpValue_def envelopeValue_def
  retentionTtlSecFor_def writeTtlMs_def serializerFor_def remoteTimeoutFor_def
  frameAge_def serveByAge_def shouldAttemptStaleRecovery_def recoverRetainedCandidate_def recordMiss_def
  deserializePayload_def recordStaleRecovery_def

lemma writing_run:
  assumes "buildKey (sample_dc (Some sample_redis)) (sample_opts False) sample_spec (Some (sample_config 100)) = Inr key"
    "defaultConfig key = Some (sample_config 100)" "trackForInvalidation key = False" "serializer key = None"
  shows "\<exists>tr. replay (executeCacheOperation (sample_dc (Some sample_redis)) (sample_opts False) (Some (sample_config 100)) None p)
     [ABool True, ASpec sample_spec, AProvided JNull, ABool True, ABool False, ABool False, ARat 0, AUnit, ARat 0, AOpt None,
      ARat 0, ARead RawJunk, ARat 0, AUnit, AVal v, ARat 0, APayload (Text (js ''v'')), AUnit, AUnit, AUnit] = Some (tr, Inr v) \<and>
     (QDump 0 v, APayload (Text (js ''v''))) \<in> set tr \<and>
     (QWrite \<lparr>wr_valueKey = redisKey key, wr_cacheTtlMs = 300000, wr_value = escapeRawPayload (Text (js ''v'')), wr_createdAtMs = None\<rparr>, AUnit)
       \<in> set tr \<and> list_all (\<lambda>(q, a). well_answered q a) tr"
  using assms
  by (simp add: run_defs redis_run_defs Let_def MAX_CACHE_TTL_SEC_def MAX_SUPPORTED_DURATION_MS_def)
    (auto simp: sample_redis_def)

lemma stale_run:
  assumes "buildKey (sample_dc (Some sample_redis)) (sample_opts False) sample_spec (Some (sample_config 100)) = Inr key"
    "defaultConfig key = Some (sample_config 100)" "trackForInvalidation key = False" "serializer key = None"
  shows "\<exists>tr. replay (executeCacheOperation (sample_dc (Some sample_redis)) (sample_opts False) (Some (sample_config 100)) None
       defaultStaleRecoveryPredicate)
     [ABool True, ASpec sample_spec, AProvided JNull, ABool True, ABool False, ABool False, ARat 0, AUnit, ARat 0, AOpt None,
      ARat 0, ARead (RawFrame sample_frame), AInt 100000, ARat 0, AUnit, AThrow (FallbackTimeoutError (js ''u'') 5),
      AInt 100001, ARat 0, ARat 0, AVal v, AInt 100002, AUnit] = Some (tr, Inr v) \<and>
     (QSourceAwait, AThrow (FallbackTimeoutError (js ''u'') 5)) \<in> set tr \<and> list_all (\<lambda>(q, a). well_answered q a) tr"
  using assms
  by (simp add: run_defs redis_run_defs Let_def MAX_CACHE_TTL_SEC_def MAX_SUPPORTED_DURATION_MS_def sample_frame_def
      isValidRedisTimestampMs_iff MAX_SAFE_INTEGER_def MAX_TIME_VALUE_def decompressPayload_def) auto

lemma observed: "x \<in> set tr \<Longrightarrow> observable x \<Longrightarrow> x \<in> set (filter observable tr)"
  by simp

lemma sample_runs:
  fixes v :: 'v
  shows "\<exists>tr u. runs well_answered (executeCacheOperation (sample_dc None) (sample_opts True) (Some (sample_config 100)) (Some 100) p)
      tr (Inr v) \<and> (QLruSet u v 9999, AUnit) \<in> set tr"
    and "\<exists>tr. runs well_answered (executeCacheOperation (sample_dc (Some sample_redis)) (sample_opts False) (Some (sample_config 100)) None p)
      tr (Inr v) \<and> (QDump 0 v, APayload (Text (js ''v''))) \<in> set tr"
    and "\<exists>tr. runs well_answered (executeCacheOperation (sample_dc (Some sample_redis)) (sample_opts False) (Some (sample_config 100)) None
      defaultStaleRecoveryPredicate) tr (Inr v) \<and> (QSourceAwait, AThrow (FallbackTimeoutError (js ''u'') 5)) \<in> set tr"
proof -
  obtain key where "buildKey (sample_dc None) (sample_opts True) sample_spec (Some (sample_config 100)) = Inr key"
    "defaultConfig key = Some (sample_config 100)" by (rule sample_buildKey)
  then show "\<exists>tr u. runs well_answered (executeCacheOperation (sample_dc None) (sample_opts True) (Some (sample_config 100)) (Some 100) p)
      tr (Inr v) \<and> (QLruSet u v 9999, AUnit) \<in> set tr"
    using publishing_run [of True key p v] by (blast intro: replay_runs)
next
  obtain key where k: "buildKey (sample_dc (Some sample_redis)) (sample_opts False) sample_spec (Some (sample_config 100)) = Inr key"
    "defaultConfig key = Some (sample_config 100)" "trackForInvalidation key = False" "serializer key = None" by (rule sample_buildKey)
  show "\<exists>tr. runs well_answered (executeCacheOperation (sample_dc (Some sample_redis)) (sample_opts False) (Some (sample_config 100)) None p)
      tr (Inr v) \<and> (QDump 0 v, APayload (Text (js ''v''))) \<in> set tr"
    using writing_run [OF k, of p v] by (blast intro: replay_runs)
  show "\<exists>tr. runs well_answered (executeCacheOperation (sample_dc (Some sample_redis)) (sample_opts False) (Some (sample_config 100)) None
      defaultStaleRecoveryPredicate) tr (Inr v) \<and> (QSourceAwait, AThrow (FallbackTimeoutError (js ''u'') 5)) \<in> set tr"
    using stale_run [OF k, of v] by (blast intro: replay_runs)
qed




theorem disabled_context_transparent_witness:
  "\<exists>tr. runs well_answered (executeCacheOperation (sample_dc (Some sample_redis)) (sample_opts True) None (Some 100) CustomPredicate)
      tr (Inr (7 :: nat)) \<and> filter observable tr = [(QIsEnabled, ABool False), (QSourceStart None, AUnit), (QSourceAwait, AVal 7)]"
proof -
  let ?p = "executeCacheOperation (sample_dc (Some sample_redis)) (sample_opts True) None (Some 100) CustomPredicate"
  have "replay ?p [ABool False, AUnit, AVal 7] =
      Some ([(QIsEnabled, ABool False), (QSourceStart None, AUnit), (QSourceAwait, AVal 7)], Inr (7 :: nat))"
    by (simp add: executeCacheOperation_def rawFallback_def awaitSource_def ask_def metric_def Let_def)
  then have r: "runs well_answered ?p [(QIsEnabled, ABool False), (QSourceStart None, AUnit), (QSourceAwait, AVal 7)] (Inr (7 :: nat))"
    by (rule replay_runs) auto
  have "\<exists>x. filter observable [(QIsEnabled, ABool False), (QSourceStart None, AUnit), (QSourceAwait, AVal (7 :: nat))] =
      [(QIsEnabled, ABool False), (QSourceStart None, AUnit), (QSourceAwait, x)]"
    using observes_runs [OF disabled_context_transparent r] by simp
  with r show ?thesis by (intro exI conjI) (assumption, simp)
qed

theorem disabled_policy_is_source_witness:
  "observes (getThroughSharedLayers (sample_dc (Some sample_redis)) sample_key None CustomPredicate None LayerLocal :: (nat, nat) cache_prog)
    (\<lambda>tr out. length tr = 2 \<and> starts tr = 1)"
  by (subst disabled_policy_is_source [of None sample_key policy_disabled policy_disabled])
     (simp_all add: resolveLayerConfigResult_def)

end
