(* ===== verification/Deadline.thy ===== *)
theory Deadline
  imports JS_Prelude
begin

section \<open>Monotonic deadlines\<close>

text \<open>
  \<^verbatim>\<open>internal/deadline.ts\<close>, \<^verbatim>\<open>withMonotonicDeadline\<close>, as the state machine its closures form: the variables
  \<^verbatim>\<open>settled\<close> and \<^verbatim>\<open>timer\<close> of one call, and one function per callback. Every callback reads the clock; the
  reading is its argument. A rejection by \<^verbatim>\<open>timeoutError()\<close> is the outcome \<open>DTimeout\<close>; \<open>dl_timeouts\<close> counts the calls
  of \<^verbatim>\<open>onTimeout\<close>. Also \<^verbatim>\<open>withFallbackTimeout\<close> of \<^verbatim>\<open>dialcache.ts\<close>.
\<close>

datatype 'v outcome = DResolve 'v | DReject jserror | DTimeout

text \<open>\<open>dl_timer\<close> is the armed timer: the clock reading at which it was armed and its integral delay.\<close>

record 'v deadline =
  dl_startedAtMs :: rat
  dl_timeoutMs :: rat
  dl_settled :: "'v outcome option"
  dl_timer :: "(rat \<times> int) option"
  dl_timeouts :: nat

definition elapsedMs :: "'v deadline \<Rightarrow> rat \<Rightarrow> rat" where
  "elapsedMs d now = max (now - dl_startedAtMs d) 0"

definition scheduleTimer :: "'v deadline \<Rightarrow> rat \<Rightarrow> rat \<Rightarrow> 'v deadline" where
  "scheduleTimer d now remainingMs = d\<lparr>dl_timer := Some (now, \<lceil>remainingMs\<rceil>)\<rparr>"

definition rejectTimeout :: "'v deadline \<Rightarrow> 'v deadline" where
  "rejectTimeout d =
     (if dl_settled d \<noteq> None then d
      else d\<lparr>dl_settled := Some DTimeout, dl_timer := None, dl_timeouts := Suc (dl_timeouts d)\<rparr>)"

definition onTimer :: "rat \<Rightarrow> 'v deadline \<Rightarrow> 'v deadline" where
  "onTimer now d =
     (let d' = d\<lparr>dl_timer := None\<rparr> in
      if dl_settled d' \<noteq> None then d'
      else let remainingMs = dl_timeoutMs d' - elapsedMs d' now in
        if remainingMs > 0 then scheduleTimer d' now remainingMs else rejectTimeout d')"

definition settleBeforeDeadline :: "rat \<Rightarrow> 'v outcome \<Rightarrow> 'v deadline \<Rightarrow> 'v deadline" where
  "settleBeforeDeadline now r d =
     (if dl_settled d \<noteq> None then d
      else if elapsedMs d now \<ge> dl_timeoutMs d then rejectTimeout d
      else d\<lparr>dl_settled := Some r, dl_timer := None\<rparr>)"

text \<open>The call itself: \<open>startedAtMs\<close>, then the executor of the returned promise at \<open>now\<close>.\<close>

definition withMonotonicDeadline :: "rat \<Rightarrow> rat \<Rightarrow> rat \<Rightarrow> 'v deadline" where
  "withMonotonicDeadline startedAtMs now timeoutMs =
     (let d = \<lparr>dl_startedAtMs = startedAtMs, dl_timeoutMs = timeoutMs, dl_settled = None, dl_timer = None, dl_timeouts = 0\<rparr>;
          remainingMs = timeoutMs - elapsedMs d now
      in if remainingMs \<le> 0 then rejectTimeout d else scheduleTimer d now remainingMs)"

text \<open>The operation settles at most once; the timer fires only while armed.\<close>

datatype 'v event = TimerFires rat | Fulfills rat 'v | Rejects rat jserror

fun event_time :: "'v event \<Rightarrow> rat" where
  "event_time (TimerFires now) = now"
| "event_time (Fulfills now _) = now"
| "event_time (Rejects now _) = now"

fun deadline_event :: "'v event \<Rightarrow> 'v deadline \<Rightarrow> 'v deadline" where
  "deadline_event (TimerFires now) d = (if dl_timer d = None then d else onTimer now d)"
| "deadline_event (Fulfills now v) d = settleBeforeDeadline now (DResolve v) d"
| "deadline_event (Rejects now e) d = settleBeforeDeadline now (DReject e) d"

text \<open>\<^verbatim>\<open>withFallbackTimeout\<close>: what the caller of a deadlined fallback sees.\<close>

definition fallback_result :: "jsstring \<Rightarrow> int \<Rightarrow> 'v outcome \<Rightarrow> 'v res" where
  "fallback_result useCaseName timeoutMs r =
     (case r of DResolve v \<Rightarrow> Inr v | DReject e \<Rightarrow> Inl e | DTimeout \<Rightarrow> Inl (FallbackTimeoutError useCaseName timeoutMs))"

subsection \<open>What it promises\<close>

text \<open>
  The abstract deadline: of the events in order, the first that decides. The operation's own settlement decides
  with its result if it comes strictly before the deadline; any event at or after the deadline decides for the
  timeout; an early timer decides nothing.
\<close>

fun decides :: "rat \<Rightarrow> 'v event \<Rightarrow> 'v outcome option" where
  "decides deadlineMs (TimerFires now) = (if now < deadlineMs then None else Some DTimeout)"
| "decides deadlineMs (Fulfills now v) = Some (if now < deadlineMs then DResolve v else DTimeout)"
| "decides deadlineMs (Rejects now e) = Some (if now < deadlineMs then DReject e else DTimeout)"

fun first_decision :: "rat \<Rightarrow> 'v event list \<Rightarrow> 'v outcome option" where
  "first_decision deadlineMs [] = None"
| "first_decision deadlineMs (e # es) =
     (case decides deadlineMs e of Some r \<Rightarrow> Some r | None \<Rightarrow> first_decision deadlineMs es)"

text \<open>The invariant: a pending deadline is armed, and never to fire after it was due by a whole millisecond.\<close>

definition deadline_inv :: "'v deadline \<Rightarrow> bool" where
  "deadline_inv d \<longleftrightarrow> dl_timeoutMs d > 0 \<and>
     (case dl_settled d of
        None \<Rightarrow> dl_timeouts d = 0 \<and>
          (\<exists>armedAt delay. dl_timer d = Some (armedAt, delay) \<and> delay > 0 \<and>
             dl_startedAtMs d + dl_timeoutMs d \<le> max armedAt (dl_startedAtMs d) + of_int delay \<and>
             max armedAt (dl_startedAtMs d) + of_int delay < dl_startedAtMs d + dl_timeoutMs d + 1)
      | Some r \<Rightarrow> dl_timer d = None \<and> dl_timeouts d = (if r = DTimeout then 1 else 0))"

lemmas deadline_defs = scheduleTimer_def rejectTimeout_def onTimer_def settleBeforeDeadline_def
  withMonotonicDeadline_def elapsedMs_def

lemma deadline_constants [simp]:
  "dl_startedAtMs (deadline_event e d) = dl_startedAtMs d" "dl_timeoutMs (deadline_event e d) = dl_timeoutMs d"
  by (cases e; simp add: deadline_defs Let_def)+

lemma scheduled_inv:
  assumes "dl_settled d = None" "dl_timeouts d = 0" "dl_timeoutMs d > 0" "dl_timeoutMs d - elapsedMs d now > 0"
  shows "deadline_inv (scheduleTimer d now (dl_timeoutMs d - elapsedMs d now))"
proof -
  define x where "x = dl_timeoutMs d - elapsedMs d now"
  have sum: "max now (dl_startedAtMs d) + x = dl_startedAtMs d + dl_timeoutMs d"
    by (simp add: x_def elapsedMs_def max_def)
  have "x \<le> of_int \<lceil>x\<rceil>" "of_int \<lceil>x\<rceil> < x + 1" using ceiling_correct [of x] by linarith+
  with sum have "dl_startedAtMs d + dl_timeoutMs d \<le> max now (dl_startedAtMs d) + of_int \<lceil>x\<rceil>"
    "max now (dl_startedAtMs d) + of_int \<lceil>x\<rceil> < dl_startedAtMs d + dl_timeoutMs d + 1" by linarith+
  moreover have "0 < \<lceil>x\<rceil>" using assms(4) by (simp add: x_def)
  ultimately show ?thesis
    using assms(1-3) unfolding x_def [symmetric] by (simp add: deadline_inv_def scheduleTimer_def)
qed

lemma rejected_inv: "dl_settled d = None \<Longrightarrow> dl_timeouts d = 0 \<Longrightarrow> dl_timeoutMs d > 0 \<Longrightarrow> deadline_inv (rejectTimeout d)"
  by (simp add: deadline_inv_def rejectTimeout_def)

lemma inv_init:
  assumes "timeoutMs > 0"
  shows "deadline_inv (withMonotonicDeadline s now timeoutMs :: 'v deadline)"
proof -
  let ?d = "\<lparr>dl_startedAtMs = s, dl_timeoutMs = timeoutMs, dl_settled = None, dl_timer = None, dl_timeouts = 0\<rparr> :: 'v deadline"
  from assms scheduled_inv [of ?d now] rejected_inv [of ?d] show ?thesis
    unfolding withMonotonicDeadline_def Let_def by (simp add: not_le)
qed

lemma inv_onTimer:
  assumes "deadline_inv d"
  shows "deadline_inv (onTimer now d)"
proof (cases "dl_settled d")
  case None
  let ?d = "d\<lparr>dl_timer := None\<rparr>"
  from assms None scheduled_inv [of ?d now] rejected_inv [of ?d] show ?thesis
    unfolding onTimer_def Let_def by (simp add: deadline_inv_def [of d])
qed (use assms in \<open>simp add: onTimer_def Let_def deadline_inv_def\<close>)

lemma inv_settle:
  assumes "deadline_inv d" "r \<noteq> DTimeout"
  shows "deadline_inv (settleBeforeDeadline now r d)"
proof (cases "dl_settled d")
  case None
  with assms rejected_inv [of d] show ?thesis
    by (auto simp: settleBeforeDeadline_def) (auto simp: deadline_inv_def)
qed (use assms in \<open>simp add: settleBeforeDeadline_def\<close>)

lemma inv_event: "deadline_inv d \<Longrightarrow> deadline_inv (deadline_event e d)"
  by (cases e) (auto intro: inv_onTimer inv_settle)

lemma inv_events: "deadline_inv d \<Longrightarrow> deadline_inv (fold deadline_event es d)"
  by (induction es arbitrary: d) (auto intro: inv_event)

lemma settled_event: "dl_settled d = Some r \<Longrightarrow> dl_settled (deadline_event e d) = Some r"
  by (cases e) (auto simp: deadline_defs Let_def)

lemma settled_events: "dl_settled d = Some r \<Longrightarrow> dl_settled (fold deadline_event es d) = Some r"
  by (induction es arbitrary: d) (auto intro: settled_event)

lemma event_decides:
  assumes "deadline_inv d" "dl_settled d = None"
  shows "dl_settled (deadline_event e d) = decides (dl_startedAtMs d + dl_timeoutMs d) e"
  using assms by (cases e) (auto simp: deadline_inv_def deadline_defs Let_def)

lemma events_decide:
  assumes "deadline_inv d" "dl_settled d = None"
  shows "dl_settled (fold deadline_event es d) = first_decision (dl_startedAtMs d + dl_timeoutMs d) es"
  using assms
proof (induction es arbitrary: d)
  case (Cons e es)
  show ?case
  proof (cases "decides (dl_startedAtMs d + dl_timeoutMs d) e")
    case None
    then show ?thesis using Cons.IH [OF inv_event [OF Cons.prems(1)], of e] Cons.prems by (simp add: event_decides)
  next
    case (Some r)
    then show ?thesis using Cons.prems by (simp add: event_decides settled_events)
  qed
qed simp

lemma init_decides:
  "timeoutMs > 0 \<Longrightarrow> dl_settled (withMonotonicDeadline s now timeoutMs) = (if now < s + timeoutMs then None else Some DTimeout)"
  "dl_startedAtMs (withMonotonicDeadline s now timeoutMs) = s" "dl_timeoutMs (withMonotonicDeadline s now timeoutMs) = timeoutMs"
  by (auto simp: deadline_defs Let_def)

text \<open>
  C14. The deadline implements its abstract specification on every sequence of timer firings and settlements, early,
  late, repeated or out of order: the promise takes the first decision and keeps it. The operation's result is
  delivered exactly when it settles strictly before the deadline, everything else is the one timeout.
\<close>

theorem deadline_refines_first_decision:
  assumes "timeoutMs > 0"
  shows "dl_settled (fold deadline_event es (withMonotonicDeadline s now timeoutMs)) =
    (if now < s + timeoutMs then first_decision (s + timeoutMs) es else Some DTimeout)"
  using events_decide [OF inv_init [OF assms, of s now], of es]
    settled_events [of "withMonotonicDeadline s now timeoutMs" DTimeout es]
  by (simp add: init_decides assms)

theorem deadline_refines_first_decision_witness:
  "dl_settled (fold deadline_event [TimerFires 9, Rejects (19/2) URIError, Fulfills 9 (3::nat), TimerFires 20] (withMonotonicDeadline 0 0 10)) =
     Some (DReject URIError) \<and>
   dl_settled (fold deadline_event [TimerFires 9, Fulfills 10 (3::nat), Rejects 11 URIError] (withMonotonicDeadline 0 0 10)) = Some DTimeout"
  using deadline_refines_first_decision [of 10 "[TimerFires 9, Rejects (19/2) URIError, Fulfills 9 (3::nat), TimerFires 20]" 0 0]
    deadline_refines_first_decision [of 10 "[TimerFires 9, Fulfills 10 (3::nat), Rejects 11 URIError]" 0 0]
  by simp

text \<open>
  C31. The promise cannot stay pending: as long as it is unsettled a timer is armed, due at or after the deadline and
  less than a millisecond late; when that timer fires at its due time or later, whatever happened before, the
  promise rejects with the timeout, and \<^verbatim>\<open>onTimeout\<close> has then been called exactly once.
\<close>

theorem deadline_live:
  assumes "timeoutMs > 0" "d = fold deadline_event es (withMonotonicDeadline s now timeoutMs)" "dl_settled d = None"
  shows "\<exists>armedAt delay. dl_timer d = Some (armedAt, delay) \<and>
    s + timeoutMs \<le> max armedAt s + of_int delay \<and> max armedAt s + of_int delay < s + timeoutMs + 1 \<and>
    (\<forall>t \<ge> max armedAt s + of_int delay.
       dl_settled (deadline_event (TimerFires t) d) = Some DTimeout \<and> dl_timeouts (deadline_event (TimerFires t) d) = 1)"
proof -
  have const: "dl_startedAtMs (fold deadline_event es d') = dl_startedAtMs d'" "dl_timeoutMs (fold deadline_event es d') = dl_timeoutMs d'" for d' :: "'a deadline"
    by (induction es arbitrary: d') simp_all
  have inv: "deadline_inv d" using assms(1,2) by (simp add: inv_events inv_init)
  moreover have "dl_startedAtMs d = s" "dl_timeoutMs d = timeoutMs" using assms(2) by (simp_all add: const init_decides)
  ultimately obtain armedAt delay where t: "dl_timer d = Some (armedAt, delay)"
    "s + timeoutMs \<le> max armedAt s + of_int delay" "max armedAt s + of_int delay < s + timeoutMs + 1"
    using assms(3) by (auto simp: deadline_inv_def)
  have "dl_settled (deadline_event (TimerFires u) d) = Some DTimeout \<and> dl_timeouts (deadline_event (TimerFires u) d) = 1"
    if "u \<ge> max armedAt s + of_int delay" for u
  proof -
    have "dl_settled (deadline_event (TimerFires u) d) = Some DTimeout"
      using event_decides [OF inv assms(3), of "TimerFires u"] that t \<open>dl_startedAtMs d = s\<close> \<open>dl_timeoutMs d = timeoutMs\<close> by simp
    with inv_event [OF inv, of "TimerFires u"] show ?thesis by (simp add: deadline_inv_def)
  qed
  with t show ?thesis by blast
qed

theorem deadline_live_witness:
  "\<exists>armedAt delay. dl_timer (fold deadline_event [TimerFires 9] (withMonotonicDeadline 0 0 10 :: nat deadline)) = Some (armedAt, delay) \<and>
    (10 :: rat) \<le> max armedAt 0 + of_int delay"
  using deadline_live [of 10 _ "[TimerFires 9]" 0 0, OF _ refl]
  by (auto simp: deadline_defs Let_def)

end
