(* ===== verification/Coalescing.thy ===== *)
theory Coalescing
  imports JS_Prelude "HOL-Library.AList"
begin

section \<open>Single-flight tables\<close>

text \<open>
  The two tables that coalesce concurrent invocations of \<^verbatim>\<open>dialcache.ts\<close>: \<^verbatim>\<open>processFlights\<close> with
  \<^verbatim>\<open>activeProcessFollowers\<close>, and the \<^verbatim>\<open>inFlight\<close> map of one request. A \<^verbatim>\<open>Map\<close> is the list of its entries in
  insertion order. Promises and flight objects are the numbers that identify them. The methods
  \<^verbatim>\<open>singleFlightProcess\<close> and \<^verbatim>\<open>singleFlightRequestLocal\<close> run without interruption up to the promise they return;
  \<^verbatim>\<open>clear\<close> runs when that promise settles. The interface a coalescing caller relies on is the locale
  \<open>flight_table\<close>, interpreted on both tables.
\<close>

record process_flight =
  fl_promise :: "nat option"
  fl_startedAtMs :: rat
  fl_followers :: nat

record process_table =
  pt_flights :: "(jsstring \<times> process_flight) list"
  pt_activeFollowers :: int

text \<open>What a call returns: the promise it leads, the one it joins, or an exception.\<close>

datatype flight_call = Leads nat | Joins nat | FlightError jserror

fun promise_of :: "flight_call \<Rightarrow> nat option" where
  "promise_of (Leads p) = Some p"
| "promise_of (Joins p) = Some p"
| "promise_of (FlightError _) = None"

subsection \<open>The process table\<close>

definition joinProcess :: "jsstring \<Rightarrow> process_flight \<Rightarrow> process_table \<Rightarrow> flight_call \<times> process_table" where
  "joinProcess u existing st =
     (case fl_promise existing of
        None \<Rightarrow> (FlightError (PlainError ''DialCache process flight was joined before initialization''), st)
      | Some p \<Rightarrow>
          (Joins p, st\<lparr>pt_flights := AList.update u (existing\<lparr>fl_followers := fl_followers existing + 1\<rparr>) (pt_flights st),
                     pt_activeFollowers := pt_activeFollowers st + 1\<rparr>))"

definition registerFlight :: "jsstring \<Rightarrow> rat \<Rightarrow> process_table \<Rightarrow> process_table" where
  "registerFlight u now st =
     st\<lparr>pt_flights := AList.update u \<lparr>fl_promise = None, fl_startedAtMs = now, fl_followers = 0\<rparr> (pt_flights st)\<rparr>"

definition publishFlight :: "jsstring \<Rightarrow> nat \<Rightarrow> process_table \<Rightarrow> process_table" where
  "publishFlight u p st = st\<lparr>pt_flights := AList.map_entry u (\<lambda>f. f\<lparr>fl_promise := Some p\<rparr>) (pt_flights st)\<rparr>"

text \<open>\<open>started\<close>: the promise \<^verbatim>\<open>run()\<close> returned, or the exception it threw.\<close>

definition flightProcess :: "jsstring \<Rightarrow> rat \<Rightarrow> nat res \<Rightarrow> process_table \<Rightarrow> flight_call \<times> process_table" where
  "flightProcess u now started st =
     (case map_of (pt_flights st) u of
        Some existing \<Rightarrow> joinProcess u existing st
      | None \<Rightarrow>
          let st' = registerFlight u now st in
          case started of
            Inl e \<Rightarrow> (FlightError e, st'\<lparr>pt_flights := AList.delete u (pt_flights st')\<rparr>)
          | Inr p \<Rightarrow> (Leads p, publishFlight u p st'))"

definition clearProcess :: "jsstring \<Rightarrow> nat \<Rightarrow> process_table \<Rightarrow> process_table" where
  "clearProcess u p st =
     (case map_of (pt_flights st) u of
        Some f \<Rightarrow>
          if fl_promise f = Some p
          then st\<lparr>pt_activeFollowers := pt_activeFollowers st - int (fl_followers f),
                  pt_flights := AList.delete u (pt_flights st)\<rparr>
          else st
      | None \<Rightarrow> st)"

record ProcessCoalescingState =
  cs_activeLeaders :: nat
  cs_activeFollowers :: int
  cs_oldestLeaderAgeMs :: "rat option"

definition getCoalescingState :: "rat \<Rightarrow> process_table \<Rightarrow> ProcessCoalescingState" where
  "getCoalescingState now st =
     \<lparr>cs_activeLeaders = length (pt_flights st), cs_activeFollowers = pt_activeFollowers st,
      cs_oldestLeaderAgeMs =
        (case pt_flights st of [] \<Rightarrow> None | (_, oldestFlight) # _ \<Rightarrow> Some (max (now - fl_startedAtMs oldestFlight) 0))\<rparr>"

subsection \<open>The request-local table\<close>

type_synonym request_table = "(jsstring \<times> nat) list"

definition flightRequestLocal :: "jsstring \<Rightarrow> nat \<Rightarrow> request_table \<Rightarrow> flight_call \<times> request_table" where
  "flightRequestLocal u p inFlight =
     (case map_of inFlight u of Some q \<Rightarrow> (Joins q, inFlight) | None \<Rightarrow> (Leads p, AList.update u p inFlight))"

definition clearRequestLocal :: "jsstring \<Rightarrow> nat \<Rightarrow> request_table \<Rightarrow> request_table" where
  "clearRequestLocal u p inFlight = (if map_of inFlight u = Some p then AList.delete u inFlight else inFlight)"

subsection \<open>The interface of a flight table\<close>

locale flight_table =
  fixes find_flight :: "'s \<Rightarrow> jsstring \<Rightarrow> nat option"
    and enter :: "jsstring \<Rightarrow> rat \<Rightarrow> nat \<Rightarrow> 's \<Rightarrow> flight_call \<times> 's"
    and clear :: "jsstring \<Rightarrow> nat \<Rightarrow> 's \<Rightarrow> 's"
    and table_inv :: "'s \<Rightarrow> bool"
  assumes lead: "table_inv s \<Longrightarrow> find_flight s u = None \<Longrightarrow>
      fst (enter u now p s) = Leads p \<and> find_flight (snd (enter u now p s)) = (find_flight s)(u \<mapsto> p)"
    and join: "table_inv s \<Longrightarrow> find_flight s u = Some q \<Longrightarrow>
      fst (enter u now p s) = Joins q \<and> find_flight (snd (enter u now p s)) = find_flight s"
    and clear: "table_inv s \<Longrightarrow> find_flight (clear u p s) =
      (if find_flight s u = Some p then (find_flight s)(u := None) else find_flight s)"
    and enter_inv: "table_inv s \<Longrightarrow> table_inv (snd (enter u now p s))"
    and clear_inv: "table_inv s \<Longrightarrow> table_inv (clear u p s)"
begin

text \<open>A history of the table: callers enter, promises settle.\<close>

fun step :: "(jsstring \<times> rat \<times> nat) + (jsstring \<times> nat) \<Rightarrow> 's \<Rightarrow> 's" where
  "step (Inl (u, now, p)) s = snd (enter u now p s)"
| "step (Inr (u, p)) s = clear u p s"

lemma step_inv: "table_inv s \<Longrightarrow> table_inv (step e s)"
  by (cases e) (auto simp: enter_inv clear_inv)

lemma fold_inv: "table_inv s \<Longrightarrow> table_inv (fold step es s)"
  by (induction es arbitrary: s) (auto simp: step_inv)

lemma step_keeps:
  assumes "table_inv s" "find_flight s u = Some q" "e \<noteq> Inr (u, q)"
  shows "find_flight (step e s) u = Some q"
proof (cases e)
  case (Inl x)
  obtain v now p where x: "x = (v, now, p)" by (cases x)
  with Inl assms show ?thesis by (cases "find_flight s v") (auto simp: lead join)
next
  case (Inr y)
  obtain v p where y: "y = (v, p)" by (cases y)
  from assms(3) Inr y have "v \<noteq> u \<or> p \<noteq> q" by auto
  with Inr y assms(1,2) show ?thesis by (auto simp: clear)
qed

text \<open>From the moment a caller leads until its promise settles, every caller of the key shares its promise.\<close>

lemma one_flight:
  assumes "table_inv s" "find_flight s u = Some q" "Inr (u, q) \<notin> set es"
  shows "fst (enter u now p (fold step es s)) = Joins q"
proof -
  have "table_inv (fold step es s) \<and> find_flight (fold step es s) u = Some q"
    using assms
  proof (induction es arbitrary: s)
    case (Cons e es)
    then show ?case by (auto simp: step_inv step_keeps)
  qed simp
  then show ?thesis using join [of "fold step es s" u q now p] by simp
qed

lemma enter_total: "table_inv s \<Longrightarrow> promise_of (fst (enter u now p s)) =
    (case find_flight s u of Some q \<Rightarrow> Some q | None \<Rightarrow> Some p)"
  by (cases "find_flight s u") (simp_all add: lead join)

end

subsection \<open>The process table implements the interface\<close>

definition proc_find :: "process_table \<Rightarrow> jsstring \<Rightarrow> nat option" where
  "proc_find st u = Option.bind (map_of (pt_flights st) u) fl_promise"

definition followers_total :: "(jsstring \<times> process_flight) list \<Rightarrow> int" where
  "followers_total fs = (\<Sum>(u, f) \<leftarrow> fs. int (fl_followers f))"

definition proc_inv :: "process_table \<Rightarrow> bool" where
  "proc_inv st \<longleftrightarrow> distinct (map fst (pt_flights st)) \<and> (\<forall>(u, f) \<in> set (pt_flights st). fl_promise f \<noteq> None) \<and>
     pt_activeFollowers st = followers_total (pt_flights st)"

lemma followers_total_simps [simp]:
  "followers_total [] = 0" "followers_total ((u, f) # fs) = int (fl_followers f) + followers_total fs"
  "followers_total (fs @ gs) = followers_total fs + followers_total gs"
  by (simp_all add: followers_total_def)

lemma followers_update:
  "distinct (map fst fs) \<Longrightarrow> map_of fs u = Some f \<Longrightarrow>
   followers_total (AList.update u g fs) = followers_total fs - int (fl_followers f) + int (fl_followers g)"
  by (induction fs) (auto split: if_splits)

lemma delete_absent: "map_of fs u = None \<Longrightarrow> AList.delete u fs = fs"
  by (induction fs) (auto split: if_splits)

lemma followers_delete:
  "distinct (map fst fs) \<Longrightarrow> map_of fs u = Some f \<Longrightarrow>
   followers_total (AList.delete u fs) = followers_total fs - int (fl_followers f)"
  by (induction fs) (auto simp: delete_absent map_of_eq_None_iff split: if_splits)

lemma lead_flights:
  assumes "map_of fs u = None"
  shows "AList.map_entry u h (fs @ [(u, f)]) = fs @ [(u, h f)]" "AList.update u f fs = fs @ [(u, f)]"
  using assms by (induction fs) (auto split: if_splits)

lemma set_update_subset: "set (AList.update u g fs) \<subseteq> insert (u, g) (set fs)"
  by (induction fs) auto

lemma flightProcess_lead:
  assumes "map_of (pt_flights st) u = None"
  shows "flightProcess u now (Inr p) st = (Leads p, st\<lparr>pt_flights := pt_flights st @
    [(u, \<lparr>fl_promise = Some p, fl_startedAtMs = now, fl_followers = 0\<rparr>)]\<rparr>)"
  using assms by (simp add: flightProcess_def registerFlight_def publishFlight_def lead_flights Let_def)

lemma flightProcess_join:
  assumes "map_of (pt_flights st) u = Some f" "fl_promise f = Some q"
  shows "flightProcess u now started st = (Joins q, st\<lparr>pt_flights := AList.update u (f\<lparr>fl_followers := fl_followers f + 1\<rparr>) (pt_flights st),
    pt_activeFollowers := pt_activeFollowers st + 1\<rparr>)"
  using assms by (simp add: flightProcess_def joinProcess_def)

text \<open>A run that throws synchronously leaves the table as it was.\<close>

lemma flightProcess_throw:
  assumes "map_of (pt_flights st) u = None"
  shows "flightProcess u now (Inl e) st = (FlightError e, st)"
  using assms by (simp add: flightProcess_def registerFlight_def Let_def delete_update_same delete_absent)

lemma proc_inv_flight: "proc_inv st \<Longrightarrow> map_of (pt_flights st) u = Some f \<Longrightarrow> \<exists>q. fl_promise f = Some q"
  by (auto simp: proc_inv_def dest!: map_of_SomeD)

lemma proc_inv_enter:
  assumes "proc_inv st"
  shows "proc_inv (snd (flightProcess u now (Inr p) st))"
proof (cases "map_of (pt_flights st) u")
  case None
  with assms show ?thesis by (auto simp: flightProcess_lead proc_inv_def map_of_eq_None_iff)
next
  case (Some f)
  with assms obtain q where q: "fl_promise f = Some q" using proc_inv_flight by blast
  have "fl_promise g \<noteq> None" if "(v, g) \<in> set (AList.update u (f\<lparr>fl_followers := fl_followers f + 1\<rparr>) (pt_flights st))" for v g
    using set_mp [OF set_update_subset that] assms q by (auto simp: proc_inv_def)
  with assms Some q show ?thesis
    by (auto simp: flightProcess_join proc_inv_def followers_update distinct_update)
qed

lemma set_delete_subset: "set (AList.delete u fs) \<subseteq> set fs"
  by (auto simp: AList.delete_eq)

lemma proc_inv_clear: "proc_inv st \<Longrightarrow> proc_inv (clearProcess u p st)"
  by (auto simp: clearProcess_def proc_inv_def followers_delete distinct_delete split: option.split
      dest: set_mp [OF set_delete_subset])

interpretation process_flights: flight_table proc_find "\<lambda>u now p. flightProcess u now (Inr p)" clearProcess proc_inv
proof
  fix s :: process_table and u now p
  assume inv: "proc_inv s"
  show "proc_inv (snd (flightProcess u now (Inr p) s))" "proc_inv (clearProcess u p s)"
    using inv by (simp_all add: proc_inv_enter proc_inv_clear)
  show "fst (flightProcess u now (Inr p) s) = Leads p \<and> proc_find (snd (flightProcess u now (Inr p) s)) = (proc_find s)(u \<mapsto> p)"
    if "proc_find s u = None"
  proof -
    from that proc_inv_flight [OF inv] have "map_of (pt_flights s) u = None" by (fastforce simp: proc_find_def split: bind_splits)
    then show ?thesis
      by (auto simp: flightProcess_lead proc_find_def fun_eq_iff map_add_def split: option.split)
  qed
  show "fst (flightProcess u now (Inr p) s) = Joins q \<and> proc_find (snd (flightProcess u now (Inr p) s)) = proc_find s"
    if "proc_find s u = Some q" for q
  proof -
    from that obtain f where "map_of (pt_flights s) u = Some f" "fl_promise f = Some q"
      by (auto simp: proc_find_def bind_eq_Some_conv)
    then show ?thesis by (auto simp: flightProcess_join proc_find_def fun_eq_iff update_conv')
  qed
  show "proc_find (clearProcess u p s) = (if proc_find s u = Some p then (proc_find s)(u := None) else proc_find s)"
    by (auto simp: clearProcess_def proc_find_def fun_eq_iff delete_conv' split: option.split)
qed

interpretation request_flights: flight_table map_of "\<lambda>u now. flightRequestLocal u" clearRequestLocal "\<lambda>_. True"
  by unfold_locales (auto simp: flightRequestLocal_def clearRequestLocal_def update_conv' delete_conv')

text \<open>
  C11. Single flight, in both scopes: whatever other callers enter and whatever other promises settle, from the
  moment a caller leads a key until its promise settles every caller of that key joins this promise and none starts
  a second run; a caller that finds no flight leads its own.
\<close>

theorem single_flight:
  assumes "proc_inv st" "proc_find st u = Some q" "Inr (u, q) \<notin> set es"
    and "map_of inFlight u = Some r" "Inr (u, r) \<notin> set es"
  shows "fst (flightProcess u now (Inr p) (fold process_flights.step es st)) = Joins q \<and>
    fst (flightRequestLocal u p (fold request_flights.step es inFlight)) = Joins r"
  using process_flights.one_flight [OF assms(1-3)] request_flights.one_flight [OF _ assms(4,5)] by simp

definition flight_table_sample :: process_table where
  "flight_table_sample = snd (flightProcess (js ''a'') 0 (Inr 1) \<lparr>pt_flights = [], pt_activeFollowers = 0\<rparr>)"

theorem single_flight_witness:
  "fst (flightProcess (js ''a'') 9 (Inr 5) (fold process_flights.step [Inl (js ''b'', 3, 2), Inr (js ''b'', 2), Inr (js ''a'', 7)]
      flight_table_sample)) = Joins 1 \<and>
   fst (flightRequestLocal (js ''a'') 5 (fold request_flights.step [Inl (js ''b'', 3, 2), Inr (js ''b'', 2), Inr (js ''a'', 7)]
      [(js ''a'', 1)])) = Joins 1"
proof (rule single_flight)
  show "proc_inv flight_table_sample" "proc_find flight_table_sample (js ''a'') = Some 1"
    by (simp_all add: flight_table_sample_def flightProcess_lead proc_inv_def proc_find_def)
qed simp_all

subsection \<open>The reported state is exact\<close>

text \<open>
  The abstract state: the invocations that are waiting, in the order they arrived, each with the promise it waits
  for. The first of a key waits for its own promise, which carries its number.
\<close>

record waiter =
  w_caller :: nat
  w_urn :: jsstring
  w_promise :: nat
  w_since :: rat

datatype call_event = Arrives nat jsstring rat | Settles jsstring nat

definition leads :: "waiter \<Rightarrow> bool" where
  "leads w \<longleftrightarrow> w_promise w = w_caller w"

fun spec_event :: "call_event \<Rightarrow> waiter list \<Rightarrow> waiter list" where
  "spec_event (Arrives c u now) ws =
     ws @ [\<lparr>w_caller = c, w_urn = u,
            w_promise = (case find (\<lambda>w. w_urn w = u) ws of Some w \<Rightarrow> w_promise w | None \<Rightarrow> c), w_since = now\<rparr>]"
| "spec_event (Settles u p) ws = filter (\<lambda>w. \<not> (w_urn w = u \<and> w_promise w = p)) ws"

fun table_event :: "call_event \<Rightarrow> process_table \<Rightarrow> process_table" where
  "table_event (Arrives c u now) st = snd (flightProcess u now (Inr c) st)"
| "table_event (Settles u p) st = clearProcess u p st"

fun event_caller :: "call_event \<Rightarrow> nat list" where
  "event_caller (Arrives c _ _) = [c]"
| "event_caller (Settles _ _) = []"

definition follower_count :: "jsstring \<Rightarrow> waiter list \<Rightarrow> nat" where
  "follower_count u ws = length (filter (\<lambda>w. w_urn w = u \<and> \<not> leads w) ws)"

definition flight_of :: "waiter list \<Rightarrow> waiter \<Rightarrow> jsstring \<times> process_flight" where
  "flight_of ws w = (w_urn w, \<lparr>fl_promise = Some (w_caller w), fl_startedAtMs = w_since w, fl_followers = follower_count (w_urn w) ws\<rparr>)"

text \<open>Every waiter waits for the one leader of its key.\<close>

definition waiters_ok :: "waiter list \<Rightarrow> bool" where
  "waiters_ok ws \<longleftrightarrow> (\<forall>w \<in> set ws. \<exists>l \<in> set ws. leads l \<and> w_urn l = w_urn w \<and> w_promise w = w_caller l) \<and>
     distinct (map w_urn (filter leads ws))"

definition implements :: "process_table \<Rightarrow> waiter list \<Rightarrow> bool" where
  "implements st ws \<longleftrightarrow> pt_flights st = map (flight_of ws) (filter leads ws) \<and>
     pt_activeFollowers st = int (length (filter (\<lambda>w. \<not> leads w) ws)) \<and> waiters_ok ws"

lemma leader_unique:
  assumes "waiters_ok ws" "l \<in> set ws" "l' \<in> set ws" "leads l" "leads l'" "w_urn l = w_urn l'"
  shows "l = l'"
  using assms inj_onD [of w_urn "set (filter leads ws)" l l'] by (auto simp: waiters_ok_def distinct_map)

lemma fst_flight_of [simp]: "fst (flight_of ws w) = w_urn w"
  by (simp add: flight_of_def)

lemma implements_keys: "implements st ws \<Longrightarrow> distinct (map fst (pt_flights st)) \<and> map fst (pt_flights st) = map w_urn (filter leads ws)"
  by (auto simp: implements_def waiters_ok_def comp_def)

lemma implements_flight:
  assumes "implements st ws" "l \<in> set ws" "leads l"
  shows "map_of (pt_flights st) (w_urn l) = Some (snd (flight_of ws l))"
proof -
  have "flight_of ws l \<in> set (pt_flights st)" using assms by (auto simp: implements_def)
  with implements_keys [OF assms(1)] show ?thesis
    by (metis fst_flight_of map_of_is_SomeI prod.collapse)
qed

lemma implements_absent:
  assumes "implements st ws" "\<And>w. w \<in> set ws \<Longrightarrow> w_urn w \<noteq> u"
  shows "map_of (pt_flights st) u = None"
proof -
  have "u \<notin> set (map fst (pt_flights st))" using assms(2) implements_keys [OF assms(1)] by auto
  then show ?thesis by (simp add: map_of_eq_None_iff)
qed

lemma update_map:
  "distinct (map fst fs) \<Longrightarrow> u \<in> fst ` set fs \<Longrightarrow>
   AList.update u g fs = map (\<lambda>(k, f). if k = u then (k, g) else (k, f)) fs"
  by (induction fs) (force intro!: map_idI [symmetric] split: if_splits)+

lemma arrive_leads:
  assumes "implements st ws" "\<And>w. w \<in> set ws \<Longrightarrow> w_urn w \<noteq> u"
  shows "implements (table_event (Arrives c u now) st) (spec_event (Arrives c u now) ws)"
proof -
  let ?w = "\<lparr>w_caller = c, w_urn = u, w_promise = c, w_since = now\<rparr>"
  have "find (\<lambda>w. w_urn w = u) ws = None" using assms(2) by (simp add: find_None_iff)
  moreover have "leads ?w" by (simp add: leads_def)
  moreover have "flight_of (ws @ [?w]) w = flight_of ws w" for w by (simp add: flight_of_def follower_count_def leads_def)
  moreover have "follower_count u ws = 0" using assms(2) by (simp add: follower_count_def filter_empty_conv)
  moreover have "waiters_ok (ws @ [?w])" using assms by (auto simp: implements_def waiters_ok_def leads_def)
  ultimately show ?thesis
    using assms(1) implements_absent [OF assms] by (simp add: implements_def flightProcess_lead) (simp add: flight_of_def)
qed

lemma arrive_joins:
  assumes "implements st ws" "l \<in> set ws" "leads l" "w_urn l = u" "c \<notin> w_caller ` set ws"
  shows "implements (table_event (Arrives c u now) st) (spec_event (Arrives c u now) ws)"
proof -
  have ok: "waiters_ok ws" using assms(1) by (simp add: implements_def)
  obtain w where w: "find (\<lambda>w. w_urn w = u) ws = Some w" using assms(2,4) by (cases "find (\<lambda>w. w_urn w = u) ws") (auto simp: find_None_iff)
  then have "w \<in> set ws" "w_urn w = u" by (auto simp: find_Some_iff)
  with ok obtain l' where "l' \<in> set ws" "leads l'" "w_urn l' = u" "w_promise w = w_caller l'" unfolding waiters_ok_def by metis
  with leader_unique [OF ok, of l' l] assms have p: "w_promise w = w_caller l" by simp
  let ?w = "\<lparr>w_caller = c, w_urn = u, w_promise = w_caller l, w_since = now\<rparr>"
  have follows: "\<not> leads ?w" using assms(2,5) by (auto simp: leads_def)
  have flight: "map_of (pt_flights st) u = Some (snd (flight_of ws l))" using implements_flight [OF assms(1-3)] assms(4) by simp
  have count: "flight_of (ws @ [?w]) v = (if w_urn v = u then (u, \<lparr>fl_promise = Some (w_caller v), fl_startedAtMs = w_since v,
      fl_followers = follower_count u ws + 1\<rparr>) else flight_of ws v)" for v
    using follows by (simp add: flight_of_def follower_count_def)
  have "AList.update u (snd (flight_of ws l)\<lparr>fl_followers := fl_followers (snd (flight_of ws l)) + 1\<rparr>) (pt_flights st) =
      map (flight_of (ws @ [?w])) (filter leads ws)"
  proof -
    have "u \<in> fst ` set (pt_flights st)" using flight by (metis domI dom_map_of_conv_image_fst)
    moreover have "v = l" if "v \<in> set ws" "leads v" "w_urn v = u" for v using leader_unique [OF ok] that assms by blast
    ultimately show ?thesis
      using assms(1,4) implements_keys [OF assms(1)]
      by (auto simp: update_map implements_def count) (auto simp: flight_of_def)
  qed
  moreover have "waiters_ok (ws @ [?w])" using ok follows assms(2-4) by (auto simp: waiters_ok_def)
  ultimately show ?thesis
    using assms(1) w p follows flight by (simp add: implements_def flightProcess_join flight_of_def)
qed

lemma settle_simulates:
  assumes "implements st ws"
  shows "implements (table_event (Settles u p) st) (spec_event (Settles u p) ws)"
proof (cases "\<exists>l \<in> set ws. leads l \<and> w_urn l = u \<and> w_caller l = p")
  case False
  have ok: "waiters_ok ws" using assms by (simp add: implements_def)
  with False have "filter (\<lambda>w. \<not> (w_urn w = u \<and> w_promise w = p)) ws = ws"
    by (intro filter_True) (metis (full_types) waiters_ok_def)
  moreover have "clearProcess u p st = st"
  proof (cases "map_of (pt_flights st) u")
    case (Some f)
    then have "(u, f) \<in> set (pt_flights st)" by (rule map_of_SomeD)
    with False assms have "fl_promise f \<noteq> Some p" by (auto simp: implements_def flight_of_def)
    with Some show ?thesis by (simp add: clearProcess_def)
  qed (simp add: clearProcess_def)
  ultimately show ?thesis using assms by simp
next
  case True
  then obtain l where l: "l \<in> set ws" "leads l" "w_urn l = u" "w_caller l = p" by blast
  have ok: "waiters_ok ws" using assms by (simp add: implements_def)
  have "w_promise w = p" if "w \<in> set ws" "w_urn w = u" for w
    using ok that leader_unique [OF ok _ l(1)] l unfolding waiters_ok_def by metis
  then have rest: "filter (\<lambda>w. \<not> (w_urn w = u \<and> w_promise w = p)) ws = filter (\<lambda>w. w_urn w \<noteq> u) ws"
    by (intro filter_cong) auto
  let ?ws = "filter (\<lambda>w. w_urn w \<noteq> u) ws"
  have flight: "map_of (pt_flights st) u = Some (snd (flight_of ws l))" using implements_flight [OF assms l(1,2)] l(3) by simp
  have "follower_count v ?ws = follower_count v ws" if "v \<noteq> u" for v
    using that by (simp add: follower_count_def) (metis (mono_tags, lifting))
  then have "flight_of ?ws w = flight_of ws w" if "w_urn w \<noteq> u" for w using that by (simp add: flight_of_def)
  then have flights: "AList.delete u (pt_flights st) = map (flight_of ?ws) (filter leads ?ws)"
    using assms by (auto simp: implements_def AList.delete_eq filter_map comp_def case_prod_unfold eq_commute [of u] conj_commute intro!: map_cong)
  have "length (filter (\<lambda>w. \<not> leads w) ws) = length (filter (\<lambda>w. \<not> leads w) ?ws) + follower_count u ws"
    unfolding follower_count_def by (induction ws) auto
  then have count: "int (length (filter (\<lambda>w. \<not> leads w) ws)) - int (follower_count u ws) = int (length (filter (\<lambda>w. \<not> leads w) ?ws))"
    by simp
  have "waiters_ok ?ws"
  proof -
    have "map w_urn (filter leads ?ws) = filter (\<lambda>v. v \<noteq> u) (map w_urn (filter leads ws))"
      by (simp add: filter_map comp_def conj_commute)
    with ok have "distinct (map w_urn (filter leads ?ws))" unfolding waiters_ok_def by (metis distinct_filter)
    moreover have "\<exists>l \<in> set ?ws. leads l \<and> w_urn l = w_urn w \<and> w_promise w = w_caller l" if "w \<in> set ?ws" for w
      using ok that unfolding waiters_ok_def by fastforce
    ultimately show ?thesis by (simp add: waiters_ok_def)
  qed
  with rest flights count flight assms l show ?thesis
    by (simp add: implements_def clearProcess_def flight_of_def)
qed

definition no_flights :: process_table where
  "no_flights = \<lparr>pt_flights = [], pt_activeFollowers = 0\<rparr>"

lemma event_simulates:
  assumes "implements st ws" "set (event_caller e) \<inter> w_caller ` set ws = {}"
  shows "implements (table_event e st) (spec_event e ws)"
proof (cases e)
  case (Arrives c u now)
  show ?thesis
  proof (cases "\<exists>w \<in> set ws. w_urn w = u")
    case True
    then obtain l where "l \<in> set ws" "leads l" "w_urn l = u"
      using assms(1) unfolding implements_def waiters_ok_def by metis
    moreover have "c \<notin> w_caller ` set ws" using assms(2) Arrives by auto
    ultimately show ?thesis unfolding Arrives by (rule arrive_joins [OF assms(1)])
  next
    case False
    then show ?thesis unfolding Arrives by (intro arrive_leads [OF assms(1)]) blast
  qed
next
  case (Settles u p)
  show ?thesis unfolding Settles by (rule settle_simulates [OF assms(1)])
qed

lemma events_simulate:
  assumes "implements st ws" "distinct (concat (map event_caller es))"
    and "set (concat (map event_caller es)) \<inter> w_caller ` set ws = {}"
  shows "implements (fold table_event es st) (fold spec_event es ws)"
  using assms
proof (induction es arbitrary: st ws)
  case (Cons e es)
  have "w_caller ` set (spec_event e ws) \<subseteq> w_caller ` set ws \<union> set (event_caller e)" by (cases e) auto
  with Cons.prems have "set (concat (map event_caller es)) \<inter> w_caller ` set (spec_event e ws) = {}" by simp blast
  moreover have "implements (table_event e st) (spec_event e ws)"
    using Cons.prems by (intro event_simulates) auto
  ultimately show ?case using Cons.IH Cons.prems(2) by simp
qed simp

text \<open>
  C18. The process table refines the abstract table of waiting invocations, for every interleaving of arrivals and
  settlements (a settlement that names no current flight included): \<open>getCoalescingState\<close> reports exactly the
  number of unsettled leaders, the number of invocations waiting for another's promise, and the age of the leader
  that arrived first, and no arrival throws.
\<close>

theorem coalescing_state_exact:
  assumes "distinct (concat (map event_caller es))" "ws = fold spec_event es []" "st = fold table_event es no_flights"
  shows "getCoalescingState now st =
    \<lparr>cs_activeLeaders = length (filter leads ws), cs_activeFollowers = int (length (filter (\<lambda>w. \<not> leads w) ws)),
     cs_oldestLeaderAgeMs = (case filter leads ws of [] \<Rightarrow> None | l # _ \<Rightarrow> Some (max (now - w_since l) 0))\<rparr> \<and>
    promise_of (fst (flightProcess u now (Inr c) st)) =
      Some (case find (\<lambda>w. w_urn w = u) ws of Some w \<Rightarrow> w_promise w | None \<Rightarrow> c)"
proof -
  have "implements no_flights []" by (simp add: implements_def no_flights_def waiters_ok_def)
  from events_simulate [OF this assms(1)] assms have i: "implements st ws" by simp
  have "promise_of (fst (flightProcess u now (Inr c) st)) = Some (case find (\<lambda>w. w_urn w = u) ws of Some w \<Rightarrow> w_promise w | None \<Rightarrow> c)"
  proof (cases "find (\<lambda>w. w_urn w = u) ws")
    case None
    then have "map_of (pt_flights st) u = None" by (intro implements_absent [OF i]) (auto simp: find_None_iff)
    with None show ?thesis by (simp add: flightProcess_lead)
  next
    case (Some w)
    then have w: "w \<in> set ws" "w_urn w = u" by (auto simp: find_Some_iff)
    with i obtain l where l: "l \<in> set ws" "leads l" "w_urn l = u" "w_promise w = w_caller l"
      unfolding implements_def waiters_ok_def by metis
    with implements_flight [OF i l(1,2)] Some show ?thesis
      by (simp add: flightProcess_join [of st u "snd (flight_of ws l)" "w_caller l"] flight_of_def)
  qed
  with i show ?thesis
    by (auto simp: getCoalescingState_def implements_def flight_of_def split: list.split)
qed

theorem coalescing_state_exact_witness:
  "getCoalescingState 10 (fold table_event [Arrives 1 (js ''a'') 2, Arrives 2 (js ''b'') 3, Arrives 3 (js ''a'') 4, Arrives 4 (js ''a'') 5,
      Settles (js ''b'') 2, Settles (js ''b'') 9] no_flights) =
   \<lparr>cs_activeLeaders = 1, cs_activeFollowers = 2, cs_oldestLeaderAgeMs = Some 8\<rparr>"
  using coalescing_state_exact [of "[Arrives 1 (js ''a'') 2, Arrives 2 (js ''b'') 3, Arrives 3 (js ''a'') 4, Arrives 4 (js ''a'') 5,
      Settles (js ''b'') 2, Settles (js ''b'') 9]" _ _ 10 "[]" 0, OF _ refl refl]
  by (simp add: leads_def js_def)

end
