(* ===== verification/RequestContext.thy ===== *)
theory RequestContext
  imports Coalescing
begin

section \<open>Enabled contexts and request-local state\<close>

text \<open>
  \<^verbatim>\<open>context.ts\<close>. The objects one process shares, holders and request-local caches, live in \<open>request_heap\<close> and are
  referred to by index; the \<^verbatim>\<open>AsyncLocalStorage\<close> store of the code that is running is an argument. A cache object
  can outlive its request in the hands of detached work, so caches are objects of their own. \<open>enable\<close> and
  \<open>disable\<close> give the store their callback runs under; \<open>runOutermost\<close> ends with \<open>closeHolder\<close>.
\<close>

record 'v request_local_cache =
  rl_inFlight :: request_table
  rl_values :: "(jsstring \<times> 'v) list"
  rl_closed :: bool

record request_holder =
  rh_closed :: bool
  rh_cache :: "nat option"

record context_store =
  cx_enabled :: bool
  cx_holder :: "nat option"

record 'v request_heap =
  rq_holders :: "request_holder list"
  rq_caches :: "'v request_local_cache list"

subsection \<open>The request-local cache\<close>

definition rlRead :: "jsstring \<Rightarrow> 'v request_local_cache \<Rightarrow> 'v option" where
  "rlRead key c = (if rl_closed c then None else map_of (rl_values c) key)"

definition rlSet :: "jsstring \<Rightarrow> 'v \<Rightarrow> 'v request_local_cache \<Rightarrow> 'v request_local_cache" where
  "rlSet key v c = (if rl_closed c then c else c\<lparr>rl_values := AList.update key v (rl_values c)\<rparr>)"

definition rlClose :: "'v request_local_cache \<Rightarrow> 'v request_local_cache" where
  "rlClose c = c\<lparr>rl_closed := True, rl_values := [], rl_inFlight := []\<rparr>"

definition new_cache :: "'v request_local_cache" where
  "new_cache = \<lparr>rl_inFlight = [], rl_values = [], rl_closed = False\<rparr>"

subsection \<open>Contexts\<close>

definition holder_open :: "'v request_heap \<Rightarrow> nat \<Rightarrow> bool" where
  "holder_open st h \<longleftrightarrow> h < length (rq_holders st) \<and> \<not> rh_closed (rq_holders st ! h)"

definition isEnabled :: "context_store option \<Rightarrow> 'v request_heap \<Rightarrow> bool" where
  "isEnabled s st \<longleftrightarrow>
     (case s of None \<Rightarrow> False
      | Some x \<Rightarrow> cx_enabled x \<and> (case cx_holder x of None \<Rightarrow> False | Some h \<Rightarrow> holder_open st h))"

definition liveHolder :: "context_store option \<Rightarrow> 'v request_heap \<Rightarrow> nat option" where
  "liveHolder s st =
     (case s of None \<Rightarrow> None
      | Some x \<Rightarrow> (case cx_holder x of None \<Rightarrow> None | Some h \<Rightarrow> if holder_open st h then Some h else None))"

text \<open>The store the callback runs under, and the holder the call must close when the callback settles.\<close>

definition enable :: "context_store option \<Rightarrow> 'v request_heap \<Rightarrow> context_store \<times> nat option \<times> 'v request_heap" where
  "enable s st =
     (case liveHolder s st of
        Some h \<Rightarrow> (\<lparr>cx_enabled = True, cx_holder = Some h\<rparr>, None, st)
      | None \<Rightarrow>
          let h = length (rq_holders st) in
          (\<lparr>cx_enabled = True, cx_holder = Some h\<rparr>, Some h,
           st\<lparr>rq_holders := rq_holders st @ [\<lparr>rh_closed = False, rh_cache = None\<rparr>]\<rparr>))"

definition disable :: "context_store option \<Rightarrow> 'v request_heap \<Rightarrow> context_store" where
  "disable s st = \<lparr>cx_enabled = False, cx_holder = liveHolder s st\<rparr>"

text \<open>The \<^verbatim>\<open>finally\<close> of \<open>runOutermost\<close>.\<close>

definition closeHolder :: "nat \<Rightarrow> 'v request_heap \<Rightarrow> 'v request_heap" where
  "closeHolder h st =
     (if h < length (rq_holders st) then
        (let c = rh_cache (rq_holders st ! h) in
         st\<lparr>rq_holders := (rq_holders st)[h := \<lparr>rh_closed = True, rh_cache = None\<rparr>],
            rq_caches := (case c of None \<Rightarrow> rq_caches st | Some i \<Rightarrow> (rq_caches st)[i := rlClose (rq_caches st ! i)])\<rparr>)
      else st)"

definition getOrCreateRequestLocalCache ::
  "context_store option \<Rightarrow> 'v request_heap \<Rightarrow> nat option \<times> 'v request_heap" where
  "getOrCreateRequestLocalCache s st =
     (if \<not> isEnabled s st then (None, st)
      else
        let h = the (cx_holder (the s)) in
        case rh_cache (rq_holders st ! h) of
          Some i \<Rightarrow> (Some i, st)
        | None \<Rightarrow>
            let i = length (rq_caches st) in
            (Some i, st\<lparr>rq_caches := rq_caches st @ [new_cache],
                       rq_holders := (rq_holders st)[h := (rq_holders st ! h)\<lparr>rh_cache := Some i\<rparr>]\<rparr>))"

subsection \<open>Histories\<close>

text \<open>What running code can do to the shared objects, under any store it may have inherited and with any cache it
  may have kept.\<close>

datatype 'v context_event =
    Enables "context_store option"
  | Closes nat
  | GetsCache "context_store option"
  | SetsValue nat jsstring 'v
  | Flies nat "request_table \<Rightarrow> request_table"

definition update_cache :: "nat \<Rightarrow> ('v request_local_cache \<Rightarrow> 'v request_local_cache) \<Rightarrow> 'v request_heap \<Rightarrow> 'v request_heap" where
  "update_cache i f st = (if i < length (rq_caches st) then st\<lparr>rq_caches := (rq_caches st)[i := f (rq_caches st ! i)]\<rparr> else st)"

fun apply_event :: "'v context_event \<Rightarrow> 'v request_heap \<Rightarrow> 'v request_heap" where
  "apply_event (Enables s) st = snd (snd (enable s st))"
| "apply_event (Closes h) st = closeHolder h st"
| "apply_event (GetsCache s) st = snd (getOrCreateRequestLocalCache s st)"
| "apply_event (SetsValue i key v) st = update_cache i (rlSet key v) st"
| "apply_event (Flies i f) st = update_cache i (\<lambda>c. c\<lparr>rl_inFlight := f (rl_inFlight c)\<rparr>) st"

definition no_requests :: "'v request_heap" where
  "no_requests = \<lparr>rq_holders = [], rq_caches = []\<rparr>"

text \<open>
  The invariant: an open holder's cache is an open cache and no other holder's; every open cache belongs to an
  open holder; a closed cache has no values.
\<close>

definition owns :: "'v request_heap \<Rightarrow> nat \<Rightarrow> nat \<Rightarrow> bool" where
  "owns st h i \<longleftrightarrow> h < length (rq_holders st) \<and> rh_cache (rq_holders st ! h) = Some i"

definition cache_open :: "'v request_heap \<Rightarrow> nat \<Rightarrow> bool" where
  "cache_open st i \<longleftrightarrow> i < length (rq_caches st) \<and> \<not> rl_closed (rq_caches st ! i)"

definition closed_empty :: "'v request_heap \<Rightarrow> bool" where
  "closed_empty st \<longleftrightarrow> (\<forall>c \<in> set (rq_caches st). rl_closed c \<longrightarrow> rl_values c = [])"

definition heap_inv :: "'v request_heap \<Rightarrow> bool" where
  "heap_inv st \<longleftrightarrow> (\<forall>h i. owns st h i \<longrightarrow> holder_open st h \<and> cache_open st i) \<and>
     (\<forall>h k i. owns st h i \<longrightarrow> owns st k i \<longrightarrow> h = k) \<and> (\<forall>i. cache_open st i \<longrightarrow> (\<exists>h. owns st h i)) \<and> closed_empty st"

lemma heap_inv_init: "heap_inv no_requests"
  by (simp add: heap_inv_def no_requests_def owns_def cache_open_def closed_empty_def)

text \<open>How each operation changes ownership and openness.\<close>

lemma enable_effect:
  "owns (snd (snd (enable s st))) = owns st" "cache_open (snd (snd (enable s st))) = cache_open st"
  "closed_empty (snd (snd (enable s st))) = closed_empty st"
  "holder_open (snd (snd (enable s st))) h \<longleftrightarrow> holder_open st h \<or> (liveHolder s st = None \<and> h = length (rq_holders st))"
  by (auto simp: enable_def Let_def owns_def cache_open_def closed_empty_def holder_open_def fun_eq_iff nth_append less_Suc_eq
      split: option.split)

lemma close_effect:
  assumes "heap_inv st"
  shows "owns (closeHolder h st) k i \<longleftrightarrow> owns st k i \<and> k \<noteq> h"
    and "cache_open (closeHolder h st) i \<longleftrightarrow> cache_open st i \<and> \<not> owns st h i"
    and "holder_open (closeHolder h st) k \<longleftrightarrow> holder_open st k \<and> k \<noteq> h"
    and "closed_empty (closeHolder h st)"
proof -
  show "owns (closeHolder h st) k i \<longleftrightarrow> owns st k i \<and> k \<noteq> h" "holder_open (closeHolder h st) k \<longleftrightarrow> holder_open st k \<and> k \<noteq> h"
    by (auto simp: closeHolder_def owns_def holder_open_def Let_def nth_list_update)
  have "c < length (rq_caches st)" if "h < length (rq_holders st)" "rh_cache (rq_holders st ! h) = Some c" for c
    using assms that unfolding heap_inv_def owns_def cache_open_def by blast
  then show "cache_open (closeHolder h st) i \<longleftrightarrow> cache_open st i \<and> \<not> owns st h i"
    by (auto simp: closeHolder_def owns_def cache_open_def rlClose_def Let_def nth_list_update split: option.split)
  have "closed_empty st" using assms by (simp add: heap_inv_def)
  then show "closed_empty (closeHolder h st)"
    by (auto simp: closeHolder_def closed_empty_def rlClose_def Let_def split: option.split dest!: set_mp [OF set_update_subset_insert])
qed

lemma get_effect:
  assumes "isEnabled s st" "rh_cache (rq_holders st ! the (cx_holder (the s))) = None"
  shows "owns (snd (getOrCreateRequestLocalCache s st)) h i \<longleftrightarrow>
      owns st h i \<or> (h = the (cx_holder (the s)) \<and> i = length (rq_caches st))"
    and "cache_open (snd (getOrCreateRequestLocalCache s st)) i \<longleftrightarrow> cache_open st i \<or> i = length (rq_caches st)"
    and "holder_open (snd (getOrCreateRequestLocalCache s st)) = holder_open st"
    and "closed_empty (snd (getOrCreateRequestLocalCache s st)) = closed_empty st"
    and "holder_open st (the (cx_holder (the s)))"
proof -
  show o: "holder_open st (the (cx_holder (the s)))" using assms(1) by (auto simp: isEnabled_def split: option.splits)
  show "owns (snd (getOrCreateRequestLocalCache s st)) h i \<longleftrightarrow> owns st h i \<or> (h = the (cx_holder (the s)) \<and> i = length (rq_caches st))"
    "holder_open (snd (getOrCreateRequestLocalCache s st)) = holder_open st"
    using assms o by (auto simp: getOrCreateRequestLocalCache_def Let_def owns_def holder_open_def nth_list_update fun_eq_iff)
  show "cache_open (snd (getOrCreateRequestLocalCache s st)) i \<longleftrightarrow> cache_open st i \<or> i = length (rq_caches st)"
    "closed_empty (snd (getOrCreateRequestLocalCache s st)) = closed_empty st"
    using assms by (auto simp: getOrCreateRequestLocalCache_def Let_def cache_open_def closed_empty_def nth_append new_cache_def less_Suc_eq)
qed

lemma get_same:
  "\<not> (isEnabled s st \<and> rh_cache (rq_holders st ! the (cx_holder (the s))) = None) \<Longrightarrow>
   snd (getOrCreateRequestLocalCache s st) = st"
  by (auto simp: getOrCreateRequestLocalCache_def Let_def split: option.split)

lemma update_effect:
  assumes "\<And>c. rl_closed (f c) = rl_closed c" "\<And>c. rl_closed c \<Longrightarrow> rl_values (f c) = rl_values c"
  shows "owns (update_cache i f st) = owns st" "cache_open (update_cache i f st) = cache_open st"
    "holder_open (update_cache i f st) = holder_open st" "closed_empty st \<Longrightarrow> closed_empty (update_cache i f st)"
  using assms
  by (auto simp: update_cache_def owns_def cache_open_def holder_open_def closed_empty_def nth_list_update fun_eq_iff
      dest!: set_mp [OF set_update_subset_insert])

lemma flies_effect: "rl_closed (c\<lparr>rl_inFlight := x\<rparr>) = rl_closed c" "rl_values (c\<lparr>rl_inFlight := x\<rparr>) = rl_values c"
  by simp_all

lemma rlSet_effect: "rl_closed (rlSet key v c) = rl_closed c" "rl_closed c \<Longrightarrow> rl_values (rlSet key v c) = rl_values c"
  by (simp_all add: rlSet_def)

lemma heap_inv_event:
  assumes "heap_inv st"
  shows "heap_inv (apply_event e st)"
proof (cases e)
  case (Enables s)
  with assms show ?thesis by (simp add: heap_inv_def enable_effect)
next
  case (Closes h)
  have "heap_inv (closeHolder h st)" using assms unfolding heap_inv_def [of "closeHolder h st"]
    by (simp add: close_effect [OF assms]) (use assms in \<open>unfold heap_inv_def, blast\<close>)
  with Closes show ?thesis by simp
next
  case (GetsCache s)
  have "heap_inv (snd (getOrCreateRequestLocalCache s st))"
  proof (cases "isEnabled s st \<and> rh_cache (rq_holders st ! the (cx_holder (the s))) = None")
    case True
    then have no: "\<not> owns st (the (cx_holder (the s))) i" "\<not> cache_open st (length (rq_caches st))" for i
      by (auto simp: owns_def cache_open_def)
    from True get_effect [of s st] have o: "holder_open st (the (cx_holder (the s)))" by blast
    show ?thesis unfolding heap_inv_def [of "snd (getOrCreateRequestLocalCache s st)"]
      using True by (simp add: get_effect) (use assms no o in \<open>unfold heap_inv_def, blast\<close>)
  qed (use assms in \<open>simp add: get_same\<close>)
  with GetsCache show ?thesis by simp
next
  case (SetsValue i key v)
  with assms show ?thesis by (simp add: heap_inv_def update_effect rlSet_effect)
next
  case (Flies i f)
  with assms show ?thesis by (simp add: heap_inv_def update_effect)
qed

lemma heap_inv_events: "heap_inv st \<Longrightarrow> heap_inv (fold apply_event es st)"
  by (induction es arbitrary: st) (auto intro: heap_inv_event)

lemma event_lengths:
  "length (rq_holders st) \<le> length (rq_holders (apply_event e st))" "length (rq_caches st) \<le> length (rq_caches (apply_event e st))"
  by (cases e; auto simp: enable_def closeHolder_def update_cache_def getOrCreateRequestLocalCache_def Let_def split: option.split)+

lemma get_opens:
  "holder_open (snd (getOrCreateRequestLocalCache s st)) = holder_open st"
  "i < length (rq_caches st) \<Longrightarrow> cache_open (snd (getOrCreateRequestLocalCache s st)) i = cache_open st i"
  using get_effect(2) [of s st i] get_effect(3) [of s st] get_same [of s st] by (metis less_irrefl)+

lemma closed_stays_event:
  assumes "heap_inv st" "\<not> holder_open st h" "h < length (rq_holders st)"
  shows "\<not> holder_open (apply_event e st) h \<and> h < length (rq_holders (apply_event e st))"
proof
  show "\<not> holder_open (apply_event e st) h"
    using assms by (cases e) (simp_all add: enable_effect close_effect update_effect rlSet_effect get_opens)
qed (use assms(3) event_lengths(1) [of st e] in linarith)

lemma cache_closed_stays_event:
  assumes "heap_inv st" "\<not> cache_open st i" "i < length (rq_caches st)"
  shows "\<not> cache_open (apply_event e st) i \<and> i < length (rq_caches (apply_event e st))"
proof
  show "\<not> cache_open (apply_event e st) i"
    using assms by (cases e) (simp_all add: enable_effect close_effect update_effect rlSet_effect get_opens)
qed (use assms(3) event_lengths(2) [of st e] in linarith)

lemma closed_stays:
  assumes "heap_inv st" "\<not> holder_open st h" "h < length (rq_holders st)"
  shows "\<not> holder_open (fold apply_event es st) h"
  using assms by (induction es arbitrary: st) (auto simp: closed_stays_event heap_inv_event)

lemma cache_closed_stays:
  assumes "heap_inv st" "\<not> cache_open st i" "i < length (rq_caches st)"
  shows "\<not> cache_open (fold apply_event es st) i \<and> i < length (rq_caches (fold apply_event es st))"
  using assms by (induction es arbitrary: st) (auto simp: cache_closed_stays_event heap_inv_event)



definition dead_pair :: "'v request_heap \<Rightarrow> nat \<Rightarrow> nat \<Rightarrow> bool" where
  "dead_pair st h i \<longleftrightarrow> h < length (rq_holders st) \<and> \<not> holder_open st h \<and> i < length (rq_caches st) \<and> \<not> cache_open st i"

lemma owns_in_range: "heap_inv st \<Longrightarrow> owns st h i \<Longrightarrow> h < length (rq_holders st) \<and> i < length (rq_caches st)"
  unfolding heap_inv_def owns_def cache_open_def by blast

lemma dead_pair_event: "heap_inv st \<Longrightarrow> dead_pair st h i \<Longrightarrow> dead_pair (apply_event e st) h i"
  by (simp add: dead_pair_def closed_stays_event cache_closed_stays_event)

lemma owns_event:
  assumes inv: "heap_inv st" and o: "owns st h i"
  shows "owns (apply_event e st) h i \<or> dead_pair (apply_event e st) h i"
proof (cases "e = Closes h")
  case True
  then show ?thesis using o owns_in_range [OF inv o] event_lengths [of st e]
    by (simp add: dead_pair_def close_effect [OF inv])
next
  case False
  have "owns (snd (getOrCreateRequestLocalCache s st)) h i" for s
    using o get_effect(1) [of s st h i] get_same [of s st] by metis
  with False o have "owns (apply_event e st) h i"
    by (cases e) (simp_all add: enable_effect close_effect [OF inv] update_effect rlSet_effect)
  then show ?thesis by simp
qed

lemma owns_events:
  assumes "heap_inv st" "owns st h i \<or> dead_pair st h i"
  shows "owns (fold apply_event es st) h i \<or> dead_pair (fold apply_event es st) h i"
  using assms
proof (induction es arbitrary: st)
  case (Cons e es)
  have "owns (apply_event e st) h i \<or> dead_pair (apply_event e st) h i"
    using Cons.prems owns_event [of st h i e] dead_pair_event [of st h i e] by blast
  with Cons show ?case by (simp add: heap_inv_event)
qed simp

lemma get_owns:
  assumes "heap_inv st" "getOrCreateRequestLocalCache s st = (Some i, st')"
  shows "heap_inv st' \<and> owns st' (the (cx_holder (the s))) i \<and> holder_open st' (the (cx_holder (the s)))"
proof -
  have inv: "heap_inv st'" using heap_inv_event [OF assms(1), of "GetsCache s"] assms(2) by simp
  have e: "isEnabled s st" using assms(2) by (simp add: getOrCreateRequestLocalCache_def split: if_splits)
  then have h: "the (cx_holder (the s)) < length (rq_holders st)" by (auto simp: isEnabled_def holder_open_def split: option.splits)
  have "owns st' (the (cx_holder (the s))) i" using assms(2) e h
    by (auto simp: getOrCreateRequestLocalCache_def owns_def Let_def split: option.splits)
  with inv show ?thesis unfolding heap_inv_def by blast
qed

text \<open>
  C32. Requests are isolated: over every history, two calls are given the same request-local cache exactly when they
  run under stores of the same request, and a cache that a call is given is open.
\<close>

theorem requests_isolated:
  assumes "st = fold apply_event es no_requests" "getOrCreateRequestLocalCache s st = (Some i, st1)"
    and "getOrCreateRequestLocalCache s' (fold apply_event es' st1) = (Some j, st2)"
  shows "(i = j) = (the (cx_holder (the s)) = the (cx_holder (the s'))) \<and> \<not> rl_closed (rq_caches st2 ! j)"
proof -
  let ?h = "the (cx_holder (the s))" and ?k = "the (cx_holder (the s'))"
  have "heap_inv st" using assms(1) by (simp add: heap_inv_events heap_inv_init)
  note 1 = get_owns [OF this assms(2)]
  have inv: "heap_inv (fold apply_event es' st1)" using 1 by (simp add: heap_inv_events)
  note 2 = get_owns [OF this assms(3)]
  have "owns (fold apply_event (es' @ [GetsCache s']) st1) ?h i \<or> dead_pair (fold apply_event (es' @ [GetsCache s']) st1) ?h i"
    by (rule owns_events) (use 1 in simp_all)
  then have 3: "owns st2 ?h i \<or> dead_pair st2 ?h i" using assms(3) by simp
  have u: "h = k" if "owns st2 h l" "owns st2 k l" for h k l using 2 that unfolding heap_inv_def by blast
  have c: "cache_open st2 j" using 2 unfolding heap_inv_def by blast
  have "(i = j) = (?h = ?k)" using 3 2 c u [of ?h j ?k] by (auto simp: owns_def dead_pair_def)
  with c show ?thesis by (simp add: cache_open_def)
qed

theorem requests_isolated_witness:
  "let s = Some \<lparr>cx_enabled = True, cx_holder = Some 0\<rparr>; s' = Some \<lparr>cx_enabled = True, cx_holder = Some 1\<rparr>;
       st = fold apply_event [Enables None, Enables None] (no_requests :: nat request_heap);
       st1 = snd (getOrCreateRequestLocalCache s st); j = fst (getOrCreateRequestLocalCache s' (fold apply_event [] st1))
   in fst (getOrCreateRequestLocalCache s st) = Some 0 \<and> j \<noteq> Some 0 \<and> j \<noteq> None"
  using requests_isolated [of _ "[Enables None, Enables None]" "Some \<lparr>cx_enabled = True, cx_holder = Some 0\<rparr>" 0 _
      "Some \<lparr>cx_enabled = True, cx_holder = Some 1\<rparr>" "[] :: nat context_event list" 1, OF refl]
  by (simp add: enable_def liveHolder_def no_requests_def getOrCreateRequestLocalCache_def isEnabled_def holder_open_def
      new_cache_def Let_def)

end
