(* ===== verification/Registration.thy ===== *)
theory Registration
  imports ReadPath
begin

section \<open>Instances and registered operations\<close>

text \<open>
  \<^verbatim>\<open>dialcache.ts\<close>: the constructor of \<^verbatim>\<open>DialCache\<close>, \<open>cached\<close> and \<open>getOrLoad\<close>, and the guards they apply to the
  application's options. An option the code checks at run time is a \<open>jsval\<close>; one it trusts has its declared type.
  An instance is the \<open>dialcache\<close> record of the read path with the two slots only registration uses.
\<close>

subsection \<open>Default configurations\<close>

definition assertDefaultLayerMap :: "jsval \<Rightarrow> string \<Rightarrow> unit res" where
  "assertDefaultLayerMap config name =
     check (is_plain_object config) (TypeError (''DialCache defaultConfig '' @ name @ '' must be a layer map''))"

definition assertDefaultShadowConfig :: "jsval \<Rightarrow> unit res" where
  "assertDefaultShadowConfig config =
     check (config = JUndef \<or> is_plain_object config) (TypeError ''DialCache defaultConfig shadow must be an object'')"

definition assert_ramp :: "jsval \<Rightarrow> string \<Rightarrow> unit res" where
  "assert_ramp r name =
     (if r = JUndef then Inr ()
      else res_bind (check (is_number r) (TypeError (name @ '' must be a number''))) (\<lambda>_.
        check (num_in_0_100 r) (RangeError (name @ '' must be between 0 and 100''))))"

text \<open>The body of the loop over the layers.\<close>

definition snapshot_layer :: "key_config \<Rightarrow> cache_layer \<Rightarrow> unit res" where
  "snapshot_layer c layer =
     (let ttl = get_prop (ttlSec c) (layer_name layer) in
      res_bind
        (if ttl = JUndef then Inr ()
         else res_bind (check (is_number ttl) (TypeError ''DialCache defaultConfig ttlSec must be a number'')) (\<lambda>_.
           check (isSupportedCacheTtlSec ttl) (RangeError ''DialCache defaultConfig ttlSec must be a positive safe integer''))) (\<lambda>_.
      assert_ramp (get_prop (ramp c) (layer_name layer)) ''DialCache defaultConfig ramp''))"

definition snapshot_stale :: "key_config \<Rightarrow> unit res" where
  "snapshot_stale c =
     (let maxAgeSec = staleOnErrorMaxAgeSec c; remoteTtlSec = get_prop (ttlSec c) (layer_name REMOTE) in
      if maxAgeSec = JUndef then Inr ()
      else
        res_bind (check (is_number maxAgeSec) (TypeError ''DialCache defaultConfig staleOnErrorMaxAgeSec must be a number'')) (\<lambda>_.
        res_bind (check (maxAgeSec = JNum (Fin 0) \<or> isSupportedCacheTtlSec maxAgeSec)
                    (RangeError ''DialCache defaultConfig staleOnErrorMaxAgeSec must be a nonnegative safe integer'')) (\<lambda>_.
        if int_of_val maxAgeSec > 0 then
          res_bind (check (remoteTtlSec \<noteq> JUndef)
                      (RangeError ''DialCache defaultConfig staleOnErrorMaxAgeSec requires ttlSec.remote'')) (\<lambda>_.
          check (int_of_val maxAgeSec > int_of_val remoteTtlSec)
            (RangeError ''DialCache defaultConfig staleOnErrorMaxAgeSec must be greater than ttlSec.remote''))
        else Inr ())))"

definition snapshot_shadow :: "key_config \<Rightarrow> unit res" where
  "snapshot_shadow c =
     (let shd = shadow c; logging = get_prop shd ''mismatchLogging'' in
      if shd = JUndef then Inr ()
      else
        res_bind (assert_ramp (get_prop shd ''ramp'') ''DialCache defaultConfig shadow.ramp'') (\<lambda>_.
        res_bind (check (get_prop shd ''logMismatches'' = JUndef \<or> is_boolean (get_prop shd ''logMismatches''))
                    (TypeError ''DialCache defaultConfig shadow.logMismatches must be a boolean'')) (\<lambda>_.
        res_bind (check (get_prop logging ''value'' = JUndef \<or> is_boolean (get_prop logging ''value''))
                    (TypeError ''DialCache defaultConfig shadow.mismatchLogging.value must be a boolean'')) (\<lambda>_.
        check (get_prop logging ''diff'' = JUndef \<or> isShadowMismatchDiffLevel (get_prop logging ''diff''))
          (TypeError ''DialCache defaultConfig shadow.mismatchLogging.diff must be off, paths or values'')))))"

definition snapshot_input :: "jsval \<Rightarrow> jsval" where
  "snapshot_input config =
     JObj ((''ttlSec'', get_prop config ''ttlSec'') # (''ramp'', get_prop config ''ramp'')
       # opt_prop ''requestLocal'' (get_prop config ''requestLocal'')
       @ opt_prop ''coalesce'' (get_prop config ''coalesce'')
       @ opt_prop ''staleOnErrorMaxAgeSec'' (get_prop config ''staleOnErrorMaxAgeSec'')
       @ opt_prop ''remoteReadTimeoutMs'' (get_prop config ''remoteReadTimeoutMs'')
       @ opt_prop ''shadow'' (get_prop config ''shadow''))"

definition snapshotDefaultConfig :: "jsval \<Rightarrow> key_config option res" where
  "snapshotDefaultConfig config =
     (if config = JNull \<or> config = JUndef then Inr None
      else
        res_bind (check (is_plain_object config) (TypeError ''DialCache defaultConfig must be an object'')) (\<lambda>_.
        res_bind (check (\<not> hasOwn config ''shadowRamp'')
                    (TypeError ''DialCacheKeyConfig.shadowRamp was replaced by shadow.ramp'')) (\<lambda>_.
        res_bind (opt_boolean (get_prop config ''requestLocal'')
                    ''DialCache defaultConfig requestLocal must be a boolean'') (\<lambda>_.
        res_bind (opt_boolean (get_prop config ''coalesce'')
                    ''DialCache defaultConfig coalesce must be a boolean'') (\<lambda>_.
        res_bind (assertDefaultLayerMap (get_prop config ''ttlSec'') ''ttlSec'') (\<lambda>_.
        res_bind (assertDefaultLayerMap (get_prop config ''ramp'') ''ramp'') (\<lambda>_.
        res_bind (assertDefaultShadowConfig (get_prop config ''shadow'')) (\<lambda>_.
        res_bind (DialCacheKeyConfig_new (snapshot_input config)) (\<lambda>snapshot.
        res_bind (snapshot_layer snapshot LOCAL) (\<lambda>_.
        res_bind (snapshot_layer snapshot REMOTE) (\<lambda>_.
        res_bind (snapshot_stale snapshot) (\<lambda>_.
        res_bind (snapshot_shadow snapshot) (\<lambda>_. Inr (Some snapshot))))))))))))))"

subsection \<open>Other options\<close>

definition DEFAULT_FALLBACK_TIMEOUT_MS :: int where
  "DEFAULT_FALLBACK_TIMEOUT_MS = 60000"

definition safe_integer_val :: "jsval \<Rightarrow> bool" where
  "safe_integer_val v = (case v of JNum x \<Rightarrow> num_isSafeInteger x | _ \<Rightarrow> False)"

definition resolveFallbackTimeoutMs :: "jsval \<Rightarrow> int option res" where
  "resolveFallbackTimeoutMs v =
     (if v = JNull then Inr None
      else
        let timeoutMs = (if v = JUndef then JNum (num_of_int DEFAULT_FALLBACK_TIMEOUT_MS) else v) in
        res_bind (check (safe_integer_val timeoutMs \<and> \<not> int_of_val timeoutMs \<le> 0 \<and> \<not> int_of_val timeoutMs > MAX_TIMER_DELAY_MS)
                    (RangeError ''DialCache fallbackTimeoutMs must be null or a positive safe integer'')) (\<lambda>_.
        Inr (Some (int_of_val timeoutMs))))"

text \<open>The comparator and the diff hook: the built-in comparator (\<^verbatim>\<open>isDeepStrictEqual\<close>) or the application's
  function, and whether a hook was given.\<close>

datatype shadow_comparator = isDeepStrictEqual | CustomComparator

definition resolveShadowComparator :: "jsval \<Rightarrow> shadow_comparator" where
  "resolveShadowComparator v = (if v = JUndef \<or> v = JNull then isDeepStrictEqual else CustomComparator)"

definition resolveShadowMismatchDiff :: "jsval \<Rightarrow> bool res" where
  "resolveShadowMismatchDiff hook =
     res_bind (check (hook = JUndef \<or> hook = JFun) (TypeError ''DialCache shadowMismatchDiff must be a function''))
       (\<lambda>_. Inr (hook = JFun))"

definition resolveStaleRecoveryPredicate :: "jsval \<Rightarrow> stale_predicate \<Rightarrow> stale_predicate res" where
  "resolveStaleRecoveryPredicate predicate fallback =
     (if predicate = JUndef then Inr fallback
      else res_bind (check (predicate = JFun) (TypeError ''DialCache shouldAttemptStaleRecovery must be a function''))
        (\<lambda>_. Inr CustomPredicate))"

subsection \<open>The constructor\<close>

record dialcache_instance = dialcache +
  in_predicate :: stale_predicate
  in_useCases :: "jsstring list"

text \<open>\<open>cf_metrics\<close> is the adapter, by whether it has a \<^verbatim>\<open>shadowValidation\<close> method.\<close>

record DialCacheConfig =
  cf_hasUrnPrefix :: bool
  cf_hasRampSampler :: bool
  cf_namespace :: "jsstring option"
  cf_localMaxSize :: jsval
  cf_shadowMaxInFlight :: jsval
  cf_metrics :: "bool option"
  cf_shouldAttemptStaleRecovery :: jsval
  cf_redis :: jsval

definition DEFAULT_LOCAL_MAX_SIZE :: int where
  "DEFAULT_LOCAL_MAX_SIZE = 10000"

definition DEFAULT_SHADOW_MAX_IN_FLIGHT :: int where
  "DEFAULT_SHADOW_MAX_IN_FLIGHT = 1"

definition DialCache_new ::
  "(int \<Rightarrow> bytes \<Rightarrow> bytes res) \<Rightarrow> (nat \<Rightarrow> bytes \<Rightarrow> zstd_result) \<Rightarrow> bool \<Rightarrow> (rat \<Rightarrow> jsstring) \<Rightarrow> DialCacheConfig \<Rightarrow>
   dialcache_instance res" where
  "DialCache_new zc zd zstd_available fmt config =
     (let ns = (case cf_namespace config of None \<Rightarrow> js ''urn'' | Some n \<Rightarrow> n);
          localMaxSize = (if cf_localMaxSize config = JUndef \<or> cf_localMaxSize config = JNull
                          then JNum (num_of_int DEFAULT_LOCAL_MAX_SIZE) else cf_localMaxSize config);
          shadowMaxInFlight = (if cf_shadowMaxInFlight config = JUndef
                               then JNum (num_of_int DEFAULT_SHADOW_MAX_IN_FLIGHT) else cf_shadowMaxInFlight config)
      in
      res_bind (check (\<not> cf_hasUrnPrefix config) (TypeError ''DialCacheConfig.urnPrefix was renamed to namespace'')) (\<lambda>_.
      res_bind (check (\<not> cf_hasRampSampler config) (TypeError ''DialCacheConfig.rampSampler was removed'')) (\<lambda>_.
      res_bind (assertValidNamespace ns) (\<lambda>_.
      res_bind (check (safe_integer_val localMaxSize \<and> \<not> int_of_val localMaxSize < 0)
                  (RangeError ''DialCache localMaxSize must be a nonnegative safe integer'')) (\<lambda>_.
      res_bind (check (safe_integer_val shadowMaxInFlight \<and> \<not> int_of_val shadowMaxInFlight \<le> 0)
                  (RangeError ''DialCache shadowMaxInFlight must be a positive safe integer'')) (\<lambda>_.
      res_bind (resolveStaleRecoveryPredicate (cf_shouldAttemptStaleRecovery config) defaultStaleRecoveryPredicate) (\<lambda>predicate.
      res_bind (if cf_redis config = JUndef then Inr None
                else res_bind (RedisCache_new zc zd zstd_available (cf_metrics config \<noteq> None) 0 (cf_redis config))
                       (\<lambda>r. Inr (Some r))) (\<lambda>redis.
      Inr \<lparr>dc_namespace = ns, dc_metrics = (cf_metrics config \<noteq> None), dc_shadowMetric = (cf_metrics config = Some True),
           dc_redis = redis, dc_localMaxSize = int_of_val localMaxSize,
           dc_shadowMaxInFlight = int_of_val shadowMaxInFlight, dc_fmt = fmt,
           in_predicate = predicate, in_useCases = []\<rparr>))))))))"

subsection \<open>Operations\<close>

record operation_options = cache_options +
  op_defaultConfig :: jsval
  op_fallbackTimeoutMs :: jsval
  op_shadowComparator :: jsval
  op_shadowMismatchDiff :: jsval
  op_shouldAttemptStaleRecovery :: jsval

text \<open>What \<open>cached\<close> and \<open>getOrLoad\<close> have resolved before the first invocation.\<close>

record operation =
  ready_options :: cache_options
  ready_default :: "key_config option"
  ready_timeout :: "int option"
  ready_comparator :: shadow_comparator
  ready_hook :: bool
  ready_predicate :: stale_predicate

definition resolve_options :: "dialcache_instance \<Rightarrow> operation_options \<Rightarrow> operation res" where
  "resolve_options dc options =
     res_bind (snapshotDefaultConfig (op_defaultConfig options)) (\<lambda>dflt.
     res_bind (resolveFallbackTimeoutMs (op_fallbackTimeoutMs options)) (\<lambda>timeout.
     res_bind (resolveShadowMismatchDiff (op_shadowMismatchDiff options)) (\<lambda>hook.
     res_bind (resolveStaleRecoveryPredicate (op_shouldAttemptStaleRecovery options) (in_predicate dc)) (\<lambda>predicate.
     Inr \<lparr>ready_options = cache_options.truncate options, ready_default = dflt, ready_timeout = timeout,
          ready_comparator = resolveShadowComparator (op_shadowComparator options), ready_hook = hook,
          ready_predicate = predicate\<rparr>))))"

definition assertUseCaseIsNotReserved :: "jsstring \<Rightarrow> unit res" where
  "assertUseCaseIsNotReserved uc = check (uc \<noteq> js ''watermark'') (UseCaseNameIsReservedError uc)"

definition registerUseCase :: "jsstring \<Rightarrow> dialcache_instance \<Rightarrow> dialcache_instance res" where
  "registerUseCase uc dc =
     res_bind (assertUseCaseIsNotReserved uc) (\<lambda>_.
     res_bind (check (uc \<notin> set (in_useCases dc)) (UseCaseIsAlreadyRegisteredError uc)) (\<lambda>_.
     Inr (dc\<lparr>in_useCases := in_useCases dc @ [uc]\<rparr>)))"

definition cached :: "operation_options \<Rightarrow> dialcache_instance \<Rightarrow> (operation \<times> dialcache_instance) res" where
  "cached options dc =
     res_bind (resolve_options dc options) (\<lambda>op.
     res_bind (registerUseCase (opt_useCase options) dc) (\<lambda>dc'. Inr (op, dc')))"

definition getOrLoad :: "operation_options \<Rightarrow> dialcache_instance \<Rightarrow> operation res" where
  "getOrLoad options dc =
     res_bind (resolve_options dc options) (\<lambda>op.
     res_bind (assertUseCaseIsNotReserved (opt_useCase options)) (\<lambda>_. Inr op))"

text \<open>One invocation of a prepared operation.\<close>

definition invoke :: "dialcache_instance \<Rightarrow> operation \<Rightarrow> ('v, 'v) cache_prog" where
  "invoke dc op =
     executeCacheOperation (dialcache.truncate dc) (ready_options op) (ready_default op) (ready_timeout op) (ready_predicate op)"

subsection \<open>Accepted defaults\<close>

lemma get_prop_snapshot_input [simp]:
  "get_prop (snapshot_input v) ''ttlSec'' = get_prop v ''ttlSec''"
  "get_prop (snapshot_input v) ''ramp'' = get_prop v ''ramp''"
  "get_prop (snapshot_input v) ''shadow'' = get_prop v ''shadow''"
  "get_prop (snapshot_input v) ''requestLocal'' = get_prop v ''requestLocal''"
  "get_prop (snapshot_input v) ''coalesce'' = get_prop v ''coalesce''"
  "get_prop (snapshot_input v) ''staleOnErrorMaxAgeSec'' = get_prop v ''staleOnErrorMaxAgeSec''"
  "get_prop (snapshot_input v) ''remoteReadTimeoutMs'' = get_prop v ''remoteReadTimeoutMs''"
  by (simp_all add: snapshot_input_def opt_prop_def)

lemma snapshot_input_plain [simp]: "is_plain_object (snapshot_input v)" "\<not> hasOwn (snapshot_input v) ''shadowRamp''"
  by (simp_all add: snapshot_input_def opt_prop_def)

definition leaves_valid :: "key_config \<Rightarrow> bool" where
  "leaves_valid c \<longleftrightarrow> snapshot_layer c LOCAL = Inr () \<and> snapshot_layer c REMOTE = Inr () \<and> snapshot_stale c = Inr () \<and> snapshot_shadow c = Inr ()"

lemma snapshot_Inr:
  "snapshotDefaultConfig v = Inr (Some c) \<longleftrightarrow>
     is_plain_object v \<and> \<not> hasOwn v ''shadowRamp'' \<and> is_plain_object (get_prop v ''ttlSec'') \<and> is_plain_object (get_prop v ''ramp'') \<and>
     DialCacheKeyConfig_new (snapshot_input v) = Inr c \<and> leaves_valid c"
proof -
  have "(\<exists>b. opt_boolean (get_prop v ''requestLocal'') m = Inr b) \<and> (\<exists>b. opt_boolean (get_prop v ''coalesce'') m' = Inr b) \<and>
      assertDefaultShadowConfig (get_prop v ''shadow'') = Inr ()"
    if "DialCacheKeyConfig_new (snapshot_input v) = Inr c" for m m'
    using that by (auto simp: DialCacheKeyConfig_new_Inr opt_boolean_Inr assertDefaultShadowConfig_def cloneShadowConfig_Inr check_simps)
  then show ?thesis
    by (auto simp: snapshotDefaultConfig_def res_bind_Inr check_simps assertDefaultLayerMap_def leaves_valid_def)
qed

lemma assert_ramp_Inr: "assert_ramp r name = Inr u \<longleftrightarrow> r = JUndef \<or> num_in_0_100 r"
  by (cases r) (auto simp: assert_ramp_def res_bind_Inr check_simps num_in_0_100_def)

lemma snapshot_layer_Inr:
  "snapshot_layer c l = Inr u \<longleftrightarrow>
     (get_prop (ttlSec c) (layer_name l) = JUndef \<or> isSupportedCacheTtlSec (get_prop (ttlSec c) (layer_name l))) \<and>
     num_in_0_100 (effective_ramp c l)"
  by (cases "get_prop (ttlSec c) (layer_name l)")
     (auto simp: snapshot_layer_def Let_def res_bind_Inr check_simps assert_ramp_Inr effective_ramp_def num_in_0_100_iff)

lemma snapshot_layer_resolves:
  assumes "leaves_valid c"
  shows "resolveLayerConfigResult (Some c) key l =
    (if get_prop (ttlSec c) (layer_name l) = JUndef then LayerDisabled policy_disabled
     else if ramp_admits (deterministicRampSample key l) (res_ramp (resolved_of c l)) then LayerEnabled (resolved_of c l)
     else LayerRampedDown (resolved_of c l))"
  using assms by (cases l) (auto simp: resolveLayer_eq leaves_valid_def snapshot_layer_Inr resolved_of_def)

lemma snapshot_stale_window:
  assumes "leaves_valid c"
  shows "\<not> snd (resolveRemoteLayerConfigResult (Some c) key)"
proof (cases "get_prop (ttlSec c) (layer_name REMOTE) = JUndef")
  case True
  with assms show ?thesis
    by (auto simp: resolveRemoteLayerConfigResult_def snapshot_layer_resolves leaves_valid_def snapshot_stale_def res_bind_Inr check_simps
        isSupportedCacheTtlSec_iff Let_def split: if_splits)
next
  case False
  have "staleOnErrorMaxAgeSec c = JUndef \<or> staleOnErrorMaxAgeSec c = JNum (Fin 0) \<or>
      isSupportedCacheTtlSec (staleOnErrorMaxAgeSec c) \<and> res_ttlSec (resolved_of c REMOTE) < int_of_val (staleOnErrorMaxAgeSec c)"
    using assms by (auto simp: leaves_valid_def snapshot_stale_def res_bind_Inr check_simps isSupportedCacheTtlSec_iff resolved_of_def Let_def
        split: if_splits)
  then have "\<not> snd (stale_window (staleOnErrorMaxAgeSec c) (resolved_of c REMOTE))" by (auto simp: stale_window_def)
  with False show ?thesis by (simp add: resolveRemoteLayerConfigResult_def snapshot_layer_resolves [OF assms] Let_def)
qed

lemma snapshot_shadow_Inr:
  "snapshot_shadow c = Inr u \<longleftrightarrow>
     shadow c = JUndef \<or>
     (get_prop (shadow c) ''ramp'' = JUndef \<or> num_in_0_100 (get_prop (shadow c) ''ramp'')) \<and>
     (get_prop (shadow c) ''logMismatches'' = JUndef \<or> is_boolean (get_prop (shadow c) ''logMismatches'')) \<and>
     (let logging = get_prop (shadow c) ''mismatchLogging'' in
       (get_prop logging ''value'' = JUndef \<or> is_boolean (get_prop logging ''value'')) \<and>
       (get_prop logging ''diff'' = JUndef \<or> isShadowMismatchDiffLevel (get_prop logging ''diff'')))"
  by (simp add: snapshot_shadow_def Let_def res_bind_Inr check_simps assert_ramp_Inr)

lemma expand_valid:
  assumes "get_prop shd ''logMismatches'' = JUndef \<or> is_boolean (get_prop shd ''logMismatches'')"
  shows "\<not> leaf_invalid (expandMismatchLogging shd) \<and>
    (\<exists>b. leaf_value (expandMismatchLogging shd) = or_else (get_prop (get_prop shd ''mismatchLogging'') ''value'') (bool_val b)) \<and>
    (\<exists>d. (d = JUndef \<or> isShadowMismatchDiffLevel d) \<and>
      leaf_diff (expandMismatchLogging shd) = or_else (get_prop (get_prop shd ''mismatchLogging'') ''diff'') d)"
proof -
  have d: "isShadowMismatchDiffLevel (JStr (js ''values''))" "isShadowMismatchDiffLevel (JStr (js ''off''))"
    by (simp_all add: isShadowMismatchDiffLevel_def diff_of_val_def)
  consider "get_prop shd ''logMismatches'' = JUndef" | b where "get_prop shd ''logMismatches'' = JBool b"
    using assms is_boolean_iff by blast
  then show ?thesis
  proof cases
    case 1
    then show ?thesis
      by (auto simp: expandMismatchLogging_def Let_def bool_val_def intro: exI [of _ None] exI [of _ JUndef])
  next
    case (2 b)
    then show ?thesis
      by (cases b) (auto simp: expandMismatchLogging_def Let_def bool_val_def d intro: exI [of _ "Some b"] exI [of _ "JStr (js ''values'')"] exI [of _ "JStr (js ''off'')"])
  qed
qed

lemma snapshot_logging:
  assumes "leaves_valid c"
  shows "\<not> log_invalid (resolveMismatchLogging (shadow c))"
proof (cases "shadow c = JUndef")
  case True
  then show ?thesis by (simp add: resolveMismatchLogging_def expandMismatchLogging_def resolveDiffLeaf_def)
next
  case False
  with assms have ok: "get_prop (shadow c) ''logMismatches'' = JUndef \<or> is_boolean (get_prop (shadow c) ''logMismatches'')"
    "get_prop (get_prop (shadow c) ''mismatchLogging'') ''value'' = JUndef \<or> is_boolean (get_prop (get_prop (shadow c) ''mismatchLogging'') ''value'')"
    "get_prop (get_prop (shadow c) ''mismatchLogging'') ''diff'' = JUndef \<or> isShadowMismatchDiffLevel (get_prop (get_prop (shadow c) ''mismatchLogging'') ''diff'')"
    by (simp_all add: leaves_valid_def snapshot_shadow_Inr Let_def)
  have v: "resolveValueLeaf (or_else x (bool_val b)) \<noteq> None" if "x = JUndef \<or> is_boolean x" for x b
    using that by (cases b) (auto simp: is_boolean_iff bool_val_def)
  have d: "resolveDiffLeaf (or_else x d) \<noteq> None" if "x = JUndef \<or> isShadowMismatchDiffLevel x" "d = JUndef \<or> isShadowMismatchDiffLevel d" for x d
    using that by (auto simp: resolveDiffLeaf_def isShadowMismatchDiffLevel_def or_else_def)
  define leaves where "leaves = expandMismatchLogging (shadow c)"
  obtain b l where e: "\<not> leaf_invalid leaves" "l = JUndef \<or> isShadowMismatchDiffLevel l"
    "leaf_value leaves = or_else (get_prop (get_prop (shadow c) ''mismatchLogging'') ''value'') (bool_val b)"
    "leaf_diff leaves = or_else (get_prop (get_prop (shadow c) ''mismatchLogging'') ''diff'') l"
    using expand_valid [OF ok(1)] unfolding leaves_def by blast
  have "resolveValueLeaf (leaf_value leaves) \<noteq> None" "resolveDiffLeaf (leaf_diff leaves) \<noteq> None"
    unfolding e(3,4) by (rule v [OF ok(2)], rule d [OF ok(3) e(2)])
  with e(1) show ?thesis unfolding resolveMismatchLogging_def Let_def leaves_def [symmetric] by simp
qed

text \<open>
  C33. A default configuration that registration accepts is well typed for the rest of the program: for every key
  each layer is enabled, ramped down or plainly not configured, never disabled for an invalid TTL or ramp; its
  stale window and mismatch logging resolve without a configuration error; and taking the snapshot again changes
  nothing.
\<close>

theorem snapshot_policy_valid:
  assumes "snapshotDefaultConfig v = Inr (Some c)"
  shows "wf_config c \<and> (\<forall>reason. resolveLayerConfigResult (Some c) key l = LayerDisabled reason \<longrightarrow> reason = policy_disabled) \<and>
    \<not> snd (resolveRemoteLayerConfigResult (Some c) key) \<and> \<not> log_invalid (resolveMismatchLogging (shadow c)) \<and>
    snapshotDefaultConfig (config_obj c) = Inr (Some c)"
proof -
  have c: "DialCacheKeyConfig_new (snapshot_input v) = Inr c" and ok: "leaves_valid c" using assms by (auto simp: snapshot_Inr)
  then have wf: "wf_config c" using DialCacheKeyConfig_new_wf by blast
  have "DialCacheKeyConfig_new (snapshot_input (config_obj c)) = Inr c"
    using DialCacheKeyConfig_new_config_obj [OF wf] by (simp add: DialCacheKeyConfig_new_Inr)
  then have "snapshotDefaultConfig (config_obj c) = Inr (Some c)" using wf ok by (simp add: snapshot_Inr wf_config_def)
  with wf ok show ?thesis by (simp add: snapshot_layer_resolves snapshot_stale_window snapshot_logging)
qed

definition snapshot_sample :: jsval where
  "snapshot_sample = JObj [(''ttlSec'', JObj [(''remote'', JNum (Fin 60))]), (''ramp'', JObj [(''remote'', JNum (Fin 25))]),
     (''staleOnErrorMaxAgeSec'', JNum (Fin 300)), (''shadow'', JObj [(''logMismatches'', JBool True)])]"

definition snapshot_sample_config :: key_config where
  "snapshot_sample_config = \<lparr>ttlSec = JObj [(''remote'', JNum (Fin 60))], ramp = JObj [(''remote'', JNum (Fin 25))],
     shadow = JObj [(''logMismatches'', JBool True)], requestLocal = None, coalesce = None,
     staleOnErrorMaxAgeSec = JNum (Fin 300), remoteReadTimeoutMs = None\<rparr>"

lemma snapshot_sample_ok: "snapshotDefaultConfig snapshot_sample = Inr (Some snapshot_sample_config)"
  by (simp add: snapshot_Inr snapshot_sample_def snapshot_sample_config_def DialCacheKeyConfig_new_Inr cloneLayerConfig_def cloneShadowConfig_def
      bool_val_def int_val_def leaves_valid_def snapshot_layer_Inr effective_ramp_def num_in_0_100_iff snapshot_stale_def snapshot_shadow_def
      assert_ramp_Inr res_bind_Inr check_simps Let_def duration_consts assert_ramp_def)

theorem snapshot_policy_valid_witness:
  "snapshotDefaultConfig snapshot_sample = Inr (Some snapshot_sample_config) \<and>
   resolveLayerConfigResult (Some snapshot_sample_config) sample_key LOCAL = LayerDisabled policy_disabled \<and>
   snapshotDefaultConfig (config_obj snapshot_sample_config) = Inr (Some snapshot_sample_config)"
  using snapshot_policy_valid [OF snapshot_sample_ok, of sample_key LOCAL] snapshot_sample_ok
  by (simp add: resolveLayer_eq snapshot_sample_config_def)

subsection \<open>Registration\<close>

definition instance_ok :: "dialcache_instance \<Rightarrow> bool" where
  "instance_ok dc \<longleftrightarrow> \<not> has_brace (dc_namespace dc) \<and> 0 \<le> dc_localMaxSize dc \<and> 1 \<le> dc_shadowMaxInFlight dc \<and>
     distinct (in_useCases dc) \<and> js ''watermark'' \<notin> set (in_useCases dc) \<and>
     (case dc_redis dc of None \<Rightarrow> True | Some r \<Rightarrow> 1 \<le> rc_readTimeoutMs r \<and> rc_readTimeoutMs r \<le> MAX_TIMER_DELAY_MS)"

definition operation_ok :: "operation \<Rightarrow> bool" where
  "operation_ok op \<longleftrightarrow> (case ready_default op of None \<Rightarrow> True | Some c \<Rightarrow> wf_config c \<and> leaves_valid c) \<and>
     (case ready_timeout op of None \<Rightarrow> True | Some t \<Rightarrow> 1 \<le> t \<and> t \<le> MAX_TIMER_DELAY_MS)"

lemma RedisCache_new_timeout:
  "RedisCache_new zc zd z m ds opts = Inr r \<Longrightarrow> 1 \<le> rc_readTimeoutMs r \<and> rc_readTimeoutMs r \<le> MAX_TIMER_DELAY_MS"
  by (auto simp: RedisCache_new_def Let_def res_bind_Inr check_simps assertValidDeadlineMs_Inr split: if_splits)

lemma optional_redis_timeout:
  "(if opts = JUndef then Inr None else res_bind (RedisCache_new zc zd z m ds opts) (\<lambda>r. Inr (Some r))) = Inr redis \<Longrightarrow>
   case redis of None \<Rightarrow> True | Some r \<Rightarrow> 1 \<le> rc_readTimeoutMs r \<and> rc_readTimeoutMs r \<le> MAX_TIMER_DELAY_MS"
  by (cases redis) (auto simp: res_bind_Inr dest: RedisCache_new_timeout split: if_splits)

lemma DialCache_new_ok:
  assumes "DialCache_new zc zd z fmt config = Inr dc"
  shows "instance_ok dc"
  using assms [unfolded DialCache_new_def Let_def res_bind_Inr check_simps assertValidNamespace_def]
  by (elim exE conjE) (drule optional_redis_timeout, simp only: sum.inject, drule sym, simp add: instance_ok_def)

lemma registerUseCase_Inr:
  "registerUseCase uc dc = Inr dc' \<longleftrightarrow> uc \<noteq> js ''watermark'' \<and> uc \<notin> set (in_useCases dc) \<and> dc' = dc\<lparr>in_useCases := in_useCases dc @ [uc]\<rparr>"
  by (auto simp: registerUseCase_def assertUseCaseIsNotReserved_def res_bind_Inr check_simps)

lemma resolveFallbackTimeoutMs_Inr: "resolveFallbackTimeoutMs v = Inr (Some t) \<Longrightarrow> 1 \<le> t \<and> t \<le> MAX_TIMER_DELAY_MS"
  by (auto simp: resolveFallbackTimeoutMs_def res_bind_Inr check_simps Let_def split: if_splits)

lemma resolve_options_ok:
  assumes "resolve_options dc options = Inr op"
  shows "operation_ok op"
proof -
  have d: "snapshotDefaultConfig (op_defaultConfig options) = Inr (ready_default op)"
    and t: "resolveFallbackTimeoutMs (op_fallbackTimeoutMs options) = Inr (ready_timeout op)"
    using assms by (auto simp: resolve_options_def res_bind_Inr)
  have "wf_config c \<and> leaves_valid c" if "ready_default op = Some c" for c
    using d that by (auto simp: snapshot_Inr dest: DialCacheKeyConfig_new_wf)
  moreover have "1 \<le> n \<and> n \<le> MAX_TIMER_DELAY_MS" if "ready_timeout op = Some n" for n
    using t that resolveFallbackTimeoutMs_Inr by simp
  ultimately show ?thesis by (simp add: operation_ok_def split: option.split)
qed

text \<open>A call of \<open>cached\<close> as the instance sees it; a call that throws changes nothing.\<close>

definition attempt_cached :: "operation_options \<Rightarrow> dialcache_instance \<Rightarrow> dialcache_instance" where
  "attempt_cached options dc = (case cached options dc of Inl e \<Rightarrow> dc | Inr x \<Rightarrow> snd x)"

lemma cached_Inr:
  "cached options dc = Inr x \<longleftrightarrow>
     (\<exists>op. x = (op, dc\<lparr>in_useCases := in_useCases dc @ [opt_useCase options]\<rparr>) \<and> resolve_options dc options = Inr op \<and>
        opt_useCase options \<noteq> js ''watermark'' \<and> opt_useCase options \<notin> set (in_useCases dc))"
  by (auto simp: cached_def res_bind_Inr registerUseCase_Inr)

lemma attempt_cached_cases:
  obtains "attempt_cached options dc = dc"
    | op where "cached options dc = Inr (op, dc\<lparr>in_useCases := in_useCases dc @ [opt_useCase options]\<rparr>)"
        "opt_useCase options \<notin> set (in_useCases dc)" "opt_useCase options \<noteq> js ''watermark''"
        "attempt_cached options dc = dc\<lparr>in_useCases := in_useCases dc @ [opt_useCase options]\<rparr>"
  by (cases "cached options dc") (auto simp: attempt_cached_def cached_Inr)

lemma attempt_cached_effect:
  "instance_ok dc \<Longrightarrow> instance_ok (attempt_cached options dc)"
  "set (in_useCases dc) \<subseteq> set (in_useCases (attempt_cached options dc))"
  "dialcache.truncate (attempt_cached options dc) = dialcache.truncate dc"
proof -
  show "instance_ok (attempt_cached options dc)" if "instance_ok dc"
    by (cases options dc rule: attempt_cached_cases) (use that in \<open>simp_all add: instance_ok_def\<close>)
  show "set (in_useCases dc) \<subseteq> set (in_useCases (attempt_cached options dc))"
    by (cases options dc rule: attempt_cached_cases) auto
  show "dialcache.truncate (attempt_cached options dc) = dialcache.truncate dc"
    by (cases options dc rule: attempt_cached_cases) (simp_all add: dialcache.truncate_def)
qed

lemma attempts_effect:
  "instance_ok dc \<Longrightarrow> instance_ok (fold attempt_cached os dc)"
  "uc \<in> set (in_useCases dc) \<Longrightarrow> uc \<in> set (in_useCases (fold attempt_cached os dc))"
  "dialcache.truncate (fold attempt_cached os dc) = dialcache.truncate dc"
  by (induction os arbitrary: dc) (use attempt_cached_effect in \<open>auto simp: subset_eq\<close>)

text \<open>
  C34. An operation that an instance registers is sound for good: its default and its fallback deadline are valid,
  its use case is not the reserved one, the instance keeps its invariant whatever is registered before and after,
  later registrations do not change what the operation runs, and every later registration of the same use case
  throws.
\<close>

theorem registered_operation_sound:
  assumes "DialCache_new zc zd z fmt config = Inr dc0" "cached options (fold attempt_cached before dc0) = Inr (op, dc)"
    and "dc' = fold attempt_cached after dc"
  shows "operation_ok op \<and> opt_useCase options \<noteq> js ''watermark'' \<and> instance_ok dc' \<and>
    (invoke dc' op :: ('v, 'v) cache_prog) = invoke dc op \<and>
    (opt_useCase options' = opt_useCase options \<longrightarrow> (\<exists>e. cached options' dc' = Inl e))"
proof -
  let ?pre = "fold attempt_cached before dc0"
  have pre: "instance_ok ?pre" using DialCache_new_ok [OF assms(1)] by (simp add: attempts_effect)
  have op: "operation_ok op" and uc: "opt_useCase options \<noteq> js ''watermark''" and reg: "opt_useCase options \<in> set (in_useCases dc)"
    using assms(2) by (auto simp: cached_Inr dest: resolve_options_ok)
  have dc: "dc = attempt_cached options ?pre" using assms(2) by (simp add: attempt_cached_def)
  have "instance_ok dc'" unfolding assms(3) dc by (intro attempts_effect attempt_cached_effect pre)
  moreover have "opt_useCase options \<in> set (in_useCases dc')" unfolding assms(3) by (rule attempts_effect(2) [OF reg])
  then have "opt_useCase options' = opt_useCase options \<longrightarrow> (\<exists>e. cached options' dc' = Inl e)"
    by (cases "cached options' dc'") (auto simp: cached_Inr)
  ultimately show ?thesis using op uc assms(3) by (simp add: invoke_def attempts_effect)
qed

definition config_sample :: DialCacheConfig where
  "config_sample = \<lparr>cf_hasUrnPrefix = False, cf_hasRampSampler = False, cf_namespace = None, cf_localMaxSize = JUndef,
     cf_shadowMaxInFlight = JUndef, cf_metrics = None, cf_shouldAttemptStaleRecovery = JUndef, cf_redis = JUndef\<rparr>"

definition options_sample :: operation_options where
  "options_sample = \<lparr>opt_useCase = js ''profile'', opt_keyType = js ''user'', opt_serializer = None, opt_trackForInvalidation = Some True,
     op_defaultConfig = JNull, op_fallbackTimeoutMs = JUndef, op_shadowComparator = JUndef, op_shadowMismatchDiff = JUndef,
     op_shouldAttemptStaleRecovery = JUndef\<rparr>"

definition instance_sample :: dialcache_instance where
  "instance_sample = \<lparr>dc_namespace = js ''urn'', dc_metrics = False, dc_shadowMetric = False, dc_redis = None, dc_localMaxSize = 10000,
     dc_shadowMaxInFlight = 1, dc_fmt = (\<lambda>_. []), in_predicate = defaultStaleRecoveryPredicate, in_useCases = []\<rparr>"

definition operation_sample :: operation where
  "operation_sample = \<lparr>ready_options = cache_options.truncate options_sample, ready_default = None, ready_timeout = Some 60000,
     ready_comparator = isDeepStrictEqual, ready_hook = False, ready_predicate = defaultStaleRecoveryPredicate\<rparr>"

lemma instance_sample_new: "DialCache_new toy_zc toy_zd True (\<lambda>_. []) config_sample = Inr instance_sample"
  by (simp add: DialCache_new_def config_sample_def instance_sample_def assertValidNamespace_def check_def safe_integer_val_def
      resolveStaleRecoveryPredicate_def DEFAULT_LOCAL_MAX_SIZE_def DEFAULT_SHADOW_MAX_IN_FLIGHT_def MAX_SAFE_INTEGER_def has_brace_def js_def)

lemma operation_sample_cached:
  "cached options_sample instance_sample = Inr (operation_sample, instance_sample\<lparr>in_useCases := [js ''profile'']\<rparr>)"
  by (simp add: cached_def options_sample_def instance_sample_def operation_sample_def resolve_options_def snapshotDefaultConfig_def
      resolveFallbackTimeoutMs_def DEFAULT_FALLBACK_TIMEOUT_MS_def safe_integer_val_def check_def resolveShadowMismatchDiff_def
      resolveStaleRecoveryPredicate_def resolveShadowComparator_def registerUseCase_def assertUseCaseIsNotReserved_def duration_consts js_def)

theorem registered_operation_sound_witness:
  "cached options_sample instance_sample = Inr (operation_sample, instance_sample\<lparr>in_useCases := [js ''profile'']\<rparr>) \<and>
   operation_ok operation_sample \<and> (\<exists>e. cached options_sample (instance_sample\<lparr>in_useCases := [js ''profile'']\<rparr>) = Inl e)"
  using registered_operation_sound [OF instance_sample_new, of options_sample "[]" operation_sample
      "instance_sample\<lparr>in_useCases := [js ''profile'']\<rparr>" _ "[]" options_sample] operation_sample_cached
  by simp

end
