(* ===== verification/LocalCacheSpec.thy ===== *)
theory LocalCacheSpec
  imports ReadPath
begin

section \<open>The process-local cache over lru-cache\<close>

text \<open>
  \<^verbatim>\<open>internal/local-cache.ts\<close>. The read path asks the LRU through \<^term>\<open>QLruGet\<close> and \<^term>\<open>QLruSet\<close>
  (\<open>localGet\<close>, \<open>localPut\<close>); here those requests are answered by the third-party package, which is a parameter:
  a store with the operations the code calls and the behaviour its documentation promises
  (\<open>lru_documented\<close>). The clock given to the package is the code's.
\<close>

record ('l, 'v) lru =
  lru_new :: "int \<Rightarrow> 'l"
  lru_get :: "int \<Rightarrow> jsstring \<Rightarrow> 'l \<Rightarrow> 'v option \<times> 'l"
  lru_set :: "int \<Rightarrow> jsstring \<Rightarrow> 'v \<Rightarrow> int \<Rightarrow> 'l \<Rightarrow> 'l"

text \<open>
  What the package documents, over a view of its entries (value, start, TTL): an entry is stale when both its
  start and its TTL are nonzero and its age exceeds the TTL; a get returns a fresh entry; any operation may evict,
  none changes another key's entry.
\<close>

fun lru_stale :: "int \<Rightarrow> 'v \<times> int \<times> int \<Rightarrow> bool" where
  "lru_stale now (v, start, ttl) \<longleftrightarrow> ttl \<noteq> 0 \<and> start \<noteq> 0 \<and> now - start > ttl"

definition lru_documented :: "('l, 'v) lru \<Rightarrow> ('l \<Rightarrow> jsstring \<Rightarrow> ('v \<times> int \<times> int) option) \<Rightarrow> bool" where
  "lru_documented api view \<longleftrightarrow>
     (\<forall>n k. view (lru_new api n) k = None) \<and>
     (\<forall>now k l. fst (lru_get api now k l) =
        (case view l k of None \<Rightarrow> None | Some e \<Rightarrow> if lru_stale now e then None else Some (fst e))) \<and>
     (\<forall>now k l k'. view (snd (lru_get api now k l)) k' \<in> {None, view l k'}) \<and>
     (\<forall>now k v ttl l. view (lru_set api now k v ttl l) k \<in> {None, Some (v, now, ttl)}) \<and>
     (\<forall>now k v ttl l k'. k' \<noteq> k \<longrightarrow> view (lru_set api now k v ttl l) k' \<in> {None, view l k'})"

text \<open>\<^verbatim>\<open>perf: { now: () => Math.floor(performance.now()) + 1 }\<close>, and the cache the constructor builds (none at
  size zero).\<close>

definition local_clock :: "rat \<Rightarrow> int" where
  "local_clock now = \<lfloor>now\<rfloor> + 1"

definition LocalCache_new :: "('l, 'v) lru \<Rightarrow> int \<Rightarrow> 'l option" where
  "LocalCache_new api maxSize = (if maxSize = 0 then None else Some (lru_new api maxSize))"

definition localResolveLayerConfig :: "DialCacheKey \<Rightarrow> key_config option \<Rightarrow> resolved_layer layer_resolution" where
  "localResolveLayerConfig key keyConfig = resolveLayerConfigResult keyConfig key LOCAL"

subsection \<open>Answering the read path\<close>

fun lru_handler :: "('l, 'v) lru \<Rightarrow> rat \<Rightarrow> 'v req \<Rightarrow> 'l option \<Rightarrow> 'v ans \<times> 'l option" where
  "lru_handler api now (QLruGet k) (Some l) = (AOpt (fst (lru_get api (local_clock now) k l)), Some (snd (lru_get api (local_clock now) k l)))"
| "lru_handler api now (QLruSet k v ttl) (Some l) = (AUnit, Some (lru_set api (local_clock now) k v ttl l))"
| "lru_handler api now q c = (AUnit, c)"

datatype 'v local_event =
    LocalPuts rat DialCacheKey 'v resolved_layer
  | LocalGets rat DialCacheKey resolved_layer

fun local_event_time :: "'v local_event \<Rightarrow> rat" where
  "local_event_time (LocalPuts t k v c) = t"
| "local_event_time (LocalGets t k c) = t"

fun apply_local :: "('l, 'v) lru \<Rightarrow> dialcache \<Rightarrow> 'v local_event \<Rightarrow> 'l option \<Rightarrow> 'l option" where
  "apply_local api dc (LocalPuts t k v c) l = snd (serve (lru_handler api t) (localPut dc k v c) l)"
| "apply_local api dc (LocalGets t k c) l = snd (serve (lru_handler api t) (localGet dc k c) l)"

text \<open>What the history last put under a URN, with a TTL the cache accepts: the value, when, and the TTL in seconds.\<close>

fun last_put :: "'v local_event \<Rightarrow> (jsstring \<Rightarrow> ('v \<times> rat \<times> int) option) \<Rightarrow> jsstring \<Rightarrow> ('v \<times> rat \<times> int) option" where
  "last_put (LocalPuts t k v c) m =
     (if isSupportedCacheTtlSec (JNum (num_of_int (res_ttlSec c))) then m(urn k := Some (v, t, res_ttlSec c)) else m)"
| "last_put (LocalGets t k c) m = m"

subsection \<open>Correctness\<close>

lemma serve_localGet:
  "serve (lru_handler api now) (localGet dc key cfg) c =
     (case (if dc_localMaxSize dc = 0 then None else c) of
        None \<Rightarrow> (Inr (LocalMiss cfg), c)
      | Some l \<Rightarrow> (Inr (case fst (lru_get api (local_clock now) (urn key) l) of Some v \<Rightarrow> LocalHit v | None \<Rightarrow> LocalMiss cfg),
                   Some (snd (lru_get api (local_clock now) (urn key) l))))"
  by (cases c) (auto simp: localGet_def ask_def serve_pbind split: option.split)

lemma serve_localPut:
  "serve (lru_handler api now) (localPut dc key v cfg) c =
     (case cacheTtlSecToMs (res_ttlSec cfg) of
        Inl e \<Rightarrow> (Inl e, c)
      | Inr ms \<Rightarrow> (Inr (), if dc_localMaxSize dc = 0 then c
                      else map_option (lru_set api (local_clock now) (urn key) v (ms - 1)) c))"
  by (cases c) (auto simp: localPut_def ask_def serve_pbind split: sum.split)

text \<open>The relation between the package's entry and the history: absent, or exactly what was last put.\<close>

definition entry_of :: "'v \<times> rat \<times> int \<Rightarrow> 'v \<times> int \<times> int" where
  "entry_of p = (case p of (v, t, ttl) \<Rightarrow> (v, local_clock t, ttl * 1000 - 1))"

definition holds_last ::
  "('l \<Rightarrow> jsstring \<Rightarrow> ('v \<times> int \<times> int) option) \<Rightarrow> (jsstring \<Rightarrow> ('v \<times> rat \<times> int) option) \<Rightarrow> 'l \<Rightarrow> bool" where
  "holds_last view m l \<longleftrightarrow> (\<forall>u. view l u \<in> {None, map_option entry_of (m u)})"

definition puts_ok :: "(jsstring \<Rightarrow> ('v \<times> rat \<times> int) option) \<Rightarrow> bool" where
  "puts_ok m \<longleftrightarrow> (\<forall>u v t ttl. m u = Some (v, t, ttl) \<longrightarrow> 0 \<le> t \<and> 1 \<le> ttl)"

lemma local_event_holds:
  assumes doc: "lru_documented api view" and size: "dc_localMaxSize dc \<noteq> 0"
    and c: "holds_last view m l"
  shows "\<exists>l'. apply_local api dc ev (Some l) = Some l' \<and> holds_last view (last_put ev m) l'"
proof (cases ev)
  case (LocalPuts t k v cfg)
  have "view (lru_set api now (urn k) v ttl l) u \<in> {None, if u = urn k then Some (v, now, ttl) else view l u}" for now ttl u
    using doc by (auto simp: lru_documented_def)
  then have "holds_last view (m(urn k := Some (v, t, s))) (lru_set api (local_clock t) (urn k) v (s * 1000 - 1) l)" for s
    using c by (force simp: holds_last_def entry_of_def)
  with LocalPuts size c show ?thesis by (auto simp: serve_localPut cacheTtlSecToMs_def)
next
  case (LocalGets t k cfg)
  have "view (snd (lru_get api now (urn k) l)) u \<in> {None, view l u}" for now u
    using doc by (auto simp: lru_documented_def)
  then have "holds_last view m (snd (lru_get api now (urn k) l))" for now
    using c by (force simp: holds_last_def)
  with LocalGets size show ?thesis by (simp add: serve_localGet)
qed

lemma local_events_hold:
  assumes "lru_documented api view" "dc_localMaxSize dc \<noteq> 0" "holds_last view m l"
  shows "\<exists>l'. fold (apply_local api dc) es (Some l) = Some l' \<and> holds_last view (fold last_put es m) l'"
  using assms(3)
proof (induction es arbitrary: m l)
  case (Cons e es)
  obtain l' where "apply_local api dc e (Some l) = Some l'" "holds_last view (last_put e m) l'"
    using local_event_holds [OF assms(1,2) Cons.prems] by blast
  with Cons.IH [of "last_put e m" l'] show ?case by simp
qed simp

lemma puts_ok_event: "puts_ok m \<Longrightarrow> 0 \<le> local_event_time ev \<Longrightarrow> puts_ok (last_put ev m)"
  by (cases ev) (auto simp: puts_ok_def isSupportedCacheTtlSec_iff split: if_splits)

lemma puts_ok_events: "puts_ok m \<Longrightarrow> list_all (\<lambda>ev. 0 \<le> local_event_time ev) es \<Longrightarrow> puts_ok (fold last_put es m)"
  by (induction es arbitrary: m) (auto simp: puts_ok_event)

lemma disabled_events: "dc_localMaxSize dc = 0 \<Longrightarrow> fold (apply_local api dc) es None = None"
proof (induction es)
  case (Cons e es)
  then have "apply_local api dc e None = None" by (cases e) (auto simp: serve_localGet serve_localPut split: sum.split)
  with Cons show ?case by simp
qed simp

lemma entry_fresh:
  assumes "0 \<le> t" "1 \<le> ttl"
  shows "lru_stale (local_clock now) (entry_of (v, t, ttl)) \<longleftrightarrow> \<lfloor>now\<rfloor> - \<lfloor>t\<rfloor> \<ge> ttl * 1000"
proof -
  have "0 \<le> \<lfloor>t\<rfloor>" using assms(1) by simp
  with assms(2) show ?thesis by (simp add: entry_of_def local_clock_def) linarith
qed

text \<open>
  C17. The local cache over any package that behaves as documented: after any history of reads and writes, a lookup
  either misses because the package no longer holds an entry, or finds what was last put under the key's URN and
  hits exactly while that entry is younger than its TTL in whole milliseconds. At size zero every lookup misses.
\<close>

theorem local_entry_lifetime:
  assumes doc: "lru_documented api view" and times: "list_all (\<lambda>ev. 0 \<le> local_event_time ev) es"
    and c: "c = fold (apply_local api dc) es (LocalCache_new api (dc_localMaxSize dc))"
    and r: "result = fst (serve (lru_handler api now) (localGet dc key cfg) c)"
  shows "case c of None \<Rightarrow> dc_localMaxSize dc = 0 \<and> result = Inr (LocalMiss cfg)
    | Some l \<Rightarrow>
        if view l (urn key) = None then result = Inr (LocalMiss cfg)
        else \<exists>v t ttl. fold last_put es Map.empty (urn key) = Some (v, t, ttl) \<and>
          result = Inr (if \<lfloor>now\<rfloor> - \<lfloor>t\<rfloor> < ttl * 1000 then LocalHit v else LocalMiss cfg)"
proof (cases "dc_localMaxSize dc = 0")
  case True
  then show ?thesis using c r by (simp add: LocalCache_new_def disabled_events serve_localGet)
next
  case False
  have "holds_last view Map.empty (lru_new api (dc_localMaxSize dc))" using doc by (simp add: holds_last_def lru_documented_def)
  with local_events_hold [OF doc False] obtain l where l: "c = Some l" and h: "holds_last view (fold last_put es Map.empty) l"
    using c False by (fastforce simp: LocalCache_new_def)
  have get: "result = Inr (case view l (urn key) of None \<Rightarrow> LocalMiss cfg
      | Some e \<Rightarrow> if lru_stale (local_clock now) e then LocalMiss cfg else LocalHit (fst e))"
    using doc r l False by (simp add: serve_localGet lru_documented_def split: option.split)
  have ok: "puts_ok (fold last_put es (Map.empty :: jsstring \<Rightarrow> ('b \<times> rat \<times> int) option))"
    using times by (intro puts_ok_events) (simp_all add: puts_ok_def)
  show ?thesis
  proof (cases "view l (urn key)")
    case (Some e)
    have "view l (urn key) \<in> {None, map_option entry_of (fold last_put es Map.empty (urn key))}" using h by (simp only: holds_last_def)
    with Some obtain p where "fold last_put es Map.empty (urn key) = Some p" "e = entry_of p"
      by (cases "fold last_put es Map.empty (urn key)") auto
    then obtain v t ttl where p: "fold last_put es Map.empty (urn key) = Some (v, t, ttl)" "e = entry_of (v, t, ttl)"
      by (cases p) auto
    moreover have "0 \<le> t" "1 \<le> ttl" using ok p(1) by (auto simp: puts_ok_def)
    ultimately show ?thesis using Some l get
      by (simp add: entry_fresh linorder_not_less [symmetric]) (simp add: entry_of_def)
  qed (use l get in simp)
qed

text \<open>A store that keeps every entry behaves as documented.\<close>

definition map_lru :: "(jsstring \<Rightarrow> ('v \<times> int \<times> int) option, 'v) lru" where
  "map_lru = \<lparr>lru_new = \<lambda>_. Map.empty,
     lru_get = \<lambda>now k l. (case l k of None \<Rightarrow> None | Some e \<Rightarrow> if lru_stale now e then None else Some (fst e), l),
     lru_set = \<lambda>now k v ttl l. l(k := Some (v, now, ttl))\<rparr>"

lemma map_lru_documented: "lru_documented map_lru (\<lambda>l. l)"
  by (simp add: lru_documented_def map_lru_def)

definition sample_local :: "nat \<Rightarrow> dialcache" where
  "sample_local n = \<lparr>dc_namespace = js ''n'', dc_metrics = False, dc_shadowMetric = False, dc_redis = None, dc_localMaxSize = int n,
     dc_shadowMaxInFlight = 1, dc_fmt = (\<lambda>_. [])\<rparr>"

definition local_sample :: "nat \<Rightarrow> rat \<Rightarrow> nat local_get res" where
  "local_sample n now =
     fst (serve (lru_handler map_lru now) (localGet (sample_local n) sample_key \<lparr>res_ttlSec = 1, res_ramp = 100\<rparr>)
       (fold (apply_local map_lru (sample_local n)) [LocalPuts 1 sample_key 7 \<lparr>res_ttlSec = 1, res_ramp = 100\<rparr>]
         (LocalCache_new map_lru (dc_localMaxSize (sample_local n)))))"

lemma sample_ttl: "isSupportedCacheTtlSec (JNum (Fin 1))" "cacheTtlSecToMs 1 = Inr 1000"
  by (simp_all add: cacheTtlSecToMs_def isSupportedCacheTtlSec.simps duration_consts)

theorem local_entry_lifetime_witness:
  "local_sample 10 999 = Inr (LocalHit 7) \<and> local_sample 10 1001 = Inr (LocalMiss \<lparr>res_ttlSec = 1, res_ramp = 100\<rparr>) \<and>
   local_sample 0 1 = Inr (LocalMiss \<lparr>res_ttlSec = 1, res_ramp = 100\<rparr>)"
  using local_entry_lifetime [OF map_lru_documented, of "[LocalPuts 1 sample_key 7 \<lparr>res_ttlSec = 1, res_ramp = 100\<rparr>]" _ "sample_local 10"
      "local_sample 10 999" 999 sample_key "\<lparr>res_ttlSec = 1, res_ramp = 100\<rparr>", OF _ refl]
    local_entry_lifetime [OF map_lru_documented, of "[LocalPuts 1 sample_key 7 \<lparr>res_ttlSec = 1, res_ramp = 100\<rparr>]" _ "sample_local 10"
      "local_sample 10 1001" 1001 sample_key "\<lparr>res_ttlSec = 1, res_ramp = 100\<rparr>", OF _ refl]
    local_entry_lifetime [OF map_lru_documented, of "[LocalPuts 1 sample_key 7 \<lparr>res_ttlSec = 1, res_ramp = 100\<rparr>]" _ "sample_local 0"
      "local_sample 0 1" 1 sample_key "\<lparr>res_ttlSec = 1, res_ramp = 100\<rparr>", OF _ refl]
  by (simp add: local_sample_def serve_localPut sample_ttl LocalCache_new_def sample_local_def map_lru_def duration_consts)

end
