(* ===== verification/ShadowJson.thy ===== *)
theory ShadowJson
  imports Keys "HOL-Library.Sublist"
begin

section \<open>Differences between two JSON values\<close>

text \<open>
  \<^verbatim>\<open>internal/shadow-log-json.ts\<close>, the built-in difference computation: \<open>walkJson\<close> and the iterative
  comparison \<open>jsonValuesEqual\<close> it uses at the depth limit. A JSON value is what \<^verbatim>\<open>JSON.parse\<close> returns: member names
  of an object are distinct (\<open>json_ok\<close>), and their order is the one of the text.
\<close>

datatype json =
    JsNull
  | JsBool bool
  | JsNumber rat
  | JsString jsstring
  | JsArray "json list"
  | JsObject "(jsstring \<times> json) list"

fun json_ok :: "json \<Rightarrow> bool" where
  "json_ok (JsArray xs) = list_all json_ok xs"
| "json_ok (JsObject ms) \<longleftrightarrow> distinct (map fst ms) \<and> list_all (\<lambda>m. json_ok (snd m)) ms"
| "json_ok j \<longleftrightarrow> True"

datatype json_kind = KArray | KObject | KPrimitive

fun jsonKind :: "json \<Rightarrow> json_kind" where
  "jsonKind (JsArray _) = KArray"
| "jsonKind (JsObject _) = KObject"
| "jsonKind _ = KPrimitive"

text \<open>The casts \<^verbatim>\<open>left as readonly JsonValue[]\<close> and \<^verbatim>\<open>left as JsonObject\<close>.\<close>

fun items :: "json \<Rightarrow> json list" where
  "items (JsArray xs) = xs"
| "items _ = []"

fun members :: "json \<Rightarrow> (jsstring \<times> json) list" where
  "members (JsObject ms) = ms"
| "members _ = []"

subsection \<open>The iterative comparison\<close>

text \<open>
  The loop of \<open>jsonValuesEqual\<close> on its stack \<^verbatim>\<open>pending\<close>, the pair that is popped next first. Its result is an
  option, so that a loop that never ends is the value \<open>None\<close>.
\<close>

partial_function (option) equal_loop :: "(json \<times> json) list \<Rightarrow> bool option" where
  "equal_loop pending =
     (case pending of [] \<Rightarrow> Some True
      | pair # rest \<Rightarrow>
          let left = fst pair; right = snd pair; kind = jsonKind left in
          if kind \<noteq> jsonKind right then Some False
          else if kind = KPrimitive then (if left \<noteq> right then Some False else equal_loop rest)
          else if kind = KArray then
            (if length (items left) \<noteq> length (items right) then Some False
             else equal_loop (rev (zip (items left) (items right)) @ rest))
          else
            (if length (members left) \<noteq> length (members right) then Some False
             else if \<not> list_all (\<lambda>m. map_of (members right) (fst m) \<noteq> None) (members left) then Some False
             else equal_loop (rev (map (\<lambda>m. (snd m, the (map_of (members right) (fst m)))) (members left)) @ rest)))"

declare equal_loop.simps [code]

definition jsonValuesEqual :: "json \<Rightarrow> json \<Rightarrow> bool" where
  "jsonValuesEqual cached source = (case equal_loop [(cached, source)] of Some b \<Rightarrow> b | None \<Rightarrow> False)"

text \<open>The reference: equality of JSON values, where the order of an object's members does not count.\<close>

fun json_same :: "json \<Rightarrow> json \<Rightarrow> bool" where
  "json_same (JsArray xs) (JsArray ys) = list_all2 json_same xs ys"
| "json_same (JsObject ms) (JsObject ns) \<longleftrightarrow>
     fst ` set ms = fst ` set ns \<and>
     list_all (\<lambda>m. case map_of ns (fst m) of None \<Rightarrow> False | Some w \<Rightarrow> json_same (snd m) w) ms"
| "json_same l r \<longleftrightarrow> l = r"

subsection \<open>The walk\<close>

definition SHADOW_MISMATCH_MAX_ENTRIES :: nat where
  "SHADOW_MISMATCH_MAX_ENTRIES = 64"

definition SHADOW_MISMATCH_MAX_DEPTH :: nat where
  "SHADOW_MISMATCH_MAX_DEPTH = 32"

datatype token = Index nat | Name jsstring

text \<open>A reported difference, before its pointer is built: the reference tokens and the present sides.\<close>

record difference =
  df_tokens :: "token list"
  df_cached :: "json option"
  df_source :: "json option"

record walk_state =
  wk_entries :: "difference list"
  wk_count :: nat

definition report :: "token list \<Rightarrow> json option \<Rightarrow> json option \<Rightarrow> walk_state \<Rightarrow> walk_state" where
  "report tokens cached source st =
     st\<lparr>wk_count := wk_count st + 1,
        wk_entries := (if length (wk_entries st) < SHADOW_MISMATCH_MAX_ENTRIES
                       then wk_entries st @ [\<lparr>df_tokens = tokens, df_cached = cached, df_source = source\<rparr>]
                       else wk_entries st)\<rparr>"

definition member_names :: "(jsstring \<times> json) list \<Rightarrow> (jsstring \<times> json) list \<Rightarrow> jsstring list" where
  "member_names leftMembers rightMembers =
     sort (map fst leftMembers @ filter (\<lambda>n. map_of leftMembers n = None) (map fst rightMembers))"

lemma fold_state_cong [fundef_cong]:
  "xs = ys \<Longrightarrow> a = b \<Longrightarrow> (\<And>x s. x \<in> set ys \<Longrightarrow> f x s = g x s) \<Longrightarrow> fold f xs a = fold g ys b"
  by (rule fold_cong) auto

lemma size_member: "map_of (members j) n = Some v \<Longrightarrow> size v < size j"
proof (cases j)
  case (JsObject ms)
  moreover assume "map_of (members j) n = Some v"
  ultimately have "(n, v) \<in> set ms" by (simp add: map_of_SomeD)
  then have "size_prod (\<lambda>_. 0) size (n, v) \<le> size_list (size_prod (\<lambda>_. 0) size) ms" by (rule size_list_estimation') simp
  with JsObject show ?thesis by simp
qed simp_all

lemma size_item: "x \<in> set (items j) \<Longrightarrow> size x < size j"
proof (cases j)
  case (JsArray xs)
  moreover assume "x \<in> set (items j)"
  ultimately have "x \<in> set xs" by simp
  then have "size x \<le> size_list size xs" by (rule size_list_estimation') simp
  with JsArray show ?thesis by simp
qed simp_all

lemma enumerate_zip_item: "p \<in> set (enumerate n (zip xs ys)) \<Longrightarrow> fst (snd p) \<in> set xs \<and> snd (snd p) \<in> set ys"
  by (cases p) (auto simp: in_set_enumerate_eq set_zip dest!: nth_zip [symmetric])

function walk :: "token list \<Rightarrow> json \<Rightarrow> json \<Rightarrow> walk_state \<Rightarrow> walk_state" where
  "walk tokens left right st =
     (let kind = jsonKind left in
      if kind \<noteq> jsonKind right \<or> kind = KPrimitive then
        (if left \<noteq> right then report tokens (Some left) (Some right) st else st)
      else if length tokens \<ge> SHADOW_MISMATCH_MAX_DEPTH then
        (if \<not> jsonValuesEqual left right then report tokens (Some left) (Some right) st else st)
      else if kind = KArray then
        (if length (items left) \<noteq> length (items right) then report tokens (Some left) (Some right) st
         else fold (\<lambda>p s. walk (tokens @ [Index (fst p)]) (fst (snd p)) (snd (snd p)) s)
                (enumerate 0 (zip (items left) (items right))) st)
      else
        fold (\<lambda>name s.
            (case map_of (members right) name of
               None \<Rightarrow> report (tokens @ [Name name]) (map_of (members left) name) None s
             | Some r \<Rightarrow>
                 (case map_of (members left) name of
                    None \<Rightarrow> report (tokens @ [Name name]) None (Some r) s
                  | Some l \<Rightarrow> walk (tokens @ [Name name]) l r s)))
          (member_names (members left) (members right)) st)"
  by pat_completeness auto
termination
  by (relation "measure (\<lambda>(tokens, left, right, st). size left)") (auto dest!: enumerate_zip_item intro: size_item size_member)

declare walk.simps [simp del]

subsection \<open>The comparison always returns, and is equality of JSON values\<close>

text \<open>What the loop is left to decide: every pending pair is the same value.\<close>

definition all_same :: "(json \<times> json) list \<Rightarrow> bool" where
  "all_same ps \<longleftrightarrow> list_all (\<lambda>p. json_same (fst p) (snd p)) ps"

definition pairs_ok :: "(json \<times> json) list \<Rightarrow> bool" where
  "pairs_ok ps \<longleftrightarrow> list_all (\<lambda>p. json_ok (fst p) \<and> json_ok (snd p)) ps"

lemma pairs_simps [simp]:
  "all_same []" "all_same (p # ps) \<longleftrightarrow> json_same (fst p) (snd p) \<and> all_same ps" "all_same (ps @ qs) \<longleftrightarrow> all_same ps \<and> all_same qs"
  "all_same (rev ps) = all_same ps"
  "pairs_ok []" "pairs_ok (p # ps) \<longleftrightarrow> json_ok (fst p) \<and> json_ok (snd p) \<and> pairs_ok ps" "pairs_ok (ps @ qs) \<longleftrightarrow> pairs_ok ps \<and> pairs_ok qs"
  "pairs_ok (rev ps) = pairs_ok ps"
  by (auto simp: all_same_def pairs_ok_def list_all_iff)

lemma json_ok_items: "json_ok j \<Longrightarrow> x \<in> set (items j) \<Longrightarrow> json_ok x"
  by (cases j) (auto simp: list_all_iff)

lemma json_ok_member: "json_ok j \<Longrightarrow> map_of (members j) n = Some v \<Longrightarrow> json_ok v"
  by (cases j) (auto simp: list_all_iff dest!: map_of_SomeD)

lemma json_ok_distinct: "json_ok j \<Longrightarrow> distinct (map fst (members j))"
  by (cases j) auto

text \<open>The measure that every turn of the loop lowers: the total size of the left sides.\<close>

definition work :: "(json \<times> json) list \<Rightarrow> nat" where
  "work ps = sum_list (map (\<lambda>p. Suc (size (fst p))) ps)"

lemma work_simps [simp]: "work [] = 0" "work (p # ps) = Suc (size (fst p)) + work ps" "work (ps @ qs) = work ps + work qs"
  "work (rev ps) = work ps"
  by (simp_all add: work_def rev_map [symmetric])

lemma work_items: "length (items l) = length (items r) \<Longrightarrow> jsonKind l = KArray \<Longrightarrow> work (zip (items l) (items r)) \<le> size l"
proof (cases l)
  case (JsArray xs)
  assume len: "length (items l) = length (items r)"
  have "work (zip xs ys) = size_list size xs" if "length xs = length ys" for ys :: "json list"
    using that by (induction xs ys rule: list_induct2) auto
  with JsArray len show ?thesis by simp
qed auto

lemma work_members: "jsonKind l = KObject \<Longrightarrow> work (map (\<lambda>m. (snd m, f m)) (members l)) \<le> size l"
proof (cases l)
  case (JsObject ms)
  have "work (map (\<lambda>m. (snd m, f m)) ms) \<le> size_list (size_prod (\<lambda>_. 0) size) ms"
    by (induction ms) (auto simp: work_def)
  with JsObject show ?thesis by simp
qed auto

text \<open>How equality of two values splits along their kind.\<close>

lemma json_same_kind: "jsonKind l \<noteq> jsonKind r \<Longrightarrow> \<not> json_same l r"
  by (cases l; cases r) auto

lemma json_same_primitive: "jsonKind l = KPrimitive \<Longrightarrow> json_same l r \<longleftrightarrow> l = r"
  by (cases l; cases r) auto

lemma json_same_array:
  "jsonKind l = KArray \<Longrightarrow> jsonKind r = KArray \<Longrightarrow>
   json_same l r \<longleftrightarrow> length (items l) = length (items r) \<and> all_same (zip (items l) (items r))"
  by (cases l; cases r) (auto simp: list_all2_iff all_same_def list_all_iff)

lemma json_same_object:
  assumes "jsonKind l = KObject" "jsonKind r = KObject" "json_ok l" "json_ok r"
  shows "json_same l r \<longleftrightarrow> length (members l) = length (members r) \<and>
    list_all (\<lambda>m. map_of (members r) (fst m) \<noteq> None) (members l) \<and>
    all_same (map (\<lambda>m. (snd m, the (map_of (members r) (fst m)))) (members l))"
proof -
  obtain ms ns where lr: "l = JsObject ms" "r = JsObject ns" using assms(1,2) by (cases l; cases r) auto
  then have d: "distinct (map fst ms)" "distinct (map fst ns)" using assms(3,4) by auto
  have len: "card (fst ` set ms) = length ms" "card (fst ` set ns) = length ns"
    using d by (metis distinct_card length_map set_map)+
  have "(\<forall>m \<in> set ms. map_of ns (fst m) \<noteq> None) \<longleftrightarrow> fst ` set ms \<subseteq> fst ` set ns"
    by (auto simp: map_of_eq_None_iff image_subset_iff)
  moreover have "fst ` set ms = fst ` set ns \<longleftrightarrow> length ms = length ns \<and> fst ` set ms \<subseteq> fst ` set ns"
    using len by (metis List.finite_set card_subset_eq finite_imageI order_refl)
  moreover have "(\<forall>m \<in> set ms. case map_of ns (fst m) of None \<Rightarrow> False | Some w \<Rightarrow> json_same (snd m) w) \<longleftrightarrow>
      (\<forall>m \<in> set ms. json_same (snd m) (the (map_of ns (fst m))))" if "\<forall>m \<in> set ms. map_of ns (fst m) \<noteq> None"
    using that by (intro ball_cong) auto
  ultimately show ?thesis unfolding lr by (auto simp: all_same_def list_all_iff)
qed

lemma pairs_ok_items: "json_ok l \<Longrightarrow> json_ok r \<Longrightarrow> pairs_ok (zip (items l) (items r))"
  by (auto simp: pairs_ok_def list_all_iff) (meson json_ok_items set_zip_leftD set_zip_rightD)+

lemma pairs_ok_members:
  assumes "json_ok l" "json_ok r" "list_all (\<lambda>m. map_of (members r) (fst m) \<noteq> None) (members l)"
  shows "pairs_ok (map (\<lambda>m. (snd m, the (map_of (members r) (fst m)))) (members l))"
proof -
  have "json_ok (snd m) \<and> json_ok (the (map_of (members r) (fst m)))" if m: "m \<in> set (members l)" for m
  proof
    have "map_of (members l) (fst m) = Some (snd m)" 
      using map_of_is_SomeI [OF json_ok_distinct [OF assms(1)], of "fst m" "snd m"] m by simp
    then show "json_ok (snd m)" by (rule json_ok_member [OF assms(1)])
    obtain w where "map_of (members r) (fst m) = Some w" using m assms(3) by (auto simp: list_all_iff)
    then show "json_ok (the (map_of (members r) (fst m)))" using json_ok_member [OF assms(2)] by simp
  qed
  then show ?thesis by (auto simp: pairs_ok_def list_all_iff)
qed

lemma equal_loop_exact: "pairs_ok ps \<Longrightarrow> equal_loop ps = Some (all_same ps)"
proof (induction "work ps" arbitrary: ps rule: less_induct)
  case less
  show ?case
  proof (cases ps)
    case Nil
    then show ?thesis by (subst equal_loop.simps) simp
  next
    case (Cons p rest)
    obtain l r where p: "p = (l, r)" by (cases p)
    have ok: "json_ok l" "json_ok r" "pairs_ok rest" using less.prems Cons p by auto
    have loop: "equal_loop qs = Some (all_same qs)" if "work qs < work ps" "pairs_ok qs" for qs
      using less.hyps that by blast
    consider "jsonKind l \<noteq> jsonKind r" | "jsonKind l = KPrimitive" "jsonKind r = KPrimitive"
      | "jsonKind l = KArray" "jsonKind r = KArray" | "jsonKind l = KObject" "jsonKind r = KObject"
      by (cases "jsonKind l"; cases "jsonKind r") auto
    then show ?thesis
    proof cases
      case 1
      then show ?thesis using Cons p by (subst equal_loop.simps) (simp add: json_same_kind)
    next
      case 2
      have "equal_loop rest = Some (all_same rest)" by (rule loop) (use Cons ok in auto)
      then show ?thesis using Cons p 2 by (subst equal_loop.simps) (simp add: json_same_primitive)
    next
      case 3
      let ?qs = "rev (zip (items l) (items r)) @ rest"
      have "equal_loop ?qs = Some (all_same ?qs)" if "length (items l) = length (items r)"
        by (rule loop) (use Cons p ok work_items [OF that] 3 in \<open>auto simp: pairs_ok_items\<close>)
      then show ?thesis using Cons p 3 by (subst equal_loop.simps) (auto simp: json_same_array Let_def)
    next
      case 4
      let ?qs = "rev (map (\<lambda>m. (snd m, the (map_of (members r) (fst m)))) (members l)) @ rest"
      have "equal_loop ?qs = Some (all_same ?qs)" if "list_all (\<lambda>m. map_of (members r) (fst m) \<noteq> None) (members l)"
        by (rule loop) (use Cons p ok work_members [OF 4(1)] pairs_ok_members [OF ok(1,2) that] in
            \<open>auto simp: less_Suc_eq_le add_le_mono\<close>)
      then show ?thesis using Cons p 4 json_same_object [OF 4 ok(1,2)] by (subst equal_loop.simps) (auto simp: Let_def)
    qed
  qed
qed

text \<open>
  C35. The iterative comparison always returns: on any two JSON values its worklist empties or decides, and the
  result is equality of the values, whatever the order of the members of their objects.
\<close>

theorem jsonValuesEqual_terminates:
  assumes "json_ok cached" "json_ok source"
  shows "(\<exists>b. equal_loop [(cached, source)] = Some b) \<and> jsonValuesEqual cached source = json_same cached source"
  using assms equal_loop_exact [of "[(cached, source)]"] by (simp add: jsonValuesEqual_def)

theorem jsonValuesEqual_terminates_witness:
  "(\<exists>b. equal_loop [(JsObject [(js ''a'', JsNumber 1), (js ''b'', JsArray [JsNull])], JsObject [(js ''b'', JsArray [JsNull]), (js ''a'', JsNumber 1)])] = Some b) \<and>
   jsonValuesEqual (JsObject [(js ''a'', JsNumber 1), (js ''b'', JsArray [JsNull])]) (JsObject [(js ''b'', JsArray [JsNull]), (js ''a'', JsNumber 1)]) \<and>
   \<not> jsonValuesEqual (JsArray [JsNumber 1]) (JsArray [JsNumber 2])"
  using jsonValuesEqual_terminates [of "JsObject [(js ''a'', JsNumber 1), (js ''b'', JsArray [JsNull])]"
      "JsObject [(js ''b'', JsArray [JsNull]), (js ''a'', JsNumber 1)]"]
    jsonValuesEqual_terminates [of "JsArray [JsNumber 1]" "JsArray [JsNumber 2]"]
  by (simp add: js_def insert_commute)

subsection \<open>The walk against pointer lookup\<close>

definition walkJson :: "json \<Rightarrow> json \<Rightarrow> walk_state" where
  "walkJson cached source = walk [] cached source \<lparr>wk_entries = [], wk_count = 0\<rparr>"

text \<open>All differences in walk order, without the cut.\<close>

function differences :: "token list \<Rightarrow> json \<Rightarrow> json \<Rightarrow> difference list" where
  "differences tokens left right =
     (let whole = [\<lparr>df_tokens = tokens, df_cached = Some left, df_source = Some right\<rparr>] in
      if jsonKind left \<noteq> jsonKind right \<or> jsonKind left = KPrimitive then (if left \<noteq> right then whole else [])
      else if length tokens \<ge> SHADOW_MISMATCH_MAX_DEPTH then (if jsonValuesEqual left right then [] else whole)
      else if jsonKind left = KArray then
        (if length (items left) \<noteq> length (items right) then whole
         else concat (map (\<lambda>p. differences (tokens @ [Index (fst p)]) (fst (snd p)) (snd (snd p)))
                (enumerate 0 (zip (items left) (items right)))))
      else
        concat (map (\<lambda>name.
            (case map_of (members right) name of
               None \<Rightarrow> [\<lparr>df_tokens = tokens @ [Name name], df_cached = map_of (members left) name, df_source = None\<rparr>]
             | Some r \<Rightarrow>
                 (case map_of (members left) name of
                    None \<Rightarrow> [\<lparr>df_tokens = tokens @ [Name name], df_cached = None, df_source = Some r\<rparr>]
                  | Some l \<Rightarrow> differences (tokens @ [Name name]) l r)))
          (member_names (members left) (members right))))"
  by pat_completeness auto
termination
  by (relation "measure (\<lambda>(tokens, left, right). size left)") (auto dest!: enumerate_zip_item intro: size_item size_member)

declare differences.simps [simp del]

definition record_all :: "difference list \<Rightarrow> walk_state \<Rightarrow> walk_state" where
  "record_all ds st = fold (\<lambda>d. report (df_tokens d) (df_cached d) (df_source d)) ds st"

lemma record_all_simps [simp]:
  "record_all [] st = st" "record_all (ds @ es) st = record_all es (record_all ds st)"
  "record_all [d] st = report (df_tokens d) (df_cached d) (df_source d) st"
  by (simp_all add: record_all_def)

lemma fold_record: "(\<And>x s. x \<in> set xs \<Longrightarrow> f x s = record_all (g x) s) \<Longrightarrow> fold f xs st = record_all (concat (map g xs)) st"
  by (induction xs arbitrary: st) auto

lemma walk_records: "walk tokens left right st = record_all (differences tokens left right) st"
proof (induction tokens left right st rule: walk.induct)
  case (1 tokens left right st)
  have arr: "fold (\<lambda>p s. walk (tokens @ [Index (fst p)]) (fst (snd p)) (snd (snd p)) s) (enumerate 0 (zip (items left) (items right))) st =
      record_all (concat (map (\<lambda>p. differences (tokens @ [Index (fst p)]) (fst (snd p)) (snd (snd p)))
        (enumerate 0 (zip (items left) (items right))))) st"
    if "\<not> (jsonKind left \<noteq> jsonKind right \<or> jsonKind left = KPrimitive)" "\<not> length tokens \<ge> SHADOW_MISMATCH_MAX_DEPTH"
      "jsonKind left = KArray" "length (items left) = length (items right)"
    by (rule fold_record) (use "1.IH"(1) [OF refl that(1,2,3)] that(4) in simp)
  have obj: "fold (\<lambda>name s. (case map_of (members right) name of
           None \<Rightarrow> report (tokens @ [Name name]) (map_of (members left) name) None s
         | Some r \<Rightarrow> (case map_of (members left) name of
               None \<Rightarrow> report (tokens @ [Name name]) None (Some r) s
             | Some l \<Rightarrow> walk (tokens @ [Name name]) l r s))) (member_names (members left) (members right)) st =
      record_all (concat (map (\<lambda>name. (case map_of (members right) name of
           None \<Rightarrow> [\<lparr>df_tokens = tokens @ [Name name], df_cached = map_of (members left) name, df_source = None\<rparr>]
         | Some r \<Rightarrow> (case map_of (members left) name of
               None \<Rightarrow> [\<lparr>df_tokens = tokens @ [Name name], df_cached = None, df_source = Some r\<rparr>]
             | Some l \<Rightarrow> differences (tokens @ [Name name]) l r))) (member_names (members left) (members right)))) st"
    if "\<not> (jsonKind left \<noteq> jsonKind right \<or> jsonKind left = KPrimitive)" "\<not> length tokens \<ge> SHADOW_MISMATCH_MAX_DEPTH"
      "\<not> jsonKind left = KArray"
    by (rule fold_record) (use "1.IH"(2) [OF refl that] in \<open>auto split: option.split\<close>)
  show ?case
    by (subst walk.simps, subst differences.simps) (simp add: Let_def arr obj)
qed

lemma record_all_effect:
  assumes "wk_entries st = take SHADOW_MISMATCH_MAX_ENTRIES es" "wk_count st = length es"
  shows "wk_entries (record_all ds st) = take SHADOW_MISMATCH_MAX_ENTRIES (es @ ds) \<and> wk_count (record_all ds st) = length (es @ ds)"
  using assms
proof (induction ds arbitrary: es st)
  case (Cons d ds)
  let ?st = "report (df_tokens d) (df_cached d) (df_source d) st"
  have "wk_entries ?st = take SHADOW_MISMATCH_MAX_ENTRIES (es @ [d])" "wk_count ?st = length (es @ [d])"
    using Cons.prems by (auto simp: report_def min_def)
  from Cons.IH [OF this] show ?case by (simp add: record_all_def)
qed simp

lemma walkJson_differences:
  "wk_entries (walkJson cached source) = take SHADOW_MISMATCH_MAX_ENTRIES (differences [] cached source)"
  "wk_count (walkJson cached source) = length (differences [] cached source)"
  using record_all_effect [of "\<lparr>wk_entries = [], wk_count = 0\<rparr>" "[]" "differences [] cached source"]
  by (simp_all add: walkJson_def walk_records)

text \<open>Pointer lookup (RFC 6901 on reference tokens), and equality of two sides that may be absent.\<close>

fun child :: "token \<Rightarrow> json \<Rightarrow> json option" where
  "child (Index i) j = (if i < length (items j) then Some (items j ! i) else None)"
| "child (Name n) j = map_of (members j) n"

fun lookup :: "token list \<Rightarrow> json \<Rightarrow> json option" where
  "lookup [] j = Some j"
| "lookup (t # ts) j = (case child t j of None \<Rightarrow> None | Some k \<Rightarrow> lookup ts k)"

fun side_same :: "json option \<Rightarrow> json option \<Rightarrow> bool" where
  "side_same (Some a) (Some b) = json_same a b"
| "side_same None None = True"
| "side_same _ _ = False"

lemma child_size: "child t j = Some k \<Longrightarrow> size k < size j"
  by (cases t) (auto simp: size_member split: if_splits intro: size_item)

lemma child_ok: "json_ok j \<Longrightarrow> child t j = Some k \<Longrightarrow> json_ok k"
  by (cases t) (auto intro: json_ok_member json_ok_items split: if_splits)

lemma child_primitive: "jsonKind j = KPrimitive \<Longrightarrow> child t j = None"
  by (cases j; cases t) auto

lemma json_same_members:
  assumes "jsonKind l = KObject" "jsonKind r = KObject" "json_ok l" "json_ok r"
  shows "json_same l r \<longleftrightarrow> (\<forall>n. side_same (map_of (members l) n) (map_of (members r) n))"
proof -
  obtain ms ns where lr: "l = JsObject ms" "r = JsObject ns" using assms(1,2) by (cases l; cases r) auto
  have d: "distinct (map fst ms)" using assms(3) lr by auto
  show ?thesis
  proof
    assume same: "json_same l r"
    have "side_same (map_of ms n) (map_of ns n)" for n
    proof (cases "map_of ms n")
      case None
      then have "n \<notin> fst ` set ns" using same lr by (auto simp: map_of_eq_None_iff)
      then have "map_of ns n = None" by (simp add: map_of_eq_None_iff)
      with None show ?thesis by simp
    next
      case (Some v)
      have all: "\<forall>m \<in> set ms. case map_of ns (fst m) of None \<Rightarrow> False | Some w \<Rightarrow> json_same (snd m) w"
        using same lr by (simp add: list_all_iff)
      have "case map_of ns n of None \<Rightarrow> False | Some w \<Rightarrow> json_same v w"
        using bspec [OF all map_of_SomeD [OF Some]] unfolding fst_conv snd_conv .
      with Some show ?thesis by (auto split: option.splits)
    qed
    with lr show "\<forall>n. side_same (map_of (members l) n) (map_of (members r) n)" by simp
  next
    assume all: "\<forall>n. side_same (map_of (members l) n) (map_of (members r) n)"
    have "map_of ms n = None \<longleftrightarrow> map_of ns n = None" for n
      using all [rule_format, of n] lr by (cases "map_of ms n"; cases "map_of ns n") auto
    then have "fst ` set ms = fst ` set ns" by (auto simp: map_of_eq_None_iff)
    moreover have "case map_of ns (fst m) of None \<Rightarrow> False | Some w \<Rightarrow> json_same (snd m) w" if m: "m \<in> set ms" for m
      using map_of_is_SomeI [OF d, of "fst m" "snd m"] m all [rule_format, of "fst m"] lr by (cases "map_of ns (fst m)") auto
    ultimately show "json_same l r" using lr by (simp add: list_all_iff)
  qed
qed

text \<open>When the walk descends, and the tokens it descends by.\<close>

definition descends :: "token list \<Rightarrow> json \<Rightarrow> json \<Rightarrow> bool" where
  "descends tokens l r \<longleftrightarrow> jsonKind l = jsonKind r \<and> jsonKind l \<noteq> KPrimitive \<and> length tokens < SHADOW_MISMATCH_MAX_DEPTH \<and>
     length (items l) = length (items r)"

definition child_tokens :: "json \<Rightarrow> json \<Rightarrow> token list" where
  "child_tokens l r =
     (if jsonKind l = KArray then map Index [0..<length (items l)] else map Name (member_names (members l) (members r)))"

definition child_differences :: "token list \<Rightarrow> json \<Rightarrow> json \<Rightarrow> token \<Rightarrow> difference list" where
  "child_differences tokens l r t =
     (case (child t l, child t r) of
        (Some a, Some b) \<Rightarrow> differences (tokens @ [t]) a b
      | (a, b) \<Rightarrow> [\<lparr>df_tokens = tokens @ [t], df_cached = a, df_source = b\<rparr>])"

lemma set_member_names: "set (member_names ms ns) = fst ` set ms \<union> fst ` set ns"
  by (auto simp: member_names_def map_of_eq_None_iff)

lemma distinct_member_names: "distinct (map fst ms) \<Longrightarrow> distinct (map fst ns) \<Longrightarrow> distinct (member_names ms ns)"
  by (auto simp: member_names_def map_of_eq_None_iff)

lemma distinct_child_tokens: "json_ok l \<Longrightarrow> json_ok r \<Longrightarrow> distinct (child_tokens l r)"
  by (auto simp: child_tokens_def distinct_map inj_on_def intro: distinct_member_names json_ok_distinct)

lemma not_kind_empty: "jsonKind j \<noteq> KArray \<Longrightarrow> items j = []" "jsonKind j \<noteq> KObject \<Longrightarrow> members j = []"
  by (cases j; simp)+

lemma child_tokens_iff:
  assumes "descends tokens l r"
  shows "t \<in> set (child_tokens l r) \<longleftrightarrow> child t l \<noteq> None \<or> child t r \<noteq> None"
proof (cases "jsonKind l = KArray")
  case True
  with assms have "members l = []" "members r = []" "length (items l) = length (items r)"
    by (auto simp: descends_def intro: not_kind_empty)
  with True show ?thesis by (cases t) (auto simp: child_tokens_def)
next
  case False
  with assms have "items l = []" "items r = []" by (auto simp: descends_def intro: not_kind_empty)
  with False show ?thesis by (cases t) (auto simp: child_tokens_def set_member_names map_of_eq_None_iff)
qed

lemma enumerate_children:
  "length xs = length ys \<Longrightarrow> concat (map (\<lambda>p. f (fst p) (fst (snd p)) (snd (snd p))) (enumerate 0 (zip xs ys))) =
   concat (map (\<lambda>i. f i (xs ! i) (ys ! i)) [0..<length xs])"
  by (intro arg_cong [of _ _ concat] nth_equalityI) (auto simp: enumerate_eq_zip)

lemma differences_eq:
  assumes ok: "json_ok l" "json_ok r"
  shows "differences tokens l r =
    (if descends tokens l r then concat (map (child_differences tokens l r) (child_tokens l r))
     else if json_same l r then [] else [\<lparr>df_tokens = tokens, df_cached = Some l, df_source = Some r\<rparr>])"
proof (cases "descends tokens l r")
  case True
  then have d: "jsonKind l = jsonKind r" "jsonKind l \<noteq> KPrimitive" "\<not> SHADOW_MISMATCH_MAX_DEPTH \<le> length tokens" "length (items l) = length (items r)"
    by (auto simp: descends_def)
  show ?thesis
  proof (cases "jsonKind l = KArray")
    case arr: True
    have "concat (map (child_differences tokens l r) (child_tokens l r)) =
        concat (map (\<lambda>i. differences (tokens @ [Index i]) (items l ! i) (items r ! i)) [0..<length (items l)])"
      using d(4) arr by (intro arg_cong [of _ _ concat]) (auto simp: child_tokens_def child_differences_def)
    then show ?thesis using True d arr
      by (subst differences.simps) (simp add: Let_def enumerate_children [of _ _ "\<lambda>i. differences (tokens @ [Index i])"])
  next
    case obj: False
    have "child_differences tokens l r (Name n) =
        (case map_of (members r) n of
           None \<Rightarrow> [\<lparr>df_tokens = tokens @ [Name n], df_cached = map_of (members l) n, df_source = None\<rparr>]
         | Some b \<Rightarrow> (case map_of (members l) n of
               None \<Rightarrow> [\<lparr>df_tokens = tokens @ [Name n], df_cached = None, df_source = Some b\<rparr>]
             | Some a \<Rightarrow> differences (tokens @ [Name n]) a b))" for n
      by (auto simp: child_differences_def split: option.split)
    then show ?thesis using True d obj
      by (subst differences.simps) (simp add: Let_def child_tokens_def comp_def)
  qed
next
  case False
  have eq: "jsonValuesEqual l r = json_same l r" using equal_loop_exact [of "[(l, r)]"] ok by (simp add: jsonValuesEqual_def)
  consider "jsonKind l \<noteq> jsonKind r" | "jsonKind l = KPrimitive"
    | "jsonKind l = jsonKind r" "jsonKind l \<noteq> KPrimitive" "SHADOW_MISMATCH_MAX_DEPTH \<le> length tokens"
    | "jsonKind l = KArray" "jsonKind r = KArray" "\<not> SHADOW_MISMATCH_MAX_DEPTH \<le> length tokens" "length (items l) \<noteq> length (items r)"
    using False not_kind_empty [of l] not_kind_empty [of r]
    by (cases "jsonKind l"; cases "jsonKind r") (auto simp: descends_def)
  then show ?thesis
  proof cases
    case 1
    then have "l \<noteq> r" by auto
    with 1 False show ?thesis by (subst differences.simps) (simp add: json_same_kind)
  next
    case 2
    with False show ?thesis by (subst differences.simps) (simp add: json_same_primitive)
  next
    case 3
    with False show ?thesis by (subst differences.simps) (simp add: eq)
  next
    case 4
    with False show ?thesis by (subst differences.simps) (simp add: json_same_array)
  qed
qed

text \<open>Induction along the walk.\<close>

lemma walk_induct [consumes 2, case_names step]:
  assumes "json_ok l" "json_ok r"
    and "\<And>tokens l r. json_ok l \<Longrightarrow> json_ok r \<Longrightarrow>
      (\<And>t a b. child t l = Some a \<Longrightarrow> child t r = Some b \<Longrightarrow> P (tokens @ [t]) a b) \<Longrightarrow> P tokens l r"
  shows "P tokens l r"
  using assms(1,2)
proof (induction "size l" arbitrary: tokens l r rule: less_induct)
  case less
  show ?case by (rule assms(3)) (use less child_size child_ok in blast)+
qed

lemma differences_sound:
  assumes "json_ok l" "json_ok r" "d \<in> set (differences tokens l r)"
  shows "\<exists>ts. df_tokens d = tokens @ ts \<and> lookup ts l = df_cached d \<and> lookup ts r = df_source d \<and>
    \<not> side_same (df_cached d) (df_source d) \<and> length ts \<le> SHADOW_MISMATCH_MAX_DEPTH - length tokens"
  using assms
proof (induction tokens l r rule: walk_induct)
  case (step tokens l r)
  show ?case
  proof (cases "descends tokens l r")
    case False
    with step show ?thesis by (auto simp: differences_eq split: if_splits intro: exI [of _ "[]"])
  next
    case True
    with step.prems obtain t where t: "t \<in> set (child_tokens l r)" "d \<in> set (child_differences tokens l r t)"
      using step.hyps by (auto simp: differences_eq)
    have depth: "length tokens < SHADOW_MISMATCH_MAX_DEPTH" using True by (simp add: descends_def)
    show ?thesis
    proof (cases "child t l \<noteq> None \<and> child t r \<noteq> None")
      case True
      then obtain a b where ab: "child t l = Some a" "child t r = Some b" by blast
      with t have "d \<in> set (differences (tokens @ [t]) a b)" by (simp add: child_differences_def)
      from step.IH [OF ab this] obtain ts where "df_tokens d = (tokens @ [t]) @ ts" "lookup ts a = df_cached d" "lookup ts b = df_source d"
        "\<not> side_same (df_cached d) (df_source d)" "length ts \<le> SHADOW_MISMATCH_MAX_DEPTH - length (tokens @ [t])" by blast
      with ab depth show ?thesis by (intro exI [of _ "t # ts"]) auto
    next
      case False
      then have d: "d = \<lparr>df_tokens = tokens @ [t], df_cached = child t l, df_source = child t r\<rparr>"
        using t(2) by (auto simp: child_differences_def split: option.splits)
      have "\<not> side_same (child t l) (child t r)"
        using False t(1) child_tokens_iff [OF \<open>descends tokens l r\<close>] by (cases "child t l"; cases "child t r") auto
      with d depth show ?thesis by (intro exI [of _ "[t]"]) (auto split: option.split)
    qed
  qed
qed

lemma descends_same:
  assumes "descends tokens l r" "json_ok l" "json_ok r"
  shows "json_same l r \<longleftrightarrow> (\<forall>t. side_same (child t l) (child t r))"
proof (cases "jsonKind l = KArray")
  case True
  with assms(1) have m: "members l = []" "members r = []" and k: "jsonKind r = KArray" and len: "length (items l) = length (items r)"
    by (auto simp: descends_def intro: not_kind_empty)
  have "json_same l r \<longleftrightarrow> (\<forall>i < length (items l). json_same (items l ! i) (items r ! i))"
    using json_same_array [OF True k] len by (auto simp: all_same_def list_all_iff set_zip)
  also have "\<dots> \<longleftrightarrow> (\<forall>t. side_same (child t l) (child t r))"
  proof (intro iffI allI impI)
    fix t assume "\<forall>i < length (items l). json_same (items l ! i) (items r ! i)"
    with m len show "side_same (child t l) (child t r)" by (cases t) auto
  next
    fix i assume "\<forall>t. side_same (child t l) (child t r)" "i < length (items l)"
    with len show "json_same (items l ! i) (items r ! i)" by (auto dest: spec [of _ "Index i"])
  qed
  finally show ?thesis .
next
  case False
  with assms(1) have i: "items l = []" "items r = []" and k: "jsonKind l = KObject" "jsonKind r = KObject"
    by (cases "jsonKind l"; auto simp: descends_def intro: not_kind_empty)+
  show ?thesis unfolding json_same_members [OF k assms(2,3)]
  proof (intro iffI allI)
    fix t assume "\<forall>n. side_same (map_of (members l) n) (map_of (members r) n)"
    with i show "side_same (child t l) (child t r)" by (cases t) auto
  next
    fix n assume "\<forall>t. side_same (child t l) (child t r)"
    from spec [OF this, of "Name n"] show "side_same (map_of (members l) n) (map_of (members r) n)" by simp
  qed
qed

lemma same_children:
  assumes "json_same l r" "json_ok l" "json_ok r"
  shows "side_same (child t l) (child t r)"
proof -
  have k: "jsonKind l = jsonKind r" using assms(1) json_same_kind by blast
  show ?thesis
  proof (cases "jsonKind l = KPrimitive")
    case True
    with k show ?thesis by (simp add: child_primitive)
  next
    case False
    moreover have "length (items l) = length (items r)"
      using assms(1) k json_same_array [of l r] not_kind_empty [of l] not_kind_empty [of r] by (cases "jsonKind l = KArray") auto
    ultimately have "descends [] l r" using k by (simp add: descends_def SHADOW_MISMATCH_MAX_DEPTH_def)
    then show ?thesis using descends_same assms by blast
  qed
qed

lemma same_lookup:
  assumes "json_same l r" "json_ok l" "json_ok r"
  shows "side_same (lookup ts l) (lookup ts r)"
  using assms
proof (induction ts arbitrary: l r)
  case (Cons t ts)
  have "side_same (child t l) (child t r)" by (rule same_children) (use Cons.prems in auto)
  then consider "child t l = None" "child t r = None" | a b where "child t l = Some a" "child t r = Some b" "json_same a b"
    by (cases "child t l"; cases "child t r") auto
  then show ?case
  proof cases
    case 2
    with Cons show ?thesis using child_ok by auto
  qed auto
qed simp

lemma differences_complete:
  assumes "json_ok l" "json_ok r" "\<not> side_same (lookup ts l) (lookup ts r)"
  shows "\<exists>d \<in> set (differences tokens l r). prefix (df_tokens d) (tokens @ ts) \<or> prefix (tokens @ ts) (df_tokens d)"
  using assms
proof (induction tokens l r arbitrary: ts rule: walk_induct)
  case (step tokens l r)
  have diff: "\<not> json_same l r" using same_lookup step.prems step.hyps by blast
  show ?case
  proof (cases "descends tokens l r")
    case False
    with diff step.hyps show ?thesis by (simp add: differences_eq)
  next
    case True
    obtain t ts' where t: "\<not> side_same (child t l) (child t r)" "ts = [] \<or> ts = t # ts'"
    proof (cases ts)
      case Nil
      with diff descends_same [OF True] step.hyps that show ?thesis by blast
    next
      case (Cons t ts')
      have "\<not> side_same (child t l) (child t r)"
      proof
        assume "side_same (child t l) (child t r)"
        then consider "child t l = None" "child t r = None" | a b where "child t l = Some a" "child t r = Some b" "json_same a b"
          by (cases "child t l"; cases "child t r") auto
        then show False
        proof cases
          case 1
          with step.prems Cons show ?thesis by simp
        next
          case (2 a b)
          then have "side_same (lookup ts' a) (lookup ts' b)" using same_lookup child_ok step.hyps by blast
          with 2 step.prems Cons show ?thesis by simp
        qed
      qed
      with Cons that show ?thesis by blast
    qed
    have "child t l \<noteq> None \<or> child t r \<noteq> None" using t(1) by (cases "child t l"; cases "child t r") auto
    then have "t \<in> set (child_tokens l r)" using child_tokens_iff [OF True] by blast
    then have sub: "set (child_differences tokens l r t) \<subseteq> set (differences tokens l r)"
      using True step.hyps by (auto simp: differences_eq)
    have "\<exists>d \<in> set (child_differences tokens l r t). prefix (df_tokens d) (tokens @ ts) \<or> prefix (tokens @ ts) (df_tokens d)"
    proof (cases "child t l \<noteq> None \<and> child t r \<noteq> None")
      case True
      then obtain a b where ab: "child t l = Some a" "child t r = Some b" by blast
      have ok: "json_ok a" "json_ok b" using ab child_ok step.hyps by blast+
      define us where "us = (if ts = [] then [] else ts')"
      have "\<not> side_same (lookup us a) (lookup us b)" using t ab step.prems by (auto simp: us_def)
      from step.IH [OF ab this] obtain d where d: "d \<in> set (differences (tokens @ [t]) a b)"
        and p: "prefix (df_tokens d) ((tokens @ [t]) @ us) \<or> prefix ((tokens @ [t]) @ us) (df_tokens d)" by blast
      from differences_sound [OF ok d] obtain vs where "df_tokens d = tokens @ t # vs" by auto
      with p t(2) have "prefix (df_tokens d) (tokens @ ts) \<or> prefix (tokens @ ts) (df_tokens d)" by (auto simp: us_def)
      with d ab show ?thesis by (auto simp: child_differences_def)
    next
      case False
      then have "child_differences tokens l r t = [\<lparr>df_tokens = tokens @ [t], df_cached = child t l, df_source = child t r\<rparr>]"
        by (auto simp: child_differences_def split: option.splits)
      with t(2) show ?thesis by (auto simp: prefix_def)
    qed
    with sub show ?thesis by blast
  qed
qed

lemma differences_distinct:
  assumes "json_ok l" "json_ok r"
  shows "distinct (map df_tokens (differences tokens l r))"
  using assms
proof (induction tokens l r rule: walk_induct)
  case (step tokens l r)
  show ?case
  proof (cases "descends tokens l r")
    case True
    have below: "\<exists>ts. df_tokens d = tokens @ t # ts" if "d \<in> set (child_differences tokens l r t)" for d t
    proof (cases "child t l \<noteq> None \<and> child t r \<noteq> None")
      case True
      then obtain a b where ab: "child t l = Some a" "child t r = Some b" by blast
      with that have "d \<in> set (differences (tokens @ [t]) a b)" by (simp add: child_differences_def)
      from differences_sound [OF _ _ this] ab child_ok step.hyps show ?thesis by fastforce
    qed (use that in \<open>auto simp: child_differences_def split: option.splits\<close>)
    have "distinct (map df_tokens (child_differences tokens l r t))" for t
      using step.IH by (auto simp: child_differences_def split: option.split)
    moreover have disj: "df_tokens d \<noteq> df_tokens e"
      if "t \<noteq> u" "d \<in> set (child_differences tokens l r t)" "e \<in> set (child_differences tokens l r u)" for t u d e
      using below [OF that(2)] below [OF that(3)] that(1) by auto
    ultimately have "distinct (concat (map (map df_tokens) (map (child_differences tokens l r) ts)))" if "distinct ts" for ts
      using that by (induction ts) (auto, metis disj)
    then show ?thesis using True step.hyps distinct_child_tokens [of l r] by (simp add: differences_eq map_concat)
  qed (use step.hyps in \<open>simp add: differences_eq\<close>)
qed


definition sample_cached :: json where
  "sample_cached = JsObject [(js ''a'', JsNumber 1), (js ''b'', JsArray [JsNumber 2, JsNull])]"

definition sample_source :: json where
  "sample_source = JsObject [(js ''b'', JsArray [JsNumber 3, JsNull]), (js ''a'', JsNumber 1)]"


end
