(* ===== verification/ShadowLog.thy ===== *)
theory ShadowLog
  imports ShadowJson RuntimeConfig
begin

section \<open>Bounded content of a mismatch warning\<close>

text \<open>
  \<^verbatim>\<open>internal/shadow-log-json.ts\<close>, everything but the walk: byte clamps, pointers, the hook, and the rendering of the
  requested fields. \<^verbatim>\<open>JSON.stringify\<close> of an application value runs its \<^verbatim>\<open>toJSON\<close>, so it is the parameter
  \<open>render\<close>: the JSON value the text denotes, or none when it throws or gives undefined. The text of a JSON value is
  \<open>json_text\<close>, where \<open>fmt\<close> is the number formatting of the language; \<^verbatim>\<open>JSON.parse\<close> of that text is the value.
\<close>

subsection \<open>Clamping to UTF-8 bytes\<close>

definition SHADOW_LOG_KEY_MAX_BYTES :: nat where
  "SHADOW_LOG_KEY_MAX_BYTES = 2 * 1024"

definition SHADOW_LOG_VALUE_MAX_BYTES :: nat where
  "SHADOW_LOG_VALUE_MAX_BYTES = 8 * 1024"

definition SHADOW_LOG_DIFF_MAX_BYTES :: nat where
  "SHADOW_LOG_DIFF_MAX_BYTES = 8 * 1024"

definition SHADOW_MISMATCH_PATH_MAX_BYTES :: nat where
  "SHADOW_MISMATCH_PATH_MAX_BYTES = 512"

definition SHADOW_MISMATCH_SIDE_MAX_BYTES :: nat where
  "SHADOW_MISMATCH_SIDE_MAX_BYTES = 1024"

definition SHADOW_LOG_TRUNCATION_MARKER :: jsstring where
  "SHADOW_LOG_TRUNCATION_MARKER = js ''...[truncated]''"

text \<open>\<^verbatim>\<open>TextEncoder.encodeInto\<close> on a buffer of \<open>cap\<close> bytes: the code units read and the bytes written. A code point that
  does not fit whole ends it.\<close>

fun encode_into :: "nat \<Rightarrow> nat list \<Rightarrow> nat \<times> bytes" where
  "encode_into cap [] = (0, [])"
| "encode_into cap (p # ps) =
     (let b = utf8_point (to_scalar p) in
      if length b \<le> cap
      then (let r = encode_into (cap - length b) ps in (length (utf16_point p) + fst r, b @ snd r))
      else (0, []))"

definition encodeInto :: "jsstring \<Rightarrow> nat \<Rightarrow> nat \<times> bytes" where
  "encodeInto v cap = encode_into cap (utf16_decode v)"

text \<open>A fatal \<^verbatim>\<open>TextDecoder\<close>: it throws on malformed bytes (those that are no encoding of what they decode to) and
  drops a leading byte order mark.\<close>

definition strip_bom :: "nat list \<Rightarrow> nat list" where
  "strip_bom ps = (case ps of [] \<Rightarrow> [] | p # qs \<Rightarrow> if p = 0xFEFF then qs else p # qs)"

definition textDecode :: "bytes \<Rightarrow> jsstring res" where
  "textDecode bs =
     (if concat (map utf8_point (utf8_decode bs)) \<noteq> bs then Inl (TypeError ''The encoded data was not valid for encoding utf-8'')
      else Inr (utf16_encode (strip_bom (utf8_decode bs))))"

definition clampUtf8 :: "jsstring \<Rightarrow> nat \<Rightarrow> jsstring res" where
  "clampUtf8 v maxBytes =
     (if fst (encodeInto v maxBytes) = length v then Inr v
      else
        let marker = utf8_encode SHADOW_LOG_TRUNCATION_MARKER;
            content = snd (encodeInto v (maxBytes - length marker))
        in textDecode (content @ marker))"

definition previewShadowLogKey :: "jsstring \<Rightarrow> jsstring res" where
  "previewShadowLogKey v = clampUtf8 v SHADOW_LOG_KEY_MAX_BYTES"

definition clampPointer :: "jsstring \<Rightarrow> jsstring res" where
  "clampPointer path = clampUtf8 path SHADOW_MISMATCH_PATH_MAX_BYTES"

subsection \<open>Pointers\<close>

text \<open>\<^verbatim>\<open>s.replaceAll(c, t)\<close> for a one-unit pattern.\<close>

definition replaceAll :: "16 word \<Rightarrow> jsstring \<Rightarrow> jsstring \<Rightarrow> jsstring" where
  "replaceAll c t s = concat (map (\<lambda>u. if u = c then t else [u]) s)"

definition escapePointerToken :: "jsstring \<Rightarrow> jsstring" where
  "escapePointerToken name = replaceAll 47 (js ''~1'') (replaceAll 126 (js ''~0'') name)"

fun token_text :: "(jsstring \<Rightarrow> jsstring) \<Rightarrow> token \<Rightarrow> jsstring" where
  "token_text shorten (Index i) = js ''/'' @ nat_digits i"
| "token_text shorten (Name n) = js ''/'' @ escapePointerToken (shorten n)"

fun kept_pointer :: "jsstring \<Rightarrow> token list \<Rightarrow> jsstring" where
  "kept_pointer path [] = path"
| "kept_pointer path (t # ts) =
     (if length path > SHADOW_MISMATCH_PATH_MAX_BYTES then path
      else kept_pointer (path @ token_text (take SHADOW_MISMATCH_PATH_MAX_BYTES) t) ts)"

definition keptPointer :: "token list \<Rightarrow> jsstring" where
  "keptPointer tokens = kept_pointer [] tokens"

text \<open>The pointer of RFC 6901, built whole.\<close>

definition pointer :: "token list \<Rightarrow> jsstring" where
  "pointer tokens = concat (map (token_text (\<lambda>n. n)) tokens)"

subsection \<open>What a clamp keeps\<close>

definition point_bytes :: "nat \<Rightarrow> nat" where
  "point_bytes p = length (utf8_point (to_scalar p))"

lemma point_bytes_ge: "length (utf16_point p) \<le> point_bytes p"
  by (auto simp: point_bytes_def utf16_point_def utf8_point_def to_scalar_def is_surrogate_def)

lemma point_units_pos: "0 < length (utf16_point p)"
  by (simp add: utf16_point_def)

lemma utf16_encode_simps [simp]:
  "utf16_encode [] = []" "utf16_encode (p # ps) = utf16_point p @ utf16_encode ps" "utf16_encode (ps @ qs) = utf16_encode ps @ utf16_encode qs"
  by (simp_all add: utf16_encode_def)

text \<open>\<open>encode_into\<close> writes the longest prefix of the code points that fits.\<close>

fun fitting :: "nat \<Rightarrow> nat list \<Rightarrow> nat list" where
  "fitting cap [] = []"
| "fitting cap (p # ps) = (if point_bytes p \<le> cap then p # fitting (cap - point_bytes p) ps else [])"

lemma encode_into_fitting:
  "encode_into cap ps = (length (utf16_encode (fitting cap ps)), concat (map (utf8_point \<circ> to_scalar) (fitting cap ps)))"
  by (induction cap ps rule: encode_into.induct) (simp_all add: Let_def point_bytes_def)

lemma fitting_bytes: "length (concat (map (utf8_point \<circ> to_scalar) (fitting cap ps))) \<le> cap"
  by (induction cap ps rule: fitting.induct) (auto simp: point_bytes_def)

lemma fitting_all: "sum_list (map point_bytes ps) \<le> cap \<Longrightarrow> fitting cap ps = ps"
  by (induction ps arbitrary: cap) auto

lemma fitting_prefix: "prefix (fitting cap ps) ps"
  by (induction cap ps rule: fitting.induct) auto

lemma fitting_append: "sum_list (map point_bytes ps) > cap \<Longrightarrow> fitting cap (ps @ qs) = fitting cap ps"
  by (induction ps arbitrary: cap) auto

lemma encode_bytes: "length (concat (map (utf8_point \<circ> to_scalar) ps)) = sum_list (map point_bytes ps)"
  by (induction ps) (simp_all add: point_bytes_def)

lemma byteLength_points: "byteLength v = sum_list (map point_bytes (utf16_decode v))"
  by (simp add: byteLength_def utf8_encode_def encode_bytes)

lemma utf16_encode_length_less:
  assumes "prefix ps qs" "length (utf16_encode ps) = length (utf16_encode qs)"
  shows "ps = qs"
proof -
  obtain rs where qs: "qs = ps @ rs" using assms(1) by (auto simp: prefix_def)
  with assms(2) have "utf16_encode rs = []" by simp
  then have "rs = []" using point_units_pos by (cases rs) auto
  with qs show ?thesis by simp
qed

lemma encodeInto_reads_all: "fst (encodeInto v cap) = length v \<longleftrightarrow> byteLength v \<le> cap"
proof
  assume "fst (encodeInto v cap) = length v"
  then have "length (utf16_encode (fitting cap (utf16_decode v))) = length (utf16_encode (utf16_decode v))"
    by (simp add: encodeInto_def encode_into_fitting)
  then have "fitting cap (utf16_decode v) = utf16_decode v" by (rule utf16_encode_length_less [OF fitting_prefix])
  then show "byteLength v \<le> cap" using fitting_bytes [of cap "utf16_decode v"] by (simp add: byteLength_points encode_bytes)
next
  assume "byteLength v \<le> cap"
  then have "fitting cap (utf16_decode v) = utf16_decode v" by (intro fitting_all) (simp add: byteLength_points)
  then show "fst (encodeInto v cap) = length v" by (simp add: encodeInto_def encode_into_fitting)
qed

lemma marker_facts:
  "length (utf8_encode SHADOW_LOG_TRUNCATION_MARKER) = 14" "map to_scalar (utf16_decode SHADOW_LOG_TRUNCATION_MARKER) = utf16_decode SHADOW_LOG_TRUNCATION_MARKER"
proof -
  have a: "list_all (\<lambda>u. unat u < 0x80) SHADOW_LOG_TRUNCATION_MARKER"
    by (simp add: SHADOW_LOG_TRUNCATION_MARKER_def js_def)
  then have d: "utf16_decode SHADOW_LOG_TRUNCATION_MARKER = map unat SHADOW_LOG_TRUNCATION_MARKER" by (rule utf16_decode_ascii)
  then show "map to_scalar (utf16_decode SHADOW_LOG_TRUNCATION_MARKER) = utf16_decode SHADOW_LOG_TRUNCATION_MARKER"
    using a by (auto simp: to_scalar_def is_surrogate_def list_all_iff intro!: map_idI)
  have "point_bytes (unat u) = 1" if "u \<in> set SHADOW_LOG_TRUNCATION_MARKER" for u
    using a that by (auto simp: list_all_iff point_bytes_def to_scalar_def is_surrogate_def utf8_point_def)
  then have "map point_bytes (map unat SHADOW_LOG_TRUNCATION_MARKER) = replicate (length SHADOW_LOG_TRUNCATION_MARKER) 1"
    by (auto intro!: nth_equalityI)
  then have "sum_list (map point_bytes (utf16_decode SHADOW_LOG_TRUNCATION_MARKER)) = length SHADOW_LOG_TRUNCATION_MARKER"
    unfolding d by (simp add: sum_list_replicate del: map_map)
  then show "length (utf8_encode SHADOW_LOG_TRUNCATION_MARKER) = 14"
    by (simp add: utf8_encode_def encode_bytes) (simp add: SHADOW_LOG_TRUNCATION_MARKER_def js_def)
qed

lemma utf16_decode_point: "is_scalar p \<Longrightarrow> utf16_decode (utf16_point p @ us) = p # utf16_decode us"
proof (cases "p < 0x10000")
  case True
  moreover assume "is_scalar p"
  ultimately have u: "utf16_point p = [unit_of p]" "unat (unit_of p) = p" "\<not> is_high (unit_of p)"
    by (auto simp: utf16_point_small unat_unit_of is_scalar_def is_surrogate_def is_high_def)
  then show ?thesis by (cases us) auto
next
  case False
  assume "is_scalar p"
  then have lt: "(p - 0x10000) div 0x400 < 0x400" using False by (auto simp: is_scalar_def)
  define h l where "h = 0xD800 + (p - 0x10000) div 0x400" and "l = 0xDC00 + (p - 0x10000) mod 0x400"
  have b: "0xD800 \<le> h" "h < 0xDC00" "0xDC00 \<le> l" "l < 0xE000" using lt by (simp_all add: h_def l_def)
  then have u: "unat (unit_of h) = h" "unat (unit_of l) = l" by (simp_all add: unat_unit_of)
  have p: "0x10000 + (h - 0xD800) * 0x400 + (l - 0xDC00) = p" using False by (simp add: h_def l_def)
  have "utf16_point p = [unit_of h, unit_of l]" using False by (simp add: utf16_point_def h_def l_def)
  moreover have "is_high (unit_of h)" "is_low (unit_of l)" using b u by (simp_all add: is_high_def is_low_def)
  ultimately show ?thesis using u p by simp
qed

lemma utf16_decode_encode: "list_all is_scalar ps \<Longrightarrow> utf16_decode (utf16_encode ps) = ps"
  by (induction ps) (simp_all add: utf16_decode_point)

lemma byteLength_encode: "list_all is_scalar ps \<Longrightarrow> byteLength (utf16_encode ps) = length (concat (map utf8_point ps))"
proof -
  assume ok: "list_all is_scalar ps"
  then have "map (utf8_point \<circ> to_scalar) ps = map utf8_point ps" by (auto simp: list_all_iff is_scalar_def to_scalar_def)
  then show ?thesis unfolding byteLength_def utf8_encode_def utf16_decode_encode [OF ok] by (rule arg_cong)
qed

text \<open>What a value that does not fit becomes: the longest prefix of code points that leaves room for the marker, lone
  surrogates replaced, a leading byte order mark dropped.\<close>

definition clamped_points :: "jsstring \<Rightarrow> nat \<Rightarrow> nat list" where
  "clamped_points v maxBytes =
     strip_bom (map to_scalar (fitting (maxBytes - 14) (utf16_decode v)) @ utf16_decode SHADOW_LOG_TRUNCATION_MARKER)"

lemma clamped_scalar: "list_all is_scalar (map to_scalar (fitting cap (utf16_decode v)) @ utf16_decode SHADOW_LOG_TRUNCATION_MARKER)"
proof -
  have "is_scalar (to_scalar p)" if "p \<in> set (utf16_decode u)" for p u
    using that by (intro to_scalar_is_scalar utf16_decode_bound)
  moreover have "set (fitting cap (utf16_decode v)) \<subseteq> set (utf16_decode v)" using fitting_prefix set_mono_prefix by blast
  ultimately have "list_all is_scalar (map to_scalar (fitting cap (utf16_decode v)) @ map to_scalar (utf16_decode SHADOW_LOG_TRUNCATION_MARKER))"
    by (auto simp: list_all_iff)
  then show ?thesis by (simp only: marker_facts)
qed

lemma clampUtf8_eq:
  assumes "14 \<le> maxBytes"
  shows "clampUtf8 v maxBytes = Inr (if byteLength v \<le> maxBytes then v else utf16_encode (clamped_points v maxBytes))"
proof (cases "byteLength v \<le> maxBytes")
  case False
  define ps where "ps = map to_scalar (fitting (maxBytes - 14) (utf16_decode v)) @ utf16_decode SHADOW_LOG_TRUNCATION_MARKER"
  have ok: "list_all is_scalar ps" unfolding ps_def by (rule clamped_scalar)
  have "utf8_encode SHADOW_LOG_TRUNCATION_MARKER = concat (map utf8_point (utf16_decode SHADOW_LOG_TRUNCATION_MARKER))"
    unfolding utf8_encode_def by (metis map_map marker_facts(2))
  then have bytes: "snd (encodeInto v (maxBytes - 14)) @ utf8_encode SHADOW_LOG_TRUNCATION_MARKER = concat (map utf8_point ps)"
    by (simp add: encodeInto_def encode_into_fitting ps_def)
  have "textDecode (concat (map utf8_point ps)) = Inr (utf16_encode (strip_bom ps))"
    by (simp add: textDecode_def utf8_decode_points [OF ok])
  with False show ?thesis
    by (simp add: clampUtf8_def encodeInto_reads_all Let_def marker_facts(1) bytes clamped_points_def ps_def [symmetric])
qed (simp add: clampUtf8_def encodeInto_reads_all)

lemma strip_bom_bytes: "length (concat (map utf8_point (strip_bom ps))) \<le> length (concat (map utf8_point ps))"
  by (auto simp: strip_bom_def split: list.split)

lemma clamped_bytes: "14 \<le> maxBytes \<Longrightarrow> byteLength (utf16_encode (clamped_points v maxBytes)) \<le> maxBytes"
proof -
  assume m: "14 \<le> maxBytes"
  define ps where "ps = map to_scalar (fitting (maxBytes - 14) (utf16_decode v)) @ utf16_decode SHADOW_LOG_TRUNCATION_MARKER"
  have ok: "list_all is_scalar ps" unfolding ps_def by (rule clamped_scalar)
  then have ok': "list_all is_scalar (strip_bom ps)" by (auto simp: strip_bom_def split: list.split)
  have marker: "utf8_encode SHADOW_LOG_TRUNCATION_MARKER = concat (map utf8_point (utf16_decode SHADOW_LOG_TRUNCATION_MARKER))"
    unfolding utf8_encode_def by (metis map_map marker_facts(2))
  have "length (concat (map utf8_point ps)) \<le> (maxBytes - 14) + 14"
    using fitting_bytes [of "maxBytes - 14" "utf16_decode v"] marker_facts(1) unfolding marker ps_def by (simp add: comp_def)
  with m strip_bom_bytes [of ps] show ?thesis
    by (simp add: clamped_points_def ps_def [symmetric] byteLength_encode [OF ok'])
qed

text \<open>
  A clamp never throws and never exceeds its byte bound: text that fits is unchanged, and longer text becomes the
  longest prefix of its code points that leaves room for the marker (lone surrogates replaced, a leading byte order
  mark dropped), followed by the marker.
\<close>

theorem clampUtf8_bounded:
  assumes "14 \<le> maxBytes"
  shows "\<exists>t. clampUtf8 v maxBytes = Inr t \<and> byteLength t \<le> maxBytes \<and> (byteLength v \<le> maxBytes \<longrightarrow> t = v) \<and>
    (byteLength v > maxBytes \<longrightarrow>
       (\<exists>k. t = utf16_encode (strip_bom (map to_scalar (take k (utf16_decode v)))) @ SHADOW_LOG_TRUNCATION_MARKER))"
proof -
  obtain k where k: "fitting (maxBytes - 14) (utf16_decode v) = take k (utf16_decode v)"
    using fitting_prefix prefix_def by (metis append_eq_conv_conj)
  have bom: "strip_bom (ps @ utf16_decode SHADOW_LOG_TRUNCATION_MARKER) = strip_bom ps @ utf16_decode SHADOW_LOG_TRUNCATION_MARKER" for ps
    by (cases ps) (simp_all add: strip_bom_def SHADOW_LOG_TRUNCATION_MARKER_def js_def is_high_def)
  have e: "utf16_encode (clamped_points v maxBytes) = utf16_encode (strip_bom (map to_scalar (take k (utf16_decode v)))) @ SHADOW_LOG_TRUNCATION_MARKER"
    by (simp add: clamped_points_def k bom)
  show ?thesis
    using clampUtf8_eq [OF assms, of v, unfolded e] clamped_bytes [OF assms, of v, unfolded e] by (cases "byteLength v \<le> maxBytes") auto
qed

theorem clampUtf8_bounded_witness:
  "14 \<le> (16::nat) \<and> byteLength (js ''abcdefghijklmnopq'') > 16 \<and>
   (\<exists>t. clampUtf8 (js ''abcdefghijklmnopq'') 16 = Inr t \<and> byteLength t \<le> 16)"
  using clampUtf8_bounded [of 16 "js ''abcdefghijklmnopq''"]
  by (auto simp: byteLength_def utf8_encode_def js_def is_high_def utf8_point_def to_scalar_def is_surrogate_def)

subsection \<open>A pointer stops growing where the clamp no longer reads\<close>

lemma replaceAll_append: "replaceAll c t (a @ b) = replaceAll c t a @ replaceAll c t b"
  by (simp add: replaceAll_def)

lemma escapePointerToken_append: "escapePointerToken (a @ b) = escapePointerToken a @ escapePointerToken b"
  by (simp add: escapePointerToken_def replaceAll_append)

lemma replaceAll_length: "t \<noteq> [] \<Longrightarrow> length s \<le> length (replaceAll c t s)"
proof (induction s)
  case (Cons u s)
  then have "1 \<le> length (if u = c then t else [u])" by (cases t) auto
  with Cons show ?case by (simp add: replaceAll_def)
qed simp

lemma escapePointerToken_length: "length s \<le> length (escapePointerToken s)"
  unfolding escapePointerToken_def
  by (rule order_trans [OF replaceAll_length replaceAll_length]) (simp_all add: js_def)

lemma kept_token:
  "let full = token_text (\<lambda>n. n) t; kept = token_text (take SHADOW_MISMATCH_PATH_MAX_BYTES) t in
   kept = full \<or> prefix kept full \<and> SHADOW_MISMATCH_PATH_MAX_BYTES < length kept"
proof (cases t)
  case (Name n)
  show ?thesis
  proof (cases "length n \<le> SHADOW_MISMATCH_PATH_MAX_BYTES")
    case False
    let ?a = "take SHADOW_MISMATCH_PATH_MAX_BYTES n" and ?b = "drop SHADOW_MISMATCH_PATH_MAX_BYTES n"
    have "escapePointerToken n = escapePointerToken ?a @ escapePointerToken ?b"
      by (simp flip: escapePointerToken_append)
    moreover have "SHADOW_MISMATCH_PATH_MAX_BYTES \<le> length (escapePointerToken ?a)"
      using escapePointerToken_length [of ?a] False by simp
    ultimately show ?thesis using Name by (simp add: js_def)
  qed (use Name in simp)
qed simp

lemma kept_pointer_prefix:
  "let full = path @ pointer ts; kept = kept_pointer path ts in
   kept = full \<or> prefix kept full \<and> SHADOW_MISMATCH_PATH_MAX_BYTES < length kept"
proof (induction ts arbitrary: path)
  case Nil
  then show ?case by (simp add: pointer_def)
next
  case (Cons t ts)
  let ?full = "token_text (\<lambda>n. n) t" and ?kept = "token_text (take SHADOW_MISMATCH_PATH_MAX_BYTES) t"
  show ?case
  proof (cases "length path > SHADOW_MISMATCH_PATH_MAX_BYTES")
    case False
    consider "?kept = ?full" | "prefix ?kept ?full" "SHADOW_MISMATCH_PATH_MAX_BYTES < length ?kept"
      using kept_token [of t] by (auto simp: Let_def)
    then show ?thesis
    proof cases
      case 1
      with False Cons.IH [of "path @ ?full"] show ?thesis by (simp add: pointer_def)
    next
      case 2
      then have "kept_pointer (path @ ?kept) ts = path @ ?kept" by (cases ts) auto
      moreover have "prefix ?kept (?full @ pointer ts)" using 2(1) by (rule prefix_prefix)
      ultimately show ?thesis using False 2 by (simp add: pointer_def)
    qed
  qed (simp add: pointer_def)
qed

text \<open>Two texts that agree beyond the bound are clamped to the same text.\<close>

lemma utf16_decode_common:
  "\<exists>ps q1 q2. utf16_decode a = ps @ q1 \<and> utf16_decode (a @ b) = ps @ q2 \<and> length a \<le> Suc (length (utf16_encode ps))"
proof (induction a rule: utf16_decode.induct)
  case 1
  show ?case by (rule exI [of _ "[]"]) simp
next
  case (2 u)
  show ?case by (rule exI [of _ "[]"]) simp
next
  case (3 u v us)
  have enc: "length (utf16_encode [unat w]) = 1" for w :: "16 word" using unat_lt_16 [of w] by (simp add: utf16_point_def)
  show ?case
  proof (cases "is_high u \<and> is_low v")
    case True
    let ?p = "0x10000 + (unat u - 0xD800) * 0x400 + (unat v - 0xDC00)"
    from "3.IH"(1) [OF True] obtain ps q1 q2 where "utf16_decode us = ps @ q1" "utf16_decode (us @ b) = ps @ q2"
      "length us \<le> Suc (length (utf16_encode ps))" by blast
    with True utf16_point_pair [of u v] show ?thesis by (intro exI [of _ "?p # ps"] exI [of _ q1] exI [of _ q2]) simp
  next
    case False
    from "3.IH"(2) [OF False] obtain ps q1 q2 where "utf16_decode (v # us) = ps @ q1" "utf16_decode ((v # us) @ b) = ps @ q2"
      "length (v # us) \<le> Suc (length (utf16_encode ps))" by blast
    with False enc [of u] show ?thesis by (intro exI [of _ "unat u # ps"] exI [of _ q1] exI [of _ q2]) auto
  qed
qed

lemma points_bytes_ge: "length (utf16_encode ps) \<le> sum_list (map point_bytes ps)"
  by (induction ps) (simp_all add: add_mono point_bytes_ge)

lemma byteLength_ge: "length v \<le> byteLength v"
  using points_bytes_ge [of "utf16_decode v"] by (simp add: byteLength_points)

lemma clampUtf8_prefix:
  assumes "prefix a c" "maxBytes < length a" "14 \<le> maxBytes"
  shows "clampUtf8 a maxBytes = clampUtf8 c maxBytes"
proof -
  obtain b where c: "c = a @ b" using assms(1) by (auto simp: prefix_def)
  have long: "\<not> byteLength a \<le> maxBytes" "\<not> byteLength c \<le> maxBytes"
    using byteLength_ge [of a] byteLength_ge [of c] assms(2) c by auto
  obtain ps q1 q2 where d: "utf16_decode a = ps @ q1" "utf16_decode c = ps @ q2" "length a \<le> Suc (length (utf16_encode ps))"
    using utf16_decode_common [of a b] c by blast
  then have "maxBytes - 14 < sum_list (map point_bytes ps)" using points_bytes_ge [of ps] assms(2,3) by linarith
  then have "clamped_points a maxBytes = clamped_points c maxBytes" by (simp add: clamped_points_def d fitting_append)
  with long show ?thesis by (simp add: clampUtf8_eq [OF assms(3)])
qed

text \<open>
  C37. The pointer a kept entry materializes, which stops growing past the clamp and cuts member names before
  escaping them, is clamped to exactly what the whole RFC 6901 pointer would be.
\<close>

theorem keptPointer_clamps_alike: "clampPointer (keptPointer tokens) = clampPointer (pointer tokens)"
proof -
  consider "keptPointer tokens = pointer tokens"
    | "prefix (keptPointer tokens) (pointer tokens)" "SHADOW_MISMATCH_PATH_MAX_BYTES < length (keptPointer tokens)"
    using kept_pointer_prefix [of "[]" tokens] by (auto simp: keptPointer_def Let_def)
  then show ?thesis
  proof cases
    case 2
    then show ?thesis unfolding clampPointer_def
      by (intro clampUtf8_prefix) (simp_all add: SHADOW_MISMATCH_PATH_MAX_BYTES_def)
  qed simp
qed

subsection \<open>Rendering the fields\<close>

text \<open>\<^verbatim>\<open>JSON.stringify\<close> of a JSON value: quotation of strings (well-formed: a lone surrogate is escaped) and the rest.\<close>

definition hex_unit :: "nat \<Rightarrow> 16 word" where
  "hex_unit d = unit_of (if d < 10 then 48 + d else 87 + d)"

definition unicode_escape :: "16 word \<Rightarrow> jsstring" where
  "unicode_escape u = [92, 117] @ map (\<lambda>k. hex_unit (unat u div 16 ^ k mod 16)) [3, 2, 1, 0]"

definition quote_point :: "nat \<Rightarrow> jsstring" where
  "quote_point p =
     (if p = 8 then [92, 98] else if p = 9 then [92, 116] else if p = 10 then [92, 110]
      else if p = 12 then [92, 102] else if p = 13 then [92, 114] else if p = 34 then [92, 34]
      else if p = 92 then [92, 92]
      else if p < 32 \<or> is_surrogate p then unicode_escape (unit_of p)
      else utf16_point p)"

definition quote :: "jsstring \<Rightarrow> jsstring" where
  "quote s = [34] @ concat (map quote_point (utf16_decode s)) @ [34]"

fun json_text :: "(rat \<Rightarrow> jsstring) \<Rightarrow> json \<Rightarrow> jsstring" where
  "json_text fmt JsNull = js ''null''"
| "json_text fmt (JsBool b) = (if b then js ''true'' else js ''false'')"
| "json_text fmt (JsNumber q) = fmt q"
| "json_text fmt (JsString s) = quote s"
| "json_text fmt (JsArray xs) = js ''['' @ join (js '','') (map (json_text fmt) xs) @ js '']''"
| "json_text fmt (JsObject ms) =
     js ''{'' @ join (js '','') (map (\<lambda>m. quote (fst m) @ js '':'' @ json_text fmt (snd m)) ms) @ js ''}''"

text \<open>A side of an entry: a JSON value of the walk or an application value of the hook.\<close>

datatype 'v side = JsonSide json | AppSide 'v

fun renderJson :: "('v \<Rightarrow> json option) \<Rightarrow> 'v side \<Rightarrow> json option" where
  "renderJson render (JsonSide j) = Some j"
| "renderJson render (AppSide v) = render v"

record 'v raw_entry =
  en_path :: jsstring
  en_cached :: "'v side option"
  en_source :: "'v side option"

record 'v raw_diff =
  rd_entries :: "'v raw_entry list"
  rd_count :: nat

definition bound_side :: "(rat \<Rightarrow> jsstring) \<Rightarrow> ('v \<Rightarrow> json option) \<Rightarrow> string \<Rightarrow> 'v side option \<Rightarrow> (jsstring \<times> json) list option res" where
  "bound_side fmt render name side =
     (case side of None \<Rightarrow> Inr (Some [])
      | Some s \<Rightarrow>
          (case renderJson render s of None \<Rightarrow> Inr None
           | Some j \<Rightarrow>
               res_bind (clampUtf8 (json_text fmt j) SHADOW_MISMATCH_SIDE_MAX_BYTES) (\<lambda>clamped.
               Inr (Some [(js name, if clamped = json_text fmt j then j else JsString clamped)]))))"

definition boundEntry :: "(rat \<Rightarrow> jsstring) \<Rightarrow> ('v \<Rightarrow> json option) \<Rightarrow> 'v raw_entry \<Rightarrow> json option res" where
  "boundEntry fmt render e =
     res_bind (clampPointer (en_path e)) (\<lambda>path.
     res_bind (bound_side fmt render ''cached'' (en_cached e)) (\<lambda>c. case c of None \<Rightarrow> Inr None | Some c \<Rightarrow>
     res_bind (bound_side fmt render ''source'' (en_source e)) (\<lambda>s. case s of None \<Rightarrow> Inr None | Some s \<Rightarrow>
     Inr (Some (JsObject ((js ''path'', JsString path) # c @ s))))))"

fun bound_entries :: "(rat \<Rightarrow> jsstring) \<Rightarrow> ('v \<Rightarrow> json option) \<Rightarrow> 'v raw_entry list \<Rightarrow> json list option res" where
  "bound_entries fmt render [] = Inr (Some [])"
| "bound_entries fmt render (e # es) =
     res_bind (boundEntry fmt render e) (\<lambda>next. case next of None \<Rightarrow> Inr None
     | Some j \<Rightarrow> res_bind (bound_entries fmt render es) (\<lambda>rest. Inr (map_option (Cons j) rest)))"

definition renderDiffJson :: "(rat \<Rightarrow> jsstring) \<Rightarrow> ('v \<Rightarrow> json option) \<Rightarrow> 'v raw_entry list \<Rightarrow> jsstring option res" where
  "renderDiffJson fmt render entries =
     res_bind (bound_entries fmt render entries) (\<lambda>bounded. case bounded of None \<Rightarrow> Inr None
     | Some bs \<Rightarrow> res_bind (clampUtf8 (json_text fmt (JsArray bs)) SHADOW_LOG_DIFF_MAX_BYTES) (\<lambda>t. Inr (Some t)))"

text \<open>\<open>diffShadowMismatchJson\<close>, the built-in computation on its own.\<close>

definition walk_entry :: "difference \<Rightarrow> 'v raw_entry" where
  "walk_entry d = \<lparr>en_path = keptPointer (df_tokens d), en_cached = map_option JsonSide (df_cached d),
                   en_source = map_option JsonSide (df_source d)\<rparr>"

definition walk_diff :: "json \<Rightarrow> json \<Rightarrow> 'v raw_diff" where
  "walk_diff cached source =
     \<lparr>rd_entries = map walk_entry (wk_entries (walkJson cached source)), rd_count = wk_count (walkJson cached source)\<rparr>"

definition diffShadowMismatchJson :: "(rat \<Rightarrow> jsstring) \<Rightarrow> json \<Rightarrow> json \<Rightarrow> (json list option \<times> nat) res" where
  "diffShadowMismatchJson fmt cached source =
     (let diff = (walk_diff cached source :: unit raw_diff) in
      res_bind (bound_entries fmt (\<lambda>_. None) (rd_entries diff)) (\<lambda>es. Inr (es, rd_count diff)))"

definition walkRenderedJson :: "json option \<Rightarrow> json option \<Rightarrow> 'v raw_diff" where
  "walkRenderedJson cachedJson sourceJson =
     (if cachedJson = sourceJson then \<lparr>rd_entries = [], rd_count = 0\<rparr>
      else
        (case (cachedJson, sourceJson) of
           (None, Some s) \<Rightarrow> \<lparr>rd_entries = [\<lparr>en_path = [], en_cached = None, en_source = Some (JsonSide s)\<rparr>], rd_count = 1\<rparr>
         | (Some c, None) \<Rightarrow> \<lparr>rd_entries = [\<lparr>en_path = [], en_cached = Some (JsonSide c), en_source = None\<rparr>], rd_count = 1\<rparr>
         | (Some c, Some s) \<Rightarrow> walk_diff c s
         | (None, None) \<Rightarrow> \<lparr>rd_entries = [], rd_count = 0\<rparr>))"

text \<open>
  What calling the hook gave: a throw, a promise-like, something else that is no array, or an array whose members
  are read (a path in its string form and the two sides) or throw when they are read.
\<close>

datatype 'v hook_result =
    HookThrows
  | HookPromise
  | HookOther
  | HookArray "(jsstring \<times> 'v option \<times> 'v option) option list"

definition runShadowMismatchHook :: "'v hook_result \<Rightarrow> 'v raw_diff option" where
  "runShadowMismatchHook r =
     (case r of
        HookArray ms \<Rightarrow>
          let kept = take SHADOW_MISMATCH_MAX_ENTRIES ms in
          if list_all (\<lambda>m. m \<noteq> None) kept
          then Some \<lparr>rd_entries = map (\<lambda>m. case the m of (p, c, s) \<Rightarrow>
                        \<lparr>en_path = p, en_cached = map_option AppSide c, en_source = map_option AppSide s\<rparr>) kept,
                     rd_count = length ms\<rparr>
          else None
      | _ \<Rightarrow> None)"

text \<open>A field is absent, present as null, or present with a value.\<close>

datatype 'a field = FieldAbsent | FieldNull | FieldValue 'a

record log_fields =
  mismatchPaths :: "jsstring list field"
  mismatchPathCount :: "nat field"
  diffJson :: "jsstring field"
  cachedValueJson :: "jsstring field"
  sourceValueJson :: "jsstring field"

datatype log_failure = hook_error | render_error

record log_plan =
  pl_value :: bool
  pl_diff :: diff_level

record log_content =
  ct_fields :: log_fields
  ct_failure :: "log_failure option"

fun opt_field :: "'a option \<Rightarrow> 'a field" where
  "opt_field None = FieldNull"
| "opt_field (Some x) = FieldValue x"

definition value_field :: "(rat \<Rightarrow> jsstring) \<Rightarrow> json option \<Rightarrow> jsstring field res" where
  "value_field fmt j =
     (case j of None \<Rightarrow> Inr FieldNull
      | Some v \<Rightarrow> res_bind (clampUtf8 (json_text fmt v) SHADOW_LOG_VALUE_MAX_BYTES) (\<lambda>t. Inr (FieldValue t)))"

text \<open>\<open>is_undef\<close> tells the top-level undefined of a negative cache entry, whose side is absent.\<close>

definition renderShadowMismatchLog ::
  "(rat \<Rightarrow> jsstring) \<Rightarrow> ('v \<Rightarrow> json option) \<Rightarrow> ('v \<Rightarrow> bool) \<Rightarrow> log_plan \<Rightarrow> 'v \<Rightarrow> 'v \<Rightarrow> ('v \<Rightarrow> 'v \<Rightarrow> 'v hook_result) option \<Rightarrow>
   log_content res" where
  "renderShadowMismatchLog fmt render is_undef plan cachedValue sourceValue hook =
     (let renderSides = (pl_value plan \<or> pl_diff plan \<noteq> DiffOff \<and> hook = None);
          cachedJson = (if renderSides then render cachedValue else None);
          sourceJson = (if renderSides then render sourceValue else None);
          sidesFailed = (renderSides \<and> (cachedJson = None \<and> \<not> is_undef cachedValue \<or> sourceJson = None \<and> \<not> is_undef sourceValue));
          withValues = (pl_diff plan = DiffValues);
          diff = (case hook of
                    Some h \<Rightarrow> runShadowMismatchHook (h cachedValue sourceValue)
                  | None \<Rightarrow> if sidesFailed then None else Some (walkRenderedJson cachedJson sourceJson));
          diffFailed = (pl_diff plan \<noteq> DiffOff \<and> hook \<noteq> None \<and> diff = None)
      in
      res_bind
        (if pl_diff plan = DiffOff then Inr (FieldAbsent, FieldAbsent, FieldAbsent, sidesFailed)
         else
           (case diff of
              None \<Rightarrow> Inr (FieldNull, FieldNull, if withValues then FieldNull else FieldAbsent, sidesFailed)
            | Some d \<Rightarrow>
                res_bind (if withValues then res_bind (renderDiffJson fmt render (rd_entries d)) (\<lambda>t. Inr (opt_field t))
                          else Inr FieldAbsent) (\<lambda>dj.
                res_bind (map_res (\<lambda>e. clampPointer (en_path e)) (rd_entries d)) (\<lambda>paths.
                Inr (FieldValue paths, FieldValue (rd_count d), dj, sidesFailed \<or> withValues \<and> dj = FieldNull)))))
        (\<lambda>(paths, count, dj, renderFailed).
      res_bind (if pl_value plan then value_field fmt cachedJson else Inr FieldAbsent) (\<lambda>cv.
      res_bind (if pl_value plan then value_field fmt sourceJson else Inr FieldAbsent) (\<lambda>sv.
      Inr \<lparr>ct_fields = \<lparr>mismatchPaths = paths, mismatchPathCount = count, diffJson = dj, cachedValueJson = cv, sourceValueJson = sv\<rparr>,
           ct_failure = (if diffFailed then Some hook_error else if renderFailed then Some render_error else None)\<rparr>))))"

definition failedShadowMismatchLogFields :: "log_plan \<Rightarrow> log_fields" where
  "failedShadowMismatchLogFields plan =
     \<lparr>mismatchPaths = (if pl_diff plan = DiffOff then FieldAbsent else FieldNull),
      mismatchPathCount = (if pl_diff plan = DiffOff then FieldAbsent else FieldNull),
      diffJson = (if pl_diff plan = DiffValues then FieldNull else FieldAbsent),
      cachedValueJson = (if pl_value plan then FieldNull else FieldAbsent),
      sourceValueJson = (if pl_value plan then FieldNull else FieldAbsent)\<rparr>"

subsection \<open>Every warning is bounded and fails closed\<close>

definition field_in :: "('a \<Rightarrow> bool) \<Rightarrow> 'a field \<Rightarrow> bool" where
  "field_in P f = (case f of FieldValue x \<Rightarrow> P x | _ \<Rightarrow> True)"

text \<open>The fields the plan asks for are present, and no others.\<close>

definition fields_of_plan :: "log_plan \<Rightarrow> log_fields \<Rightarrow> bool" where
  "fields_of_plan plan f \<longleftrightarrow>
     (mismatchPaths f \<noteq> FieldAbsent) = (pl_diff plan \<noteq> DiffOff) \<and> (mismatchPathCount f \<noteq> FieldAbsent) = (pl_diff plan \<noteq> DiffOff) \<and>
     (diffJson f \<noteq> FieldAbsent) = (pl_diff plan = DiffValues) \<and>
     (cachedValueJson f \<noteq> FieldAbsent) = pl_value plan \<and> (sourceValueJson f \<noteq> FieldAbsent) = pl_value plan"

definition fields_bounded :: "log_fields \<Rightarrow> bool" where
  "fields_bounded f \<longleftrightarrow>
     field_in (\<lambda>ps. length ps \<le> 64 \<and> list_all (\<lambda>p. byteLength p \<le> 512) ps) (mismatchPaths f) \<and>
     field_in (\<lambda>t. byteLength t \<le> 8192) (diffJson f) \<and>
     field_in (\<lambda>t. byteLength t \<le> 8192) (cachedValueJson f) \<and> field_in (\<lambda>t. byteLength t \<le> 8192) (sourceValueJson f)"

text \<open>A field of the difference is null only in a content that names its failure.\<close>

definition nulls_reported :: "log_content \<Rightarrow> bool" where
  "nulls_reported c \<longleftrightarrow> ct_failure c = None \<longrightarrow> mismatchPaths (ct_fields c) \<noteq> FieldNull \<and> diffJson (ct_fields c) \<noteq> FieldNull"

lemmas log_bounds = SHADOW_LOG_KEY_MAX_BYTES_def SHADOW_LOG_VALUE_MAX_BYTES_def SHADOW_LOG_DIFF_MAX_BYTES_def
  SHADOW_MISMATCH_PATH_MAX_BYTES_def SHADOW_MISMATCH_SIDE_MAX_BYTES_def SHADOW_MISMATCH_MAX_ENTRIES_def

lemma clamp_total: "14 \<le> n \<Longrightarrow> \<exists>t. clampUtf8 v n = Inr t \<and> byteLength t \<le> n"
  using clampUtf8_eq [of n v] clamped_bytes [of n v] by auto

lemma clampPointer_total: "\<exists>t. clampPointer p = Inr t \<and> byteLength t \<le> 512"
  using clamp_total [of SHADOW_MISMATCH_PATH_MAX_BYTES p] by (simp add: clampPointer_def log_bounds)

lemma clampPointers_total:
  "\<exists>ts. map_res (\<lambda>e. clampPointer (en_path e)) es = Inr ts \<and> length ts = length es \<and> list_all (\<lambda>t. byteLength t \<le> 512) ts"
proof (induction es)
  case (Cons e es)
  obtain t where "clampPointer (en_path e) = Inr t" "byteLength t \<le> 512" using clampPointer_total by blast
  with Cons show ?case by auto
qed simp

lemma bound_side_total: "\<exists>r. bound_side fmt render name side = Inr r"
proof -
  have "\<exists>t. clampUtf8 (json_text fmt j) SHADOW_MISMATCH_SIDE_MAX_BYTES = Inr t" for j
    using clamp_total [of SHADOW_MISMATCH_SIDE_MAX_BYTES] by (auto simp: log_bounds)
  then show ?thesis by (fastforce simp: bound_side_def res_simps split: option.split)
qed

lemma boundEntry_total: "\<exists>r. boundEntry fmt render e = Inr r"
proof -
  obtain t c s where "clampPointer (en_path e) = Inr t" "bound_side fmt render ''cached'' (en_cached e) = Inr c"
    "bound_side fmt render ''source'' (en_source e) = Inr s"
    using clampPointer_total bound_side_total by metis
  then show ?thesis by (auto simp: boundEntry_def split: option.split)
qed

lemma bound_entries_total: "\<exists>r. bound_entries fmt render es = Inr r"
proof (induction es)
  case (Cons e es)
  obtain r where "boundEntry fmt render e = Inr r" using boundEntry_total by blast
  with Cons show ?case by (cases r) auto
qed simp

lemma renderDiffJson_total: "\<exists>r. renderDiffJson fmt render es = Inr r \<and> field_in (\<lambda>t. byteLength t \<le> 8192) (opt_field r)"
proof -
  obtain b where b: "bound_entries fmt render es = Inr b" using bound_entries_total by blast
  show ?thesis
  proof (cases b)
    case (Some bs)
    obtain t where "clampUtf8 (json_text fmt (JsArray bs)) SHADOW_LOG_DIFF_MAX_BYTES = Inr t" "byteLength t \<le> 8192"
      using clamp_total [of SHADOW_LOG_DIFF_MAX_BYTES] by (auto simp: log_bounds)
    with b Some show ?thesis by (auto simp: renderDiffJson_def field_in_def)
  qed (use b in \<open>auto simp: renderDiffJson_def field_in_def\<close>)
qed

lemma value_field_total: "\<exists>f. value_field fmt j = Inr f \<and> f \<noteq> FieldAbsent \<and> field_in (\<lambda>t. byteLength t \<le> 8192) f"
proof (cases j)
  case (Some v)
  obtain t where "clampUtf8 (json_text fmt v) SHADOW_LOG_VALUE_MAX_BYTES = Inr t" "byteLength t \<le> 8192"
    using clamp_total [of SHADOW_LOG_VALUE_MAX_BYTES] by (auto simp: log_bounds)
  with Some show ?thesis by (auto simp: value_field_def field_in_def)
qed (auto simp: value_field_def field_in_def)

lemma raw_entries_capped:
  "length (rd_entries (walkRenderedJson c s)) \<le> 64" "runShadowMismatchHook r = Some d \<Longrightarrow> length (rd_entries d) \<le> 64"
  by (auto simp: walkRenderedJson_def walk_diff_def walkJson_differences runShadowMismatchHook_def log_bounds Let_def
      split: option.split hook_result.splits if_splits)

text \<open>
  The content of a mismatch warning is always built, whatever the values and the hook do: it has exactly the
  fields the plan asks for, at most 64 paths of at most 512 bytes each and every text within 8192 bytes, and a field
  of the difference is null only when the content names the failure.
\<close>

lemma shadow_log_bounded:
  "\<exists>content. renderShadowMismatchLog fmt render is_undef plan cachedValue sourceValue hook = Inr content \<and>
     fields_of_plan plan (ct_fields content) \<and> fields_bounded (ct_fields content) \<and> nulls_reported content"
proof -
  define renderSides where "renderSides = (pl_value plan \<or> pl_diff plan \<noteq> DiffOff \<and> hook = None)"
  define cj sj where "cj = (if renderSides then render cachedValue else None)" and "sj = (if renderSides then render sourceValue else None)"
  define sidesFailed where "sidesFailed = (renderSides \<and> (cj = None \<and> \<not> is_undef cachedValue \<or> sj = None \<and> \<not> is_undef sourceValue))"
  define diff where "diff = (case hook of Some h \<Rightarrow> runShadowMismatchHook (h cachedValue sourceValue)
      | None \<Rightarrow> if sidesFailed then None else Some (walkRenderedJson cj sj))"
  note defs = renderSides_def [symmetric] cj_def [symmetric] sj_def [symmetric] sidesFailed_def [symmetric] diff_def [symmetric]
  have cap: "length (rd_entries d) \<le> 64" if "diff = Some d" for d
    using that raw_entries_capped by (auto simp: diff_def split: option.splits if_splits)
  obtain cf sf where v: "value_field fmt cj = Inr cf" "cf \<noteq> FieldAbsent" "field_in (\<lambda>t. byteLength t \<le> 8192) cf"
    "value_field fmt sj = Inr sf" "sf \<noteq> FieldAbsent" "field_in (\<lambda>t. byteLength t \<le> 8192) sf"
    using value_field_total by metis
  show ?thesis
  proof (cases "pl_diff plan = DiffOff")
    case True
    then show ?thesis using v unfolding renderShadowMismatchLog_def Let_def defs
      by (cases "pl_value plan") (simp_all add: fields_of_plan_def fields_bounded_def nulls_reported_def field_in_def)
  next
    case on: False
    show ?thesis
    proof (cases diff)
      case None
      then have "hook = None \<Longrightarrow> sidesFailed" by (auto simp: diff_def split: if_splits)
      with on None v show ?thesis unfolding renderShadowMismatchLog_def Let_def defs
        by (cases "pl_value plan"; cases hook) (simp_all add: fields_of_plan_def fields_bounded_def nulls_reported_def field_in_def)
    next
      case (Some d)
      obtain ps where ps: "map_res (\<lambda>e. clampPointer (en_path e)) (rd_entries d) = Inr ps" "length ps \<le> 64"
        "list_all (\<lambda>p. byteLength p \<le> 512) ps"
        using clampPointers_total [of "rd_entries d"] cap [OF Some] by auto
      obtain dj where dj: "renderDiffJson fmt render (rd_entries d) = Inr dj" "field_in (\<lambda>t. byteLength t \<le> 8192) (opt_field dj)"
        using renderDiffJson_total by blast
      have "opt_field dj \<noteq> FieldAbsent" by (cases dj) auto
      with on Some v ps dj show ?thesis unfolding renderShadowMismatchLog_def Let_def defs
        by (cases "pl_value plan"; cases "pl_diff plan = DiffValues")
           (simp_all add: fields_of_plan_def fields_bounded_def nulls_reported_def, auto simp: field_in_def)
    qed
  qed
qed

end
