(* ===== verification/ShadowValidation.thy ===== *)
theory ShadowValidation
  imports RedisCacheSpec ShadowLog
begin

section \<open>Shadow validation jobs\<close>

text \<open>
  What \<^verbatim>\<open>dialcache.ts\<close> does with an admitted shadow job: \<^verbatim>\<open>runShadowValidation\<close> with its deadline, its source, its
  fill, comparison and confirmation read, \<^verbatim>\<open>recordShadowValidation\<close>, \<^verbatim>\<open>warnShadowMismatch\<close>, and the table of flights
  with its release rule. A flight is threaded through the job as a value. The deadline's timer may fire at every
  suspension of the job and then abandons the flight; \<open>shadowed\<close> runs a piece of the Redis layer inside a job, asks
  after each suspension whether the timer fired, and answers the write's \<^verbatim>\<open>shouldWrite\<close> by \<^verbatim>\<open>abandonIfExpired\<close>.
\<close>

record shadow_flight =
  sf_cachedFrame :: "frame option"
  sf_abandoned :: bool

datatype run_start = RunRetained | RunRedis resolved_remote_layer

record shadow_clock =
  sc_startedAtMs :: rat
  sc_timeoutMs :: rat

record shadow_warning =
  sw_labels :: KeyMetricLabels
  sw_cachedValueAgeSeconds :: "rat option"
  sw_cacheKey :: "jsstring option"
  sw_fields :: log_fields
  sw_loggingOutcome :: "log_failure option"

text \<open>
  The requests of a job besides those of the Redis layer. \<open>STimer\<close>: did the deadline's timer fire during the last
  suspension. \<open>SSharedSource\<close>: the race of the caller's source run with the timeout signal. \<open>SDisabledSource\<close>: a
  source run of its own, in a disabled context. \<open>SSettle\<close>: awaiting what a comparator returned instead of a boolean.
  \<open>SDeadline\<close>: how the promise of the deadline settled.
\<close>

datatype (plugins only: size) (dead 'v) sreq =
    SBase "'v req"
  | STimer
  | SSharedSource
  | SDisabledSource
  | SYield
  | SCallerTimedOut
  | SCompare 'v 'v
  | SSettle
  | SDeadline rat
  | SWarn shadow_warning

datatype (plugins only: size) (dead 'v) sans =
    SAns "'v ans"
  | SBool bool
  | SNonBool
  | SVal 'v
  | SThrown jserror
  | STimeoutWon
  | SDone

fun sanswered :: "'v sreq \<Rightarrow> 'v sans \<Rightarrow> bool" where
  "sanswered (SBase q) a = (\<exists>x. a = SAns x \<and> well_answered q x)"
| "sanswered STimer a = (\<exists>b. a = SBool b)"
| "sanswered SSharedSource a = ((\<exists>v. a = SVal v) \<or> (\<exists>e. a = SThrown e) \<or> a = STimeoutWon)"
| "sanswered SDisabledSource a = ((\<exists>v. a = SVal v) \<or> (\<exists>e. a = SThrown e))"
| "sanswered SCallerTimedOut a = (\<exists>b. a = SBool b)"
| "sanswered (SCompare _ _) a = ((\<exists>b. a = SBool b) \<or> a = SNonBool \<or> (\<exists>e. a = SThrown e))"
| "sanswered (SDeadline _) a = (\<exists>b. a = SBool b)"
| "sanswered (SWarn _) a = (\<exists>b. a = SBool b)"
| "sanswered _ a = (a = SDone)"

type_synonym ('v, 'r) shadow_prog = "('v sreq, 'v sans, 'r) prog"

fun ans_of :: "'v sans \<Rightarrow> 'v ans" where
  "ans_of (SAns x) = x"
| "ans_of _ = AUnit"

fun rat_of_ans :: "'v ans \<Rightarrow> rat" where
  "rat_of_ans (ARat t) = t"
| "rat_of_ans _ = 0"

fun int_of_ans :: "'v ans \<Rightarrow> int" where
  "int_of_ans (AInt t) = t"
| "int_of_ans _ = 0"

subsection \<open>The flight and its deadline\<close>

definition abandon :: "shadow_flight \<Rightarrow> shadow_flight" where
  "abandon fl = fl\<lparr>sf_abandoned := True, sf_cachedFrame := None\<rparr>"

definition sPerfNow :: "('v, rat) shadow_prog" where
  "sPerfNow = Req (SBase QPerfNow) (\<lambda>a. Ret (rat_of_ans (ans_of a)))"

definition sDateNow :: "('v, int) shadow_prog" where
  "sDateNow = Req (SBase QDateNow) (\<lambda>a. Ret (int_of_ans (ans_of a)))"

definition abandonIfExpired :: "shadow_clock \<Rightarrow> shadow_flight \<Rightarrow> ('v, bool \<times> shadow_flight) shadow_prog" where
  "abandonIfExpired c fl =
     (if sf_abandoned fl then Ret (True, fl)
      else pbind sPerfNow (\<lambda>now.
        if now - sc_startedAtMs c \<ge> sc_timeoutMs c then Ret (True, abandon fl) else Ret (False, fl)))"

text \<open>A suspension: the timer's \<^verbatim>\<open>onTimeout\<close> may have run when the job resumes.\<close>

definition resume :: "shadow_flight \<Rightarrow> ('v, shadow_flight) shadow_prog" where
  "resume fl = Req STimer (\<lambda>a. Ret (if a = SBool True then abandon fl else fl))"

fun suspends :: "'v req \<Rightarrow> bool" where
  "suspends (QRead _ _) = True"
| "suspends (QWrite _) = True"
| "suspends (QDump _ _) = True"
| "suspends (QLoad _ _) = True"
| "suspends _ = False"

primrec shadowed ::
  "('v, 'r) cache_prog \<Rightarrow> shadow_clock \<Rightarrow> shadow_flight \<Rightarrow> ('v, 'r res \<times> shadow_flight) shadow_prog" where
  "shadowed (Ret x) = (\<lambda>c fl. Ret (Inr x, fl))"
| "shadowed (Thr e) = (\<lambda>c fl. Ret (Inl e, fl))"
| "shadowed (Req q k) = (\<lambda>c fl.
     if q = QShouldWrite
     then pbind (abandonIfExpired c fl) (\<lambda>r. shadowed (k (ABool (\<not> fst r))) c (snd r))
     else Req (SBase q) (\<lambda>a.
       pbind (if suspends q then resume fl else Ret fl) (\<lambda>fl'. shadowed (k (ans_of a)) c fl')))"

subsection \<open>Verdicts\<close>

record 'v verdict =
  vd_outcome :: shadow_outcome
  vd_details :: "(log_plan \<times> 'v \<times> 'v) option"
  vd_age :: "rat option"

abbreviation just :: "shadow_outcome \<Rightarrow> 'v verdict" where
  "just outcome \<equiv> \<lparr>vd_outcome = outcome, vd_details = None, vd_age = None\<rparr>"

type_synonym 'v shadow_job = "('v, 'v verdict \<times> shadow_flight) shadow_prog"

definition unlessExpired :: "shadow_clock \<Rightarrow> shadow_flight \<Rightarrow> (shadow_flight \<Rightarrow> 'v shadow_job) \<Rightarrow> 'v shadow_job" where
  "unlessExpired c fl p =
     pbind (abandonIfExpired c fl) (\<lambda>r. if fst r then Ret (just sv_timeout, snd r) else p (snd r))"

definition redisPayloadsEqual :: "payload \<Rightarrow> payload \<Rightarrow> bool" where
  "redisPayloadsEqual left right =
     (case (left, right) of
        (Text l, Text r) \<Rightarrow> l = r
      | (Binary l, Binary r) \<Rightarrow> l = r
      | (Binary l, Text r) \<Rightarrow> l = utf8_encode r
      | (Text l, Binary r) \<Rightarrow> r = utf8_encode l)"

text \<open>A stamp is a number by its declared type; one that is not finite gives no age.\<close>

definition shadowValueAgeSeconds :: "int \<Rightarrow> jsval \<Rightarrow> rat option" where
  "shadowValueAgeSeconds now createdAtMs =
     (case createdAtMs of JNum (Fin t) \<Rightarrow> Some (max ((of_int now - t) / 1000) 0) | _ \<Rightarrow> None)"

subsection \<open>The job\<close>

definition readShadowFrame :: "redis_cache \<Rightarrow> DialCacheKey \<Rightarrow> int \<Rightarrow> int option \<Rightarrow> future_policy \<Rightarrow> ('v, valid_read) cache_prog" where
  "readShadowFrame rc key readTimeoutMs maxAgeSec policy = startPayloadReadForShadow rc key maxAgeSec readTimeoutMs policy"

text \<open>The first read of a job that starts from Redis; its continuation gets the fill a miss calls for.\<close>

definition shadowInitialRead ::
  "redis_cache \<Rightarrow> DialCacheKey \<Rightarrow> int \<Rightarrow> shadow_clock \<Rightarrow> resolved_remote_layer \<Rightarrow>
   ((resolved_remote_layer \<times> int option) option \<Rightarrow> shadow_flight \<Rightarrow> 'v shadow_job) \<Rightarrow> shadow_flight \<Rightarrow> 'v shadow_job" where
  "shadowInitialRead rc key readTimeoutMs c config k fl =
     pbind (shadowed (readShadowFrame rc key readTimeoutMs (Some (res_ttlSec config)) FutureReject) c fl) (\<lambda>r.
     case fst r of
       Inl _ \<Rightarrow> Ret (just sv_redis_error, snd r)
     | Inr result \<Rightarrow> unlessExpired c (snd r) (\<lambda>fl.
         case result of
           ValidMiss _ observedWatermarkMs \<Rightarrow> k (Some (config, observedWatermarkMs)) fl
         | ValidFrame f \<Rightarrow> k None (fl\<lparr>sf_cachedFrame := Some f\<rparr>)))"

fun thrown :: "'v sans \<Rightarrow> bool" where
  "thrown (SThrown _) = True"
| "thrown _ = False"

definition shadowSource :: "run_start \<Rightarrow> ('v \<Rightarrow> shadow_flight \<Rightarrow> 'v shadow_job) \<Rightarrow> shadow_flight \<Rightarrow> 'v shadow_job" where
  "shadowSource start k fl =
     (case start of
        RunRedis _ \<Rightarrow>
          Req SSharedSource (\<lambda>a. pbind (resume fl) (\<lambda>fl.
            case a of
              SVal v \<Rightarrow> Req SYield (\<lambda>_. pbind (resume fl) (\<lambda>fl. k v fl))
            | _ \<Rightarrow>
              if thrown a
              then Req SCallerTimedOut (\<lambda>b. Ret (just (if b = SBool True then sv_timeout else sv_source_error), fl))
              else Ret (just sv_timeout, abandon fl)))
      | RunRetained \<Rightarrow>
          Req SDisabledSource (\<lambda>a. pbind (resume fl) (\<lambda>fl.
            case a of SVal v \<Rightarrow> k v fl | _ \<Rightarrow> Ret (just sv_source_error, fl))))"

definition shadowFill ::
  "redis_cache \<Rightarrow> DialCacheKey \<Rightarrow> shadow_clock \<Rightarrow> resolved_remote_layer \<Rightarrow> int option \<Rightarrow> 'v \<Rightarrow> shadow_flight \<Rightarrow> 'v shadow_job" where
  "shadowFill rc key c config observedWatermarkMs sourceValue fl =
     pbind (shadowed (putForShadow rc key sourceValue config observedWatermarkMs) c fl) (\<lambda>r.
     case fst r of
       Inl _ \<Rightarrow> Req (SBase (QLog LogWarn ''Error populating Redis from DialCache shadow work''))
                  (\<lambda>_. Ret (just sv_fill_error, snd r))
     | Inr filled \<Rightarrow> unlessExpired c (snd r) (\<lambda>fl. Ret (just (if filled then sv_filled else sv_fill_fenced), fl)))"

definition shadowConfirm ::
  "redis_cache \<Rightarrow> DialCacheKey \<Rightarrow> int \<Rightarrow> shadow_clock \<Rightarrow> log_plan option \<Rightarrow> 'v \<Rightarrow> 'v \<Rightarrow> shadow_flight \<Rightarrow> 'v shadow_job" where
  "shadowConfirm rc key readTimeoutMs c logPlan cachedValue sourceValue fl =
     pbind (shadowed (readShadowFrame rc key readTimeoutMs None FutureRetain) c fl) (\<lambda>r.
     case fst r of
       Inl _ \<Rightarrow> Ret (just sv_confirmation_error, snd r)
     | Inr result \<Rightarrow> unlessExpired c (snd r) (\<lambda>fl.
         case sf_cachedFrame fl of
           None \<Rightarrow> Ret (just sv_timeout, fl)
         | Some originalFrame \<Rightarrow>
             (case result of
                ValidMiss _ _ \<Rightarrow> Ret (just sv_superseded, fl)
              | ValidFrame confirmationFrame \<Rightarrow>
                  if \<not> redisPayloadsEqual (fr_payload originalFrame) (fr_payload confirmationFrame)
                  then Ret (just sv_superseded, fl)
                  else pbind sDateNow (\<lambda>now.
                    Ret (\<lparr>vd_outcome = sv_mismatch,
                          vd_details = map_option (\<lambda>p. (p, cachedValue, sourceValue)) logPlan,
                          vd_age = shadowValueAgeSeconds now (fr_createdAtMs originalFrame)\<rparr>, fl)))))"

definition shadowCompare ::
  "redis_cache \<Rightarrow> DialCacheKey \<Rightarrow> int \<Rightarrow> shadow_clock \<Rightarrow> log_plan option \<Rightarrow> 'v \<Rightarrow> shadow_flight \<Rightarrow> 'v shadow_job" where
  "shadowCompare rc key readTimeoutMs c logPlan sourceValue fl =
     (case sf_cachedFrame fl of
        None \<Rightarrow> Ret (just sv_timeout, fl)
      | Some retainedFrame \<Rightarrow>
          pbind (shadowed (deserializeForShadow rc key (fr_payload retainedFrame)) c fl) (\<lambda>r.
          case fst r of
            Inl _ \<Rightarrow> Ret (just sv_deserialization_error, snd r)
          | Inr cachedValue \<Rightarrow> unlessExpired c (snd r) (\<lambda>fl.
              Req (SCompare cachedValue sourceValue) (\<lambda>a.
              case a of
                SBool matches \<Rightarrow> unlessExpired c fl (\<lambda>fl.
                  if matches
                  then pbind sDateNow (\<lambda>now.
                    Ret (\<lparr>vd_outcome = sv_match, vd_details = None,
                          vd_age = shadowValueAgeSeconds now (fr_createdAtMs retainedFrame)\<rparr>, fl))
                  else shadowConfirm rc key readTimeoutMs c logPlan cachedValue sourceValue fl)
              | SNonBool \<Rightarrow> Req SSettle (\<lambda>_. pbind (resume fl) (\<lambda>fl.
                  unlessExpired c fl (\<lambda>fl. Ret (just sv_comparison_error, fl))))
              | _ \<Rightarrow> Ret (just sv_comparison_error, fl)))))"

definition shadowAfterRead ::
  "redis_cache \<Rightarrow> DialCacheKey \<Rightarrow> shadow_clock \<Rightarrow> run_start \<Rightarrow> int \<Rightarrow> log_plan option \<Rightarrow>
   (resolved_remote_layer \<times> int option) option \<Rightarrow> shadow_flight \<Rightarrow> 'v shadow_job" where
  "shadowAfterRead rc key c start readTimeoutMs logPlan fill =
     shadowSource start (\<lambda>sourceValue fl. unlessExpired c fl (\<lambda>fl.
       case fill of
         Some (config, observedWatermarkMs) \<Rightarrow> shadowFill rc key c config observedWatermarkMs sourceValue fl
       | None \<Rightarrow> shadowCompare rc key readTimeoutMs c logPlan sourceValue fl))"

definition shadowOperation ::
  "redis_cache \<Rightarrow> DialCacheKey \<Rightarrow> shadow_clock \<Rightarrow> run_start \<Rightarrow> int \<Rightarrow> log_plan option \<Rightarrow> shadow_flight \<Rightarrow> 'v shadow_job" where
  "shadowOperation rc key c start readTimeoutMs logPlan fl =
     pbind
       (unlessExpired c fl (\<lambda>fl.
          case start of
            RunRedis config \<Rightarrow>
              shadowInitialRead rc key readTimeoutMs c config (shadowAfterRead rc key c start readTimeoutMs logPlan) fl
          | RunRetained \<Rightarrow> shadowAfterRead rc key c start readTimeoutMs logPlan None fl))
       (\<lambda>r. Ret (fst r, snd r\<lparr>sf_cachedFrame := None\<rparr>))"

subsection \<open>Recording\<close>

text \<open>
  Which of the optional metrics the adapter implements, and how values print: the number format of
  \<^verbatim>\<open>JSON.stringify\<close>, the JSON of a value where it has one, the undefined of a negative entry, the hook.
\<close>

record shadow_metrics =
  sm_validation :: bool
  sm_valueAge :: bool
  sm_mismatchLogging :: bool

record 'v renderer =
  rn_number :: "rat \<Rightarrow> jsstring"
  rn_json :: "'v \<Rightarrow> json option"
  rn_undefined :: "'v \<Rightarrow> bool"
  rn_hook :: "('v \<Rightarrow> 'v \<Rightarrow> 'v hook_result) option"

definition sMetric :: "bool \<Rightarrow> metric_event \<Rightarrow> ('v, unit) shadow_prog" where
  "sMetric present e = (if present then Req (SBase (QMetric e)) (\<lambda>_. Ret ()) else Ret ())"

definition warning_content ::
  "'v renderer \<Rightarrow> DialCacheKey \<Rightarrow> log_plan \<Rightarrow> 'v \<Rightarrow> 'v \<Rightarrow> jsstring option \<times> log_content" where
  "warning_content rn key plan cachedValue sourceValue =
     (let failed = \<lparr>ct_fields = failedShadowMismatchLogFields plan, ct_failure = Some render_error\<rparr> in
      case previewShadowLogKey (urn key) of
        Inl _ \<Rightarrow> (None, failed)
      | Inr cacheKey \<Rightarrow>
          (case renderShadowMismatchLog (rn_number rn) (rn_json rn) (rn_undefined rn) plan cachedValue sourceValue (rn_hook rn) of
             Inl _ \<Rightarrow> (Some cacheKey, failed)
           | Inr content \<Rightarrow> (Some cacheKey, content)))"

fun logging_outcome :: "log_failure option \<Rightarrow> bool \<Rightarrow> mismatch_logging_outcome" where
  "logging_outcome (Some hook_error) delivered = ml_hook_error"
| "logging_outcome (Some render_error) delivered = ml_render_error"
| "logging_outcome None delivered = (if delivered then ml_logged else ml_logger_error)"

text \<open>The answer of \<open>SWarn\<close> is whether the logger delivered, at once or when its promise settled.\<close>

definition warnShadowMismatch ::
  "shadow_metrics \<Rightarrow> 'v renderer \<Rightarrow> DialCacheKey \<Rightarrow> log_plan \<times> 'v \<times> 'v \<Rightarrow> rat option \<Rightarrow> ('v, unit) shadow_prog" where
  "warnShadowMismatch sm rn key details valueAgeSeconds =
     (let (plan, cachedValue, sourceValue) = details;
          (cacheKey, content) = warning_content rn key plan cachedValue sourceValue
      in Req (SWarn \<lparr>sw_labels = keyLabels key, sw_cachedValueAgeSeconds = valueAgeSeconds, sw_cacheKey = cacheKey,
                     sw_fields = ct_fields content, sw_loggingOutcome = ct_failure content\<rparr>)
           (\<lambda>delivered. sMetric (sm_mismatchLogging sm)
              (m_shadowMismatchLogging (keyLabels key) (logging_outcome (ct_failure content) (delivered = SBool True)))))"

definition recordShadowValidation ::
  "shadow_metrics \<Rightarrow> 'v renderer \<Rightarrow> DialCacheKey \<Rightarrow> shadow_outcome \<Rightarrow> (log_plan \<times> 'v \<times> 'v) option \<Rightarrow> rat option \<Rightarrow>
   ('v, unit) shadow_prog" where
  "recordShadowValidation sm rn key outcome mismatchDetails valueAgeSeconds =
     pthen (sMetric (sm_validation sm) (m_shadowValidation (keyLabels key) outcome))
     (pthen (case valueAgeSeconds of None \<Rightarrow> Ret ()
             | Some a \<Rightarrow> sMetric (sm_valueAge sm) (m_observeShadowValueAge (keyLabels key) outcome a))
      (case mismatchDetails of None \<Rightarrow> Ret () | Some d \<Rightarrow> warnShadowMismatch sm rn key d valueAgeSeconds))"

text \<open>
  The whole job. The deadline spans what is left of the timeout; whether its promise was fulfilled before that or
  rejected decides if the operation's verdict or a timeout is recorded.
\<close>

definition runShadowValidation ::
  "shadow_metrics \<Rightarrow> 'v renderer \<Rightarrow> redis_cache \<Rightarrow> DialCacheKey \<Rightarrow> shadow_flight \<Rightarrow> rat \<Rightarrow> run_start \<Rightarrow> rat \<Rightarrow> int \<Rightarrow>
   log_plan option \<Rightarrow> ('v, unit) shadow_prog" where
  "runShadowValidation sm rn rc key flight startedAtMs start timeoutMs readTimeoutMs logPlan =
     pbind (case start of RunRetained \<Rightarrow> sPerfNow | RunRedis _ \<Rightarrow> Ret startedAtMs) (\<lambda>deadlineStartedAtMs.
     pbind sPerfNow (\<lambda>now.
     let elapsedBeforeStartMs = max (now - deadlineStartedAtMs) 0;
         remainingTimeoutMs = max (timeoutMs - elapsedBeforeStartMs) 0;
         c = \<lparr>sc_startedAtMs = deadlineStartedAtMs, sc_timeoutMs = timeoutMs\<rparr>
     in
     pbind (shadowOperation rc key c start readTimeoutMs logPlan flight) (\<lambda>r.
     Req (SDeadline remainingTimeoutMs) (\<lambda>a.
       if a = SBool True
       then recordShadowValidation sm rn key (vd_outcome (fst r)) (vd_details (fst r)) (vd_age (fst r))
       else recordShadowValidation sm rn key sv_timeout None None))))"

subsection \<open>What a piece of the Redis layer does inside a job\<close>

text \<open>The observable requests of the Redis layer in a trace of a job.\<close>

definition base :: "('v sreq, 'v sans) trace \<Rightarrow> ('v req \<times> 'v ans) set" where
  "base tr = {(q, a). (SBase q, SAns a) \<in> set tr \<and> observable (q, a)}"

lemma base_simps [simp]:
  "base [] = {}" "base (tr @ tr') = base tr \<union> base tr'"
  "base ((SBase q, SAns a) # tr) = (if observable (q, a) then insert (q, a) (base tr) else base tr)"
  "base ((STimer, b) # tr) = base tr"
  by (auto simp: base_def)

text \<open>What a suspension and an expiry check can do to the flight.\<close>

definition later :: "shadow_flight \<Rightarrow> shadow_flight \<Rightarrow> bool" where
  "later fl fl' \<longleftrightarrow> fl' = fl \<or> fl' = abandon fl"

lemma later_refl [simp]: "later fl fl" and later_abandon [simp]: "later fl (abandon fl)"
  by (simp_all add: later_def)

lemma later_trans: "later a b \<Longrightarrow> later b c \<Longrightarrow> later a c"
  by (auto simp: later_def abandon_def)

lemma later_live: "later fl fl' \<Longrightarrow> \<not> sf_abandoned fl' \<Longrightarrow> fl' = fl"
  by (auto simp: later_def abandon_def)

lemma all_base_answers: "(\<forall>a. (\<exists>x. a = SAns x \<and> P x) \<longrightarrow> R a) \<longleftrightarrow> (\<forall>x. P x \<longrightarrow> R (SAns x))"
  by blast

lemma always_sPerfNow: "always sanswered sPerfNow Q \<longleftrightarrow> (\<forall>t. Q [(SBase QPerfNow, SAns (ARat t))] (Inr t))"
  by (simp add: sPerfNow_def all_base_answers all_answers)

lemma always_sDateNow:
  "always sanswered sDateNow Q \<longleftrightarrow> (\<forall>t. \<bar>t\<bar> \<le> MAX_TIME_VALUE \<longrightarrow> Q [(SBase QDateNow, SAns (AInt t))] (Inr t))"
  by (auto simp: sDateNow_def all_base_answers)

lemma abandonIfExpired_spec:
  "always sanswered (abandonIfExpired c fl) (\<lambda>tr out. \<exists>b fl'. out = Inr (b, fl') \<and> base tr = {} \<and> later fl fl' \<and>
     (if b then sf_abandoned fl' else fl' = fl \<and> \<not> sf_abandoned fl))"
  by (simp add: abandonIfExpired_def always_pbind always_sPerfNow abandon_def later_def) (use exI [of "\<lambda>b. b" True] exI [of "\<lambda>b. \<not> b" False] in simp)

lemma resume_spec:
  "always sanswered (resume fl) (\<lambda>tr out. \<exists>fl'. out = Inr fl' \<and> base tr = {} \<and> later fl fl')"
  by (auto simp: resume_def)

text \<open>What a run of such a piece leaves: a later flight, and the piece's own requests but for \<^verbatim>\<open>shouldWrite\<close>.\<close>

definition shadowed_post ::
  "(('v req \<times> 'v ans) set \<Rightarrow> 'r res \<Rightarrow> bool) \<Rightarrow> shadow_flight \<Rightarrow> ('v sreq, 'v sans) trace \<Rightarrow> ('r res \<times> shadow_flight) res \<Rightarrow> bool" where
  "shadowed_post Q fl tr out \<longleftrightarrow>
     (\<exists>r fl' evs. out = Inr (r, fl') \<and> later fl fl' \<and> Q evs r \<and> {x \<in> evs. fst x \<noteq> QShouldWrite} = base tr)"

lemma shadowed_post_step:
  assumes "always sanswered p (shadowed_post (\<lambda>evs. Q (E \<union> evs)) fl')" "later fl fl'" "{x \<in> E. fst x \<noteq> QShouldWrite} = base pre"
  shows "always sanswered p (\<lambda>tr. shadowed_post Q fl (pre @ tr))"
proof (rule always_mono [OF assms(1)])
  fix tr and out :: "('b res \<times> shadow_flight) res" assume "shadowed_post (\<lambda>evs. Q (E \<union> evs)) fl' tr out"
  then obtain r fl'' evs where r: "out = Inr (r, fl'')" "later fl' fl''" "Q (E \<union> evs) r"
    and evs: "{x \<in> evs. fst x \<noteq> QShouldWrite} = base tr" unfolding shadowed_post_def by blast
  have "{x \<in> E \<union> evs. fst x \<noteq> QShouldWrite} = base (pre @ tr)"
    unfolding base_simps evs [symmetric] assms(3) [symmetric] by auto
  with r later_trans [OF assms(2)] show "shadowed_post Q fl (pre @ tr) out" unfolding shadowed_post_def by blast
qed

lemma shadowed_post_return:
  "Q {} (Inr x) \<Longrightarrow> shadowed_post Q fl [] (Inr (Inr x, fl))" "Q {} (Inl e) \<Longrightarrow> shadowed_post Q fl [] (Inr (Inl e, fl))"
  unfolding shadowed_post_def
  by (rule exI [of _ "Inr x"], rule exI [of _ fl], rule exI [of _ "{}"], simp)
     (rule exI [of _ "Inl e"], rule exI [of _ fl], rule exI [of _ "{}"], simp)

definition events :: "'v req \<Rightarrow> 'v ans \<Rightarrow> ('v req \<times> 'v ans) set" where
  "events q a = (if observable (q, a) then {(q, a)} else {})"

lemma always_answered:
  assumes "always well_answered (Req q k) (\<lambda>tr out. Q (set (filter observable tr)) out)" "well_answered q a"
  shows "always well_answered (k a) (\<lambda>tr. Q (events q a \<union> set (filter observable tr)))"
proof -
  have "set (filter observable ((q, a) # tr)) = events q a \<union> set (filter observable tr)" for tr by (auto simp: events_def)
  moreover have "always well_answered (k a) (\<lambda>tr. Q (set (filter observable ((q, a) # tr))))"
    using assms by (simp del: set_filter filter.simps)
  ultimately show ?thesis by (simp only:)
qed

lemma shadowed_spec:
  assumes "always well_answered p (\<lambda>tr out. Q (set (filter observable tr)) out)"
  shows "always sanswered (shadowed p c fl) (shadowed_post Q fl)"
  using assms
proof (induction p arbitrary: fl Q)
  case (Req q k)
  note IH = Req.IH [OF rangeI always_answered [OF Req.prems]]
  show ?case
  proof (cases "q = QShouldWrite")
    case True
    show ?thesis unfolding shadowed.simps if_P [OF True]
    proof (rule always_pbindI [OF abandonIfExpired_spec], goal_cases)
      case (2 tr x)
      then have "base tr = {}" "later fl (snd x)" by auto
      then show ?case using True by (intro shadowed_post_step [OF IH]) (auto simp: events_def)
    qed simp
  next
    case False
    have step: "always sanswered (pbind (if suspends q then resume fl else Ret fl) (shadowed (k a) c))
        (\<lambda>tr. shadowed_post Q fl ((SBase q, SAns a) # tr))" if a: "well_answered q a" for a
    proof (rule always_pbindI [where R = "\<lambda>tr out. \<exists>fl'. out = Inr fl' \<and> base tr = {} \<and> later fl fl'"], goal_cases)
      case 1
      show ?case by (simp add: resume_spec)
    next
      case (3 tr fl')
      then have "base tr = {}" "later fl fl'" by auto
      then show ?case using False a
        by (intro shadowed_post_step [OF IH, where pre = "(SBase q, SAns a) # tr", simplified]) (auto simp: events_def)
    qed simp
    show ?thesis unfolding shadowed.simps if_not_P [OF False] always.simps
    proof (intro allI impI)
      fix a :: "'a sans" assume "sanswered (SBase q) a"
      then obtain x where x: "a = SAns x" "well_answered q x" by auto
      show "always sanswered (pbind (if suspends q then resume fl else Ret fl) (shadowed (k (ans_of a)) c))
        (\<lambda>tr. shadowed_post Q fl ((SBase q, a) # tr))"
        unfolding x(1) ans_of.simps by (rule step [OF x(2)])
    qed
  qed
qed (simp_all add: shadowed_post_return)

subsection \<open>Rules for the steps of a job\<close>

lemma base_other [simp]:
  "base ((SSharedSource, a) # tr) = base tr" "base ((SDisabledSource, a) # tr) = base tr" "base ((SYield, a) # tr) = base tr"
  "base ((SCallerTimedOut, a) # tr) = base tr" "base ((SCompare v v', a) # tr) = base tr" "base ((SSettle, a) # tr) = base tr"
  by (auto simp: base_def)

lemma unlessExpired_rule:
  assumes "\<And>tr fl'. base tr = {} \<Longrightarrow> Q tr (Inr (just sv_timeout, fl'))"
    and "\<And>tr. base tr = {} \<Longrightarrow> \<not> sf_abandoned fl \<Longrightarrow> always sanswered (p fl) (\<lambda>tr'. Q (tr @ tr'))"
  shows "always sanswered (unlessExpired c fl p) Q"
  unfolding unlessExpired_def
  by (rule always_pbindI [OF abandonIfExpired_spec]) (auto simp: assms)

lemma resume_rule:
  assumes "\<And>tr fl'. base tr = {} \<Longrightarrow> later fl fl' \<Longrightarrow> always sanswered (p fl') (\<lambda>tr'. Q (tr @ tr'))"
  shows "always sanswered (pbind (resume fl) p) Q"
  by (rule always_pbindI [OF resume_spec]) (auto simp: assms)

lemma sDateNow_rule:
  "(\<And>n. always sanswered (p n) (\<lambda>tr'. Q ((SBase QDateNow, SAns (AInt n)) # tr'))) \<Longrightarrow> always sanswered (pbind sDateNow p) Q"
  by (simp add: always_pbind always_sDateNow)

lemma shadowed_rule:
  assumes "observes p (\<lambda>tr out. P (set tr) out)"
    and "\<And>tr r fl' evs. later fl fl' \<Longrightarrow> P evs r \<Longrightarrow> base tr = {x \<in> evs. fst x \<noteq> QShouldWrite} \<Longrightarrow>
           always sanswered (k (r, fl')) (\<lambda>tr'. Q (tr @ tr'))"
  shows "always sanswered (pbind (shadowed p c fl) k) Q"
  by (rule always_pbindI [OF shadowed_spec [OF assms(1) [unfolded observes_def]]])
     (use assms(2) in \<open>auto simp: shadowed_post_def eq_commute\<close>)

definition write_free :: "('v req \<times> 'v ans) set \<Rightarrow> bool" where
  "write_free E \<longleftrightarrow> (\<forall>w a. (QWrite w, a) \<notin> E)"

lemma write_free_simps [simp]:
  "write_free {}" "write_free (A \<union> B) \<longleftrightarrow> write_free A \<and> write_free B"
  "write_free (insert (QDateNow, a) A) \<longleftrightarrow> write_free A"
  by (auto simp: write_free_def)

definition read_frame :: "('v req \<times> 'v ans) set \<Rightarrow> frame \<Rightarrow> bool" where
  "read_frame E f \<longleftrightarrow> (\<exists>r t. (QRead r t, ARead (RawFrame f)) \<in> E)"

lemma read_frame_mono: "read_frame A f \<Longrightarrow> A \<subseteq> B \<Longrightarrow> read_frame B f"
  by (auto simp: read_frame_def)

definition frame_read :: "valid_read res \<Rightarrow> ('v req \<times> 'v ans) set \<Rightarrow> bool" where
  "frame_read out E \<longleftrightarrow> write_free E \<and> (\<forall>f. out = Inr (ValidFrame f) \<longrightarrow> read_frame E f)"

lemma readShadowFrame_events:
  "observes (readShadowFrame rc key t maxAge policy) (\<lambda>tr out. frame_read out (set tr))"
  by (cases "read_of key"; cases policy)
     (auto simp: readShadowFrame_def startPayloadReadForShadow_def startMeasuredPayloadRead_def startPayloadRead_def
        validateFrameAge_def validateReadResult_def obs frame_read_def read_frame_def write_free_def Let_def
        split: sum.splits valid_read.splits raw_read.splits frame_age.splits option.splits)

definition value_loaded :: "redis_cache \<Rightarrow> DialCacheKey \<Rightarrow> payload \<Rightarrow> ('v req \<times> 'v ans) set \<Rightarrow> 'v \<Rightarrow> bool" where
  "value_loaded rc key p E v \<longleftrightarrow> (QLoad (serializerFor rc key) (loaded_payload rc p), AVal v) \<in> E"

lemma deserializeForShadow_events:
  "observes (deserializeForShadow rc key p) (\<lambda>tr out. write_free (set tr) \<and> (\<forall>v. out = Inr v \<longrightarrow> value_loaded rc key p (set tr) v))"
  by (simp add: deserializeForShadow_def obs write_free_def value_loaded_def)

text \<open>A write of the value the source gave, as the serializer dumped it, under the key's own frame key.\<close>

definition writes_value :: "redis_cache \<Rightarrow> DialCacheKey \<Rightarrow> ('v req \<times> 'v ans) set \<Rightarrow> 'v \<Rightarrow> write_request \<Rightarrow> bool" where
  "writes_value rc key E v w \<longleftrightarrow>
     wr_valueKey w = redisKey key \<and>
     (\<exists>p. (QDump (serializerFor rc key) v, APayload p) \<in> E \<and> enveloped rc p = Inr (wr_value w))"

lemma putForShadow_events:
  "observes (putForShadow rc key v config fence) (\<lambda>tr out.
     (\<forall>w a. (QWrite w, a) \<in> set tr \<longrightarrow> writes_value rc key (set tr) v w) \<and>
     (out = Inr True \<longrightarrow> (\<exists>w. (QWrite w, AUnit) \<in> set tr)) \<and> (out = Inr False \<longrightarrow> write_free (set tr)))"
  by (cases "cacheTtlSecToMs (retentionTtlSecFor config)"; cases "trackForInvalidation key"; cases fence)
     (auto simp: putForShadow_def putWithLayer_def obs Let_def writes_value_def write_free_def split: sum.splits)

subsection \<open>Verdicts are sound\<close>

text \<open>The source's value: the caller's own run for a job started from Redis, a run of its own otherwise.\<close>

definition sourced :: "run_start \<Rightarrow> ('v sreq, 'v sans) trace \<Rightarrow> 'v \<Rightarrow> bool" where
  "sourced start tr v \<longleftrightarrow>
     (case start of RunRedis _ \<Rightarrow> (SSharedSource, SVal v) \<in> set tr | RunRetained \<Rightarrow> (SDisabledSource, SVal v) \<in> set tr)"

text \<open>The job compared the value loaded from \<open>f\<close>, the frame that was served or read first, with the source's.\<close>

definition compared ::
  "redis_cache \<Rightarrow> DialCacheKey \<Rightarrow> run_start \<Rightarrow> shadow_flight \<Rightarrow> ('v sreq, 'v sans) trace \<Rightarrow> frame \<Rightarrow> 'v \<Rightarrow> 'v \<Rightarrow> bool \<Rightarrow> bool" where
  "compared rc key start fl0 tr f cv sv result \<longleftrightarrow>
     (sf_cachedFrame fl0 = Some f \<or> read_frame (base tr) f) \<and> value_loaded rc key (fr_payload f) (base tr) cv \<and>
     sourced start tr sv \<and> (SCompare cv sv, SBool result) \<in> set tr"

definition verdict_ok ::
  "redis_cache \<Rightarrow> DialCacheKey \<Rightarrow> run_start \<Rightarrow> shadow_flight \<Rightarrow> log_plan option \<Rightarrow> ('v sreq, 'v sans) trace \<Rightarrow>
   'v verdict \<Rightarrow> shadow_flight \<Rightarrow> bool" where
  "verdict_ok rc key start fl0 logPlan tr v fl \<longleftrightarrow>
     (vd_outcome v \<in> {sv_match, sv_mismatch, sv_superseded, sv_filled, sv_fill_fenced} \<longrightarrow> \<not> sf_abandoned fl) \<and>
     (vd_outcome v = sv_match \<longrightarrow> (\<exists>f cv sv. compared rc key start fl0 tr f cv sv True)) \<and>
     (vd_outcome v = sv_mismatch \<longrightarrow>
        (\<exists>f cv sv tr1 tr2 g. tr = tr1 @ tr2 \<and> compared rc key start fl0 tr1 f cv sv False \<and> read_frame (base tr2) g \<and>
           redisPayloadsEqual (fr_payload f) (fr_payload g) \<and> vd_details v = map_option (\<lambda>p. (p, cv, sv)) logPlan)) \<and>
     (vd_outcome v \<noteq> sv_mismatch \<longrightarrow> vd_details v = None) \<and>
     (vd_outcome v = sv_filled \<longrightarrow> (\<exists>w. (QWrite w, AUnit) \<in> base tr)) \<and>
     (\<forall>w a. (QWrite w, a) \<in> base tr \<longrightarrow>
        vd_outcome v \<in> {sv_filled, sv_fill_error, sv_timeout} \<and>
        (\<exists>config sv. start = RunRedis config \<and> sourced start tr sv \<and> writes_value rc key (base tr) sv w))"

lemma sourced_append [simp]: "sourced start tr v \<Longrightarrow> sourced start (tr @ tr') v"
  by (auto simp: sourced_def split: run_start.splits)

lemma compared_append: "compared rc key start fl0 tr f cv sv b \<Longrightarrow> compared rc key start fl0 (tr @ tr') f cv sv b"
  by (auto simp: compared_def value_loaded_def intro: read_frame_mono)

lemma verdict_ok_frame: "verdict_ok rc key start fl0 logPlan tr v (fl\<lparr>sf_cachedFrame := f\<rparr>) = verdict_ok rc key start fl0 logPlan tr v fl"
  by (simp add: verdict_ok_def)

text \<open>The outcomes that claim nothing: an error or a timeout of a job that wrote nothing.\<close>

lemma verdict_ok_error:
  assumes "write_free (base tr)"
    "outcome \<in> {sv_timeout, sv_redis_error, sv_source_error, sv_deserialization_error, sv_comparison_error, sv_confirmation_error}"
  shows "verdict_ok rc key start fl0 logPlan tr (just outcome) fl"
  using assms by (auto simp: verdict_ok_def write_free_def)

lemma verdict_ok_mismatch:
  assumes "compared rc key start fl0 pre f cv sv False" "write_free (base pre)" "read_frame (base tr) g" "write_free (base tr)"
    "redisPayloadsEqual (fr_payload f) (fr_payload g)" "\<not> sf_abandoned fl"
  shows "verdict_ok rc key start fl0 logPlan (pre @ tr)
     \<lparr>vd_outcome = sv_mismatch, vd_details = map_option (\<lambda>p. (p, cv, sv)) logPlan, vd_age = age\<rparr> fl"
proof -
  have "\<exists>f' cv' sv' tr1 tr2 g. pre @ tr = tr1 @ tr2 \<and> compared rc key start fl0 tr1 f' cv' sv' False \<and> read_frame (base tr2) g \<and>
      redisPayloadsEqual (fr_payload f') (fr_payload g) \<and> map_option (\<lambda>p. (p, cv, sv)) logPlan = map_option (\<lambda>p. (p, cv', sv')) logPlan"
    using assms(1,3,5) by blast
  moreover have "(QWrite w, a) \<notin> base (pre @ tr)" for w a using assms(2,4) by (simp add: write_free_def)
  ultimately show ?thesis using assms(6) by (simp add: verdict_ok_def)
qed

abbreviation job_ok ::
  "redis_cache \<Rightarrow> DialCacheKey \<Rightarrow> run_start \<Rightarrow> shadow_flight \<Rightarrow> log_plan option \<Rightarrow> ('v sreq, 'v sans) trace \<Rightarrow>
   ('v sreq, 'v sans) trace \<Rightarrow> ('v verdict \<times> shadow_flight) res \<Rightarrow> bool" where
  "job_ok rc key start fl0 logPlan pre tr out \<equiv> \<exists>v fl. out = Inr (v, fl) \<and> verdict_ok rc key start fl0 logPlan (pre @ tr) v fl"

lemma shadowConfirm_sound:
  assumes pre: "compared rc key start fl0 pre f cv sv False" "write_free (base pre)" and fl: "sf_cachedFrame fl = Some f"
  shows "always sanswered (shadowConfirm rc key t c logPlan cv sv fl) (job_ok rc key start fl0 logPlan pre)"
  unfolding shadowConfirm_def
proof (rule shadowed_rule [where P = "\<lambda>evs out. frame_read out evs", OF readShadowFrame_events], goal_cases)
  case tr: (1 tr r fl1 evs)
  have free: "write_free (base tr)" using tr(2,3) by (auto simp: frame_read_def write_free_def)
  have read: "read_frame (base tr) g" if "r = Inr (ValidFrame g)" for g
    using tr(2,3) that by (auto simp: frame_read_def read_frame_def)
  have mismatch: "verdict_ok rc key start fl0 logPlan (pre @ tr @ tr' @ [(SBase QDateNow, SAns (AInt n))])
      \<lparr>vd_outcome = sv_mismatch, vd_details = map_option (\<lambda>p. (p, cv, sv)) logPlan, vd_age = age\<rparr> fl'"
    if "r = Inr (ValidFrame g)" "redisPayloadsEqual (fr_payload f) (fr_payload g)" "base tr' = {}" "\<not> sf_abandoned fl'" for tr' g n age fl'
    using that pre free read [OF that(1)] by (intro verdict_ok_mismatch [where f = f and g = g]) (auto intro: read_frame_mono)
  show ?case
  proof (cases r)
    case (Inr result)
    have superseded: "verdict_ok rc key start fl0 logPlan (pre @ tr @ tr') (just sv_superseded) fl'"
      if "base tr' = {}" "\<not> sf_abandoned fl'" for tr' fl'
      using that pre free by (auto simp: verdict_ok_def write_free_def)
    from Inr show ?thesis
      using later_live [OF tr(1)] fl pre free mismatch superseded
      by (auto intro!: unlessExpired_rule verdict_ok_error simp: always_pbind always_sDateNow split: valid_read.split)
  qed (use pre free in \<open>auto intro!: verdict_ok_error\<close>)
qed

lemma shadowCompare_sound:
  assumes pre: "sourced start pre sv" "write_free (base pre)"
    and fl: "\<forall>f. sf_cachedFrame fl = Some f \<longrightarrow> sf_cachedFrame fl0 = Some f \<or> read_frame (base pre) f"
  shows "always sanswered (shadowCompare rc key t c logPlan sv fl) (job_ok rc key start fl0 logPlan pre)"
proof (cases "sf_cachedFrame fl")
  case (Some f)
  show ?thesis unfolding shadowCompare_def Some option.case
  proof (rule shadowed_rule [where P = "\<lambda>evs out. write_free evs \<and> (\<forall>v. out = Inr v \<longrightarrow> value_loaded rc key (fr_payload f) evs v)",
        OF deserializeForShadow_events], goal_cases)
    case tr: (1 tr r fl1 evs)
    have free: "write_free (base tr)" using tr(2,3) by (auto simp: write_free_def)
    show ?case
    proof (cases r)
      case (Inr cv)
      have cmp: "compared rc key start fl0 (pre @ tr @ tr1 @ (SCompare cv sv, SBool b) # tr2) f cv sv b" for tr1 tr2 b
        using tr(2,3) Inr pre(1) fl Some by (auto simp: compared_def value_loaded_def intro: read_frame_mono)
      show ?thesis unfolding Inr fst_conv snd_conv sum.case
      proof (rule unlessExpired_rule, goal_cases)
        case (2 tr1)
        have live: "fl1 = fl" using later_live [OF tr(1) 2(2)] .
        have confirm: "always sanswered (shadowConfirm rc key t c logPlan cv sv fl)
            (\<lambda>tr3. job_ok rc key start fl0 logPlan pre (tr @ tr1 @ (SCompare cv sv, SBool False) # tr2 @ tr3))" if "base tr2 = {}" for tr2
          using shadowConfirm_sound [OF cmp [of tr1 False tr2], where fl = fl and t = t and c = c and logPlan = logPlan] pre(2) free 2(1) that Some by simp
        have matched: "verdict_ok rc key start fl0 logPlan (pre @ tr @ tr1 @ (SCompare cv sv, SBool True) # tr2 @ [(SBase QDateNow, SAns (AInt n))])
            \<lparr>vd_outcome = sv_match, vd_details = None, vd_age = age\<rparr> fl" if "base tr2 = {}" "\<not> sf_abandoned fl" for tr2 n age
          using cmp [of tr1 True] pre(2) free 2(1) that by (auto simp: verdict_ok_def write_free_def)
        show ?case unfolding live
          using pre free 2(1) confirm matched
          by (auto intro!: unlessExpired_rule resume_rule sDateNow_rule verdict_ok_error)
      qed (use pre free in \<open>auto intro!: verdict_ok_error\<close>)
    qed (use pre free in \<open>auto intro!: verdict_ok_error\<close>)
  qed
qed (use pre in \<open>auto simp: shadowCompare_def intro!: verdict_ok_error\<close>)

lemma shadowFill_sound:
  assumes pre: "sourced (RunRedis cfg) pre sv" "write_free (base pre)"
  shows "always sanswered (shadowFill rc key c config w sv fl) (job_ok rc key (RunRedis cfg) fl0 logPlan pre)"
  unfolding shadowFill_def
proof (rule shadowed_rule [where P = "\<lambda>evs out. (\<forall>w a. (QWrite w, a) \<in> evs \<longrightarrow> writes_value rc key evs sv w) \<and>
      (out = Inr True \<longrightarrow> (\<exists>w. (QWrite w, AUnit) \<in> evs)) \<and> (out = Inr False \<longrightarrow> write_free evs)", OF putForShadow_events], goal_cases)
  case tr: (1 tr r fl1 evs)
  have writes: "writes_value rc key (base tr) sv w" if "(QWrite w, a) \<in> base tr" for w a
    using tr(2,3) that by (auto simp: writes_value_def)
  have acked: "\<exists>w. (QWrite w, AUnit) \<in> base tr" if "r = Inr True" using tr(2,3) that by auto
  have fenced: "write_free (base tr)" if "r = Inr False" using tr(2,3) that by (auto simp: write_free_def)
  have ok: "verdict_ok rc key (RunRedis cfg) fl0 logPlan (pre @ tr @ tr') (just outcome) fl'"
    if "base tr' = {}" "outcome \<in> {sv_timeout, sv_fill_error} \<or>
        \<not> sf_abandoned fl' \<and> (outcome = sv_filled \<and> r = Inr True \<or> outcome = sv_fill_fenced \<and> r = Inr False)" for tr' outcome fl'
  proof -
    have "writes_value rc key (base (pre @ tr @ tr')) sv w" if "(QWrite w, a) \<in> base tr" for w a
      using writes [OF that] by (auto simp: writes_value_def)
    moreover have "sourced (RunRedis cfg) (pre @ tr @ tr') sv" using pre(1) by simp
    ultimately show ?thesis using that pre acked fenced
      by (auto simp: verdict_ok_def write_free_def intro!: exI [of "\<lambda>v. _ v \<and> _ v" sv])
  qed
  show ?case
  proof (cases r)
    case (Inr filled)
    then show ?thesis using ok by (cases filled) (auto intro!: unlessExpired_rule)
  qed (use ok in \<open>auto simp: all_base_answers\<close>)
qed

lemma shadowSource_sound:
  assumes pre: "write_free (base pre)"
    and k: "\<And>tr v fl'. later fl fl' \<Longrightarrow> base tr = {} \<Longrightarrow> sourced start (pre @ tr) v \<Longrightarrow>
       always sanswered (k v fl') (\<lambda>tr'. job_ok rc key start fl0 logPlan pre (tr @ tr'))"
  shows "always sanswered (shadowSource start k fl) (job_ok rc key start fl0 logPlan pre)"
proof (cases start)
  case (RunRedis cfg)
  have src: "sourced start (pre @ (SSharedSource, SVal v) # tr) v" for v tr by (simp add: sourced_def RunRedis)
  have "always sanswered (k v fl2) (\<lambda>tr'. job_ok rc key start fl0 logPlan pre ((SSharedSource, SVal v) # tr1 @ (SYield, SDone) # tr2 @ tr'))"
    if "later fl fl1" "later fl1 fl2" "base tr1 = {}" "base tr2 = {}" for v fl1 fl2 tr1 tr2
    using k [OF later_trans [OF that(1,2)] _ src [of v "tr1 @ (SYield, SDone) # tr2"]] that(3,4) by simp
  with pre show ?thesis unfolding RunRedis
    by (auto simp: shadowSource_def intro!: resume_rule verdict_ok_error)
next
  case RunRetained
  have src: "sourced start (pre @ (SDisabledSource, SVal v) # tr) v" for v tr by (simp add: sourced_def RunRetained)
  have "always sanswered (k v fl1) (\<lambda>tr'. job_ok rc key start fl0 logPlan pre ((SDisabledSource, SVal v) # tr1 @ tr'))"
    if "later fl fl1" "base tr1 = {}" for v fl1 tr1
    using k [OF that(1) _ src [of v tr1]] that(2) by simp
  with pre show ?thesis unfolding RunRetained
    by (auto simp: shadowSource_def intro!: resume_rule verdict_ok_error)
qed

lemma shadowAfterRead_sound:
  assumes pre: "write_free (base pre)" and fill: "fill \<noteq> None \<longrightarrow> (\<exists>cfg. start = RunRedis cfg)"
    and fl: "\<forall>f. sf_cachedFrame fl = Some f \<longrightarrow> sf_cachedFrame fl0 = Some f \<or> read_frame (base pre) f"
  shows "always sanswered (shadowAfterRead rc key c start t logPlan fill fl) (job_ok rc key start fl0 logPlan pre)"
  unfolding shadowAfterRead_def
proof (rule shadowSource_sound [OF pre], rule unlessExpired_rule, goal_cases)
  case (1 tr v fl1 tr1 fl2)
  with pre show ?case by (auto intro!: verdict_ok_error)
next
  case (2 tr v fl1 tr1)
  have live: "fl1 = fl" using later_live [OF 2(1,5)] .
  have src: "sourced start ((pre @ tr) @ tr1) v" using 2(3) by (rule sourced_append)
  show ?case
  proof (cases fill)
    case None
    have "always sanswered (shadowCompare rc key t c logPlan v fl) (job_ok rc key start fl0 logPlan ((pre @ tr) @ tr1))"
      using src pre fl 2(2,4) by (intro shadowCompare_sound) auto
    with None live show ?thesis by simp
  next
    case (Some p)
    with fill obtain cfg where "start = RunRedis cfg" by auto
    then have "always sanswered (shadowFill rc key c (fst p) (snd p) v fl) (job_ok rc key start fl0 logPlan ((pre @ tr) @ tr1))"
      using shadowFill_sound [of cfg "(pre @ tr) @ tr1" v rc key c "fst p" "snd p" fl fl0 logPlan] src pre 2(2,4) by simp
    with Some live show ?thesis by (simp add: case_prod_beta)
  qed
qed

lemma shadowInitialRead_sound:
  "always sanswered (shadowInitialRead rc key t c config (shadowAfterRead rc key c (RunRedis config) t logPlan) fl)
     (job_ok rc key (RunRedis config) fl logPlan pre)"
  if "write_free (base pre)"
  unfolding shadowInitialRead_def
proof (rule shadowed_rule [where P = "\<lambda>evs out. frame_read out evs", OF readShadowFrame_events], goal_cases)
  case tr: (1 tr r fl1 evs)
  have free: "write_free (base (pre @ tr))" using that tr(2,3) by (auto simp: frame_read_def write_free_def)
  have err: "verdict_ok rc key (RunRedis config) fl logPlan (pre @ tr @ tr') (just outcome) fl'"
    if "base tr' = {}" "outcome \<in> {sv_timeout, sv_redis_error}" for tr' outcome fl'
    using that free by (intro verdict_ok_error) auto
  show ?case
  proof (cases r)
    case (Inr result)
    show ?thesis unfolding Inr fst_conv snd_conv sum.case
    proof (rule unlessExpired_rule, goal_cases)
      case (2 tr1)
      have live: "fl1 = fl" using later_live [OF tr(1) 2(2)] .
      have free': "write_free (base ((pre @ tr) @ tr1))" using free 2(1) by simp
      show ?case
      proof (cases result)
        case (ValidFrame f)
        have "read_frame (base ((pre @ tr) @ tr1)) f" using tr(2,3) Inr ValidFrame by (auto simp: frame_read_def read_frame_def)
        with shadowAfterRead_sound [OF free', of None "RunRedis config" "fl1\<lparr>sf_cachedFrame := Some f\<rparr>" fl] ValidFrame show ?thesis
          by simp
      next
        case (ValidMiss _ w)
        with shadowAfterRead_sound [OF free', of "Some (config, w)" "RunRedis config" fl1 fl] live show ?thesis by simp
      qed
    qed (use err in auto)
  qed (use err [of "[]"] in auto)
qed

text \<open>
  C10. The verdict of a shadow job, on every answer of the clock, the timer, Redis, the serializer, the source and the
  comparator. The job never throws and drops its frame. A match or mismatch was decided by the comparator on the
  value loaded from the frame served or first read and on the source's value: the caller's own run for a job started
  from Redis, a run of its own otherwise. A mismatch was also confirmed by a later read of an equal payload, and only it
  carries values to log. A job whose deadline passed reports no match, mismatch, supersession or fill. Redis is written
  only by a job that started there, with the source's value under the key's own frame key, and the report says so.
\<close>

theorem shadow_verdict_sound:
  "always sanswered (shadowOperation rc key c start readTimeoutMs logPlan fl) (\<lambda>tr out.
     \<exists>v fl'. out = Inr (v, fl') \<and> sf_cachedFrame fl' = None \<and> verdict_ok rc key start fl logPlan tr v fl')"
proof -
  have "always sanswered (unlessExpired c fl (\<lambda>fl. case start of
            RunRedis config \<Rightarrow> shadowInitialRead rc key readTimeoutMs c config (shadowAfterRead rc key c start readTimeoutMs logPlan) fl
          | RunRetained \<Rightarrow> shadowAfterRead rc key c start readTimeoutMs logPlan None fl)) (job_ok rc key start fl logPlan [])"
  proof (rule unlessExpired_rule, goal_cases)
    case (1 tr fl')
    then show ?case by (auto intro!: verdict_ok_error)
  next
    case (2 tr)
    then have free: "write_free (base tr)" by simp
    show ?case
    proof (cases start)
      case RunRetained
      then show ?thesis using shadowAfterRead_sound [OF free, of None start fl fl] by simp
    next
      case (RunRedis config)
      then show ?thesis using shadowInitialRead_sound [OF free] by simp
    qed
  qed
  then show ?thesis unfolding shadowOperation_def
  proof (rule always_pbindI, goal_cases)
    case (2 tr x)
    then have "verdict_ok rc key start fl logPlan tr (fst x) (snd x)" by (cases x) simp
    then show ?case by (simp add: verdict_ok_frame)
  qed simp
qed

text \<open>A job that validates a served frame: its source and its frame agree, well before the deadline.\<close>

lemma shadow_match_run:
  "\<exists>tr fl'. runs sanswered (shadowOperation sample_redis sample_key \<lparr>sc_startedAtMs = 0, sc_timeoutMs = 100\<rparr>
       RunRetained 50 None \<lparr>sf_cachedFrame = Some \<lparr>fr_payload = Text (js ''7''), fr_createdAtMs = JNum (Fin 1000)\<rparr>, sf_abandoned = False\<rparr>)
     tr (Inr (\<lparr>vd_outcome = sv_match, vd_details = None, vd_age = Some 2\<rparr> :: nat verdict, fl'))"
proof -
  let ?p = "shadowOperation sample_redis sample_key \<lparr>sc_startedAtMs = 0, sc_timeoutMs = 100\<rparr>
       RunRetained 50 None \<lparr>sf_cachedFrame = Some \<lparr>fr_payload = Text (js ''7''), fr_createdAtMs = JNum (Fin 1000)\<rparr>, sf_abandoned = False\<rparr>
       :: nat shadow_job"
  let ?now = "\<lambda>t. SAns (ARat t)"
  have "\<exists>tr fl'. replay ?p [?now 1, SVal 7, SBool False, ?now 2, ?now 3, ?now 3, SAns (AVal 7), SBool False, ?now 4, SBool True, ?now 5, SAns (AInt 3000)]
      = Some (tr, Inr (\<lparr>vd_outcome = sv_match, vd_details = None, vd_age = Some 2\<rparr>, fl')) \<and> list_all (\<lambda>(q, a). sanswered q a) tr"
    by (simp add: shadowOperation_def unlessExpired_def abandonIfExpired_def sPerfNow_def sDateNow_def shadowAfterRead_def shadowSource_def
        resume_def shadowCompare_def deserializeForShadow_def deserializePayload_def ask_def perfNow_def pfinally_def attempt_def
        metric_def metric_elapsed_def shadowValueAgeSeconds_def MAX_TIME_VALUE_def decompressPayload_def sample_redis_def) (intro conjI exI [of _ True] exI [of _ False], simp_all)
  then show ?thesis by (blast intro: replay_runs)
qed

subsection \<open>What is reported\<close>

definition warned :: "('v sreq, 'v sans) trace \<Rightarrow> shadow_warning list" where
  "warned tr = List.map_filter (\<lambda>(q, _). case q of SWarn w \<Rightarrow> Some w | _ \<Rightarrow> None) tr"

definition metrics_of :: "('v sreq, 'v sans) trace \<Rightarrow> metric_event list" where
  "metrics_of tr = List.map_filter (\<lambda>(q, _). case q of SBase (QMetric e) \<Rightarrow> Some e | _ \<Rightarrow> None) tr"

lemma trace_parts [simp]:
  "warned [] = []" "warned (tr @ tr') = warned tr @ warned tr'" "warned ((SWarn w, a) # tr) = w # warned tr"
  "warned ((SBase q, a) # tr) = warned tr"
  "metrics_of [] = []" "metrics_of (tr @ tr') = metrics_of tr @ metrics_of tr'"
  "metrics_of ((SBase (QMetric e), a) # tr) = e # metrics_of tr" "metrics_of ((SWarn w, a) # tr) = metrics_of tr"
  by (simp_all add: warned_def metrics_of_def map_filter_simps) (simp_all add: List.map_filter_def)

lemma always_sMetric: "always sanswered (sMetric p e) Q \<longleftrightarrow> (if p then Q [(SBase (QMetric e), SAns AUnit)] (Inr ()) else Q [] (Inr ()))"
  by (auto simp: sMetric_def)

lemma warning_content_bounded:
  "\<exists>k content. warning_content rn key plan cv sv = (Some k, content) \<and> byteLength k \<le> 2048 \<and>
     fields_of_plan plan (ct_fields content) \<and> fields_bounded (ct_fields content) \<and> nulls_reported content"
proof -
  obtain k where "previewShadowLogKey (urn key) = Inr k" "byteLength k \<le> 2048"
    using clamp_total [of SHADOW_LOG_KEY_MAX_BYTES "urn key"] by (auto simp: previewShadowLogKey_def log_bounds)
  then show ?thesis
    using shadow_log_bounded [of "rn_number rn" "rn_json rn" "rn_undefined rn" plan cv sv "rn_hook rn"]
    by (auto simp: warning_content_def)
qed


end
