(* ===== verification/ShadowTable.thy ===== *)
theory ShadowTable
  imports ShadowValidation
begin

section \<open>The table of shadow flights\<close>

text \<open>
  \<^verbatim>\<open>shadowFlights\<close> of \<^verbatim>\<open>dialcache.ts\<close> across jobs: admission (\<^verbatim>\<open>scheduleShadowValidation\<close>) and the release rule of
  \<^verbatim>\<open>runShadowValidation\<close>, which frees a job's slot only when its operation has finished and every Redis read it
  started has settled, even when the deadline rejected long before. A flight is named by the position of its job in the
  list of all jobs. Jobs interleave freely.
\<close>

record shadow_slot =
  sj_urn :: jsstring
  sj_pending :: nat
  sj_finished :: bool
  sj_released :: bool

record shadow_table =
  st_flights :: "(jsstring \<times> nat) list"
  st_jobs :: "shadow_slot list"

definition admitShadow :: "nat \<Rightarrow> jsstring \<Rightarrow> shadow_table \<Rightarrow> nat option \<times> shadow_table" where
  "admitShadow maxInFlight u st =
     (if map_of (st_flights st) u \<noteq> None \<or> length (st_flights st) \<ge> maxInFlight then (None, st)
      else (Some (length (st_jobs st)),
            st\<lparr>st_flights := st_flights st @ [(u, length (st_jobs st))],
               st_jobs := st_jobs st @ [\<lparr>sj_urn = u, sj_pending = 0, sj_finished = False, sj_released = False\<rparr>]\<rparr>))"

definition update_job :: "nat \<Rightarrow> (shadow_slot \<Rightarrow> shadow_slot) \<Rightarrow> shadow_table \<Rightarrow> shadow_table" where
  "update_job i f st = st\<lparr>st_jobs := (st_jobs st)[i := f (st_jobs st ! i)]\<rparr>"

definition release :: "nat \<Rightarrow> shadow_table \<Rightarrow> shadow_table" where
  "release i st =
     (let job = st_jobs st ! i in
      if sj_released job then st
      else
        let st' = update_job i (\<lambda>j. j\<lparr>sj_released := True\<rparr>) st in
        if map_of (st_flights st') (sj_urn job) = Some i
        then st'\<lparr>st_flights := filter (\<lambda>(u, _). u \<noteq> sj_urn job) (st_flights st')\<rparr>
        else st')"

definition maybeRelease :: "nat \<Rightarrow> shadow_table \<Rightarrow> shadow_table" where
  "maybeRelease i st =
     (if sj_finished (st_jobs st ! i) \<and> sj_pending (st_jobs st ! i) = 0 then release i st else st)"

definition finishOperation :: "nat \<Rightarrow> shadow_table \<Rightarrow> shadow_table" where
  "finishOperation i st = maybeRelease i (update_job i (\<lambda>j. j\<lparr>sj_finished := True\<rparr>) st)"

definition startShadowRead :: "nat \<Rightarrow> shadow_table \<Rightarrow> shadow_table" where
  "startShadowRead i st = update_job i (\<lambda>j. j\<lparr>sj_pending := sj_pending j + 1\<rparr>) st"

definition settleShadowRead :: "nat \<Rightarrow> shadow_table \<Rightarrow> shadow_table" where
  "settleShadowRead i st = maybeRelease i (update_job i (\<lambda>j. j\<lparr>sj_pending := sj_pending j - 1\<rparr>) st)"

text \<open>A running operation starts reads; a started read settles once; an operation finishes once.\<close>

inductive shadow_step :: "nat \<Rightarrow> shadow_table \<Rightarrow> shadow_table \<Rightarrow> bool" for maxInFlight where
  step_admit: "shadow_step maxInFlight st (snd (admitShadow maxInFlight u st))"
| step_read: "i < length (st_jobs st) \<Longrightarrow> \<not> sj_finished (st_jobs st ! i) \<Longrightarrow> shadow_step maxInFlight st (startShadowRead i st)"
| step_settled: "i < length (st_jobs st) \<Longrightarrow> 0 < sj_pending (st_jobs st ! i) \<Longrightarrow> shadow_step maxInFlight st (settleShadowRead i st)"
| step_finished: "i < length (st_jobs st) \<Longrightarrow> \<not> sj_finished (st_jobs st ! i) \<Longrightarrow> shadow_step maxInFlight st (finishOperation i st)"

inductive_cases shadow_stepE: "shadow_step maxInFlight st st'"

definition empty_table :: shadow_table where
  "empty_table = \<lparr>st_flights = [], st_jobs = []\<rparr>"

subsection \<open>The invariant\<close>

text \<open>A job is live until its operation finished and its reads settled; the table holds exactly the live jobs.\<close>

definition live :: "shadow_table \<Rightarrow> nat \<Rightarrow> bool" where
  "live st i \<longleftrightarrow> i < length (st_jobs st) \<and> \<not> (sj_finished (st_jobs st ! i) \<and> sj_pending (st_jobs st ! i) = 0)"

definition table_inv :: "nat \<Rightarrow> shadow_table \<Rightarrow> bool" where
  "table_inv maxInFlight st \<longleftrightarrow>
     distinct (map fst (st_flights st)) \<and> length (st_flights st) \<le> maxInFlight \<and>
     (\<forall>u i. (u, i) \<in> set (st_flights st) \<longleftrightarrow> live st i \<and> sj_urn (st_jobs st ! i) = u) \<and>
     (\<forall>i < length (st_jobs st). sj_released (st_jobs st ! i) \<longleftrightarrow> \<not> live st i)"

lemma table_inv_empty: "table_inv maxInFlight empty_table"
  by (simp add: table_inv_def empty_table_def live_def)

lemma table_inv_flight:
  assumes "table_inv m st"
  shows "map_of (st_flights st) u = Some i \<longleftrightarrow> live st i \<and> sj_urn (st_jobs st ! i) = u"
  using assms map_of_eq_Some_iff [of "st_flights st" u i] by (simp add: table_inv_def)

lemma table_inv_admit:
  assumes "table_inv m st"
  shows "table_inv m (snd (admitShadow m u st))"
proof (cases "map_of (st_flights st) u \<noteq> None \<or> length (st_flights st) \<ge> m")
  case False
  then have "u \<notin> fst ` set (st_flights st)" by (simp add: map_of_eq_None_iff)
  then show ?thesis using assms False
    by (auto simp: admitShadow_def table_inv_def live_def nth_append less_Suc_eq)
qed (use assms in \<open>auto simp: admitShadow_def\<close>)

text \<open>An update that keeps a job live and its URN keeps the invariant; one that ends it is followed by the release.\<close>

lemma table_inv_update:
  assumes "table_inv m st" "live st i" "sj_urn (f (st_jobs st ! i)) = sj_urn (st_jobs st ! i)"
    "sj_released (f (st_jobs st ! i)) = sj_released (st_jobs st ! i)"
  shows "table_inv m (maybeRelease i (update_job i f st))"
proof -
  let ?job = "st_jobs st ! i" let ?st = "update_job i f st"
  have i: "i < length (st_jobs st)" using assms(2) by (simp add: live_def)
  have unreleased: "\<not> sj_released ?job" using assms(1,2) i by (simp add: table_inv_def)
  have others: "live ?st j \<longleftrightarrow> live st j" "st_jobs ?st ! j = st_jobs st ! j" if "j \<noteq> i" for j
    using that by (simp_all add: live_def update_job_def)
  have at: "st_jobs ?st ! i = f ?job" "length (st_jobs ?st) = length (st_jobs st)" "st_flights ?st = st_flights st"
    using i by (simp_all add: update_job_def)
  show ?thesis
  proof (cases "sj_finished (f ?job) \<and> sj_pending (f ?job) = 0")
    case False
    then have "live ?st i" using i at by (auto simp: live_def)
    then have "live ?st j \<longleftrightarrow> live st j" "sj_urn (st_jobs ?st ! j) = sj_urn (st_jobs st ! j)"
      "sj_released (st_jobs ?st ! j) = sj_released (st_jobs st ! j)" for j
      using others [of j] assms at by (cases "j = i", simp_all)+
    moreover have "maybeRelease i ?st = ?st" using False at by (auto simp: maybeRelease_def)
    ultimately show ?thesis using assms(1) by (simp add: at table_inv_def)
  next
    case True
    let ?ended = "update_job i (\<lambda>j. j\<lparr>sj_released := True\<rparr>) ?st"
    let ?st' = "?ended\<lparr>st_flights := filter (\<lambda>(u, _). u \<noteq> sj_urn ?job) (st_flights st)\<rparr>"
    have "map_of (st_flights st) (sj_urn ?job) = Some i" using table_inv_flight [OF assms(1)] assms(2) by simp
    then have released: "maybeRelease i ?st = ?st'"
      using True unreleased assms(3,4) at by (simp add: maybeRelease_def release_def Let_def update_job_def)
    have alone: "j = i" if "live st j" "sj_urn (st_jobs st ! j) = sj_urn ?job" for j
      using that table_inv_flight [OF assms(1), of "sj_urn ?job"] assms(2) by (metis option.inject)
    have i': "\<not> live ?st' i" "sj_released (st_jobs ?st' ! i)" using True i at by (auto simp: live_def update_job_def)
    have others': "live ?st' j \<longleftrightarrow> live st j" "st_jobs ?st' ! j = st_jobs st ! j" if "j \<noteq> i" for j
      using that by (simp_all add: live_def update_job_def)
    have flights: "(u, j) \<in> set (st_flights ?st') \<longleftrightarrow> live ?st' j \<and> sj_urn (st_jobs ?st' ! j) = u" for u j
      using assms(1) alone i' others' [of j] by (cases "j = i") (auto simp: table_inv_def)
    have slots: "sj_released (st_jobs ?st' ! j) \<longleftrightarrow> \<not> live ?st' j" if "j < length (st_jobs ?st')" for j
      using that assms(1) i' others' [of j] by (cases "j = i") (auto simp: table_inv_def update_job_def)
    have "distinct (map fst (st_flights ?st'))" "length (st_flights ?st') \<le> m"
      using assms(1) by (auto simp: table_inv_def distinct_map_filter intro: order_trans [OF length_filter_le])
    with flights slots show ?thesis unfolding released table_inv_def by blast
  qed
qed

lemma table_inv_step: "shadow_step m st st' \<Longrightarrow> table_inv m st \<Longrightarrow> table_inv m st'"
proof (erule shadow_stepE)
  fix i assume inv: "table_inv m st" and i: "i < length (st_jobs st)" "\<not> sj_finished (st_jobs st ! i)" and "st' = startShadowRead i st"
  then have "st' = maybeRelease i (startShadowRead i st)" by (simp add: maybeRelease_def startShadowRead_def update_job_def)
  with inv i show "table_inv m st'" unfolding startShadowRead_def by (auto intro!: table_inv_update simp: live_def)
qed (auto simp: settleShadowRead_def finishOperation_def live_def intro!: table_inv_admit table_inv_update)

lemma table_inv_reachable: "(shadow_step m)\<^sup>*\<^sup>* empty_table st \<Longrightarrow> table_inv m st"
  by (induction rule: rtranclp_induct) (auto intro: table_inv_empty table_inv_step)

lemma live_jobs_flights:
  assumes "table_inv m st"
  shows "bij_betw snd (set (st_flights st)) {i. live st i}" "card {i. live st i} = length (st_flights st)"
proof -
  have flight: "p \<in> set (st_flights st) \<longleftrightarrow> live st (snd p) \<and> sj_urn (st_jobs st ! snd p) = fst p" for p
    using assms by (cases p) (simp add: table_inv_def)
  have "inj_on snd (set (st_flights st))" by (rule inj_onI) (simp add: flight prod_eq_iff)
  moreover have "snd ` set (st_flights st) = {i. live st i}"
  proof (intro equalityI subsetI)
    fix i assume "i \<in> {i. live st i}"
    then have "(sj_urn (st_jobs st ! i), i) \<in> set (st_flights st)" by (simp add: flight)
    then show "i \<in> snd ` set (st_flights st)" by force
  qed (auto simp: flight)
  ultimately show bij: "bij_betw snd (set (st_flights st)) {i. live st i}" by (simp add: bij_betw_def)
  have "distinct (st_flights st)" using assms by (simp add: table_inv_def distinct_map)
  then show "card {i. live st i} = length (st_flights st)" using bij_betw_same_card [OF bij] by (simp add: distinct_card)
qed

text \<open>
  C12. In every interleaving of jobs: at most \<^verbatim>\<open>shadowMaxInFlight\<close> jobs are live, no two for the same key, a job counts as
  live until its operation finished and all its reads settled, and a new job is refused exactly when its key has a
  live job or the live jobs fill the capacity. Slots therefore neither leak nor free early.
\<close>

theorem shadow_capacity:
  assumes "(shadow_step maxInFlight)\<^sup>*\<^sup>* empty_table st"
  shows "card {i. live st i} \<le> maxInFlight \<and> inj_on (\<lambda>i. sj_urn (st_jobs st ! i)) {i. live st i} \<and>
    (fst (admitShadow maxInFlight u st) = None \<longleftrightarrow>
       (\<exists>i. live st i \<and> sj_urn (st_jobs st ! i) = u) \<or> card {i. live st i} \<ge> maxInFlight)"
proof -
  note inv = table_inv_reachable [OF assms]
  have "inj_on (\<lambda>i. sj_urn (st_jobs st ! i)) {i. live st i}"
    by (rule inj_onI) (use table_inv_flight [OF inv] in \<open>metis mem_Collect_eq option.inject\<close>)
  moreover have "map_of (st_flights st) u \<noteq> None \<longleftrightarrow> (\<exists>i. live st i \<and> sj_urn (st_jobs st ! i) = u)"
    using table_inv_flight [OF inv, of u] by (cases "map_of (st_flights st) u") auto
  ultimately show ?thesis using live_jobs_flights [OF inv] inv by (auto simp: admitShadow_def table_inv_def)
qed

text \<open>One job whose operation finished while its read is pending still fills a capacity of one.\<close>

definition sample_table :: shadow_table where
  "sample_table = finishOperation 0 (startShadowRead 0 (snd (admitShadow 1 (js ''a'') empty_table)))"

theorem shadow_capacity_witness:
  "card {i. live sample_table i} \<le> 1 \<and> fst (admitShadow 1 (js ''b'') sample_table) = None \<and>
   fst (admitShadow 1 (js ''b'') (settleShadowRead 0 sample_table)) \<noteq> None"
proof -
  let ?admitted = "snd (admitShadow 1 (js ''a'') empty_table)"
  have "shadow_step 1 empty_table ?admitted" by (rule step_admit)
  moreover have "shadow_step 1 ?admitted (startShadowRead 0 ?admitted)"
    by (rule step_read) (simp_all add: admitShadow_def empty_table_def)
  moreover have "shadow_step 1 (startShadowRead 0 ?admitted) sample_table" unfolding sample_table_def
    by (rule step_finished) (simp_all add: admitShadow_def empty_table_def startShadowRead_def update_job_def)
  ultimately have "(shadow_step 1)\<^sup>*\<^sup>* empty_table sample_table" by (meson r_into_rtranclp rtranclp_trans)
  from shadow_capacity [OF this, of "js ''b''"] show ?thesis
    by (simp add: sample_table_def admitShadow_def empty_table_def startShadowRead_def finishOperation_def settleShadowRead_def
        maybeRelease_def release_def update_job_def)
qed

end
