(* ===== verification/Adapters.thy ===== *)
theory Adapters
  imports Requests
begin

section \<open>Redis client adapters\<close>

text \<open>
  \<^verbatim>\<open>node-redis.ts\<close>, \<^verbatim>\<open>valkey-glide.ts\<close> and \<^verbatim>\<open>internal/redis-script-reply.ts\<close>: the two clients DialCache ships over
  third-party connections. A connection is what the adapter sends to it: commands with their arguments and the
  routing the call asks for, and the clock. The replies, which the adapters do not trust, are \<open>wire\<close> values.
\<close>

datatype wire = WNull | WBulk bytes | WText jsstring | WNumber jsnum | WArray "wire list" | WOther

fun to_reply :: "wire \<Rightarrow> reply" where
  "to_reply WNull = NullReply"
| "to_reply (WBulk b) = BulkReply b"
| "to_reply _ = OtherReply"

text \<open>The argument vectors the adapters build. The script is named by its digest or sent as source.\<close>

datatype command =
    CGet jsstring
  | CMget jsstring jsstring
  | CBatchMget jsstring jsstring
  | CSet jsstring bytes jsstring
  | CEvalSha jsstring "bytes \<times> bytes"
  | CEval jsstring "bytes \<times> bytes"

text \<open>\<open>ByKey\<close> is the client's own routing of a keyed read; \<open>SlotPrimary\<close> pins the primary of a key's slot; \<open>Direct\<close> is
  a standalone connection.\<close>

datatype route = ByKey | SlotPrimary jsstring | Direct

datatype adapter_req = ADateNow | ASend route command
datatype adapter_ans = ATime int | AReply wire | AFail jserror

type_synonym 'r adapter_prog = "(adapter_req, adapter_ans, 'r) prog"

definition send :: "route \<Rightarrow> command \<Rightarrow> wire adapter_prog" where
  "send r c = Req (ASend r c) (\<lambda>a. case a of AReply w \<Rightarrow> Ret w | AFail e \<Rightarrow> Thr e | ATime _ \<Rightarrow> Thr (PlainError ''reply''))"

definition adapterNow :: "int adapter_prog" where
  "adapterNow = Req ADateNow (\<lambda>a. case a of ATime t \<Rightarrow> Ret t | _ \<Rightarrow> Ret 0)"

record adapter_write =
  aw_valueKey :: jsstring
  aw_cacheTtlMs :: jsval
  aw_value :: payload
  aw_createdAtMs :: jsval

subsection \<open>Replies\<close>

definition validateRedisSetReply :: "wire \<Rightarrow> unit res" where
  "validateRedisSetReply reply =
     (let text = (case reply of WText s \<Rightarrow> Some s | WBulk b \<Rightarrow> Some (utf8_toString b) | _ \<Rightarrow> None) in
      check (text = Some (js ''OK'')) (DialCacheRedisProtocolError ''Invalid DialCache Redis SET reply; expected OK''))"

definition validateRedisScriptInvalidationReply :: "wire \<Rightarrow> unit res" where
  "validateRedisScriptInvalidationReply reply =
     check (reply = WNumber (Fin 1))
       (DialCacheRedisProtocolError ''Invalid DialCache Redis invalidate reply; expected integer 1'')"

definition validateRedisMGetReply :: "wire \<Rightarrow> (wire \<times> wire) res" where
  "validateRedisMGetReply reply =
     (case reply of WArray [a, b] \<Rightarrow> Inr (a, b) | _ \<Rightarrow> Inl DialCacheRedisPayloadError)"

text \<open>\<^verbatim>\<open>String(cacheTtlMs)\<close> of a validated duration.\<close>

definition ttl_text :: "jsnum \<Rightarrow> jsstring" where
  "ttl_text x = nat_digits (nat (int_of_val (JNum x)))"

subsection \<open>node-redis\<close>

definition isNodeRedisClusterClient :: "jsval \<Rightarrow> bool" where
  "isNodeRedisClusterClient masters = is_array masters"

definition sendKeyedCommand :: "bool \<Rightarrow> jsstring \<Rightarrow> command \<Rightarrow> wire adapter_prog" where
  "sendKeyedCommand cluster firstKey c = send (if cluster then SlotPrimary firstKey else Direct) c"

definition readTracked :: "bool \<Rightarrow> jsstring \<Rightarrow> jsstring \<Rightarrow> (wire \<times> wire) adapter_prog" where
  "readTracked cluster valueKey watermarkKey =
     pbind (sendKeyedCommand cluster valueKey (CMget valueKey watermarkKey)) (\<lambda>raw. of_res (validateRedisMGetReply raw))"

definition sendFrameSet :: "bool \<Rightarrow> jsstring \<Rightarrow> bytes \<Rightarrow> jsnum \<Rightarrow> wire adapter_prog" where
  "sendFrameSet cluster valueKey frame cacheTtlMs = sendKeyedCommand cluster valueKey (CSet valueKey frame (ttl_text cacheTtlMs))"

definition nodeRead :: "bool \<Rightarrow> read_request \<Rightarrow> read_result adapter_prog" where
  "nodeRead cluster req =
     (case rd_watermarkKey req of
        None \<Rightarrow> pbind (send ByKey (CGet (rd_valueKey req))) (\<lambda>raw. of_res (decodeRedisReadResult (to_reply raw)))
      | Some watermarkKey \<Rightarrow>
          pbind (readTracked cluster (rd_valueKey req) watermarkKey) (\<lambda>pair.
          of_res (decodeTrackedRedisReadResult (to_reply (fst pair)) (to_reply (snd pair)))))"

definition nodeWrite :: "bool \<Rightarrow> adapter_write \<Rightarrow> unit adapter_prog" where
  "nodeWrite cluster req =
     pbind (of_res (ceilSupportedCacheTtlMs (aw_cacheTtlMs req))) (\<lambda>cacheTtlMs.
     pbind (if aw_createdAtMs req = JUndef then pbind adapterNow (\<lambda>t. Ret (JNum (num_of_int t))) else Ret (aw_createdAtMs req)) (\<lambda>createdAtMs.
     pbind (of_res (encodeRedisFrame (aw_value req) createdAtMs)) (\<lambda>frame.
     pbind (sendFrameSet cluster (aw_valueKey req) frame cacheTtlMs) (\<lambda>reply.
     of_res (validateRedisSetReply reply)))))"

definition nodeInvalidate :: "bool \<Rightarrow> jsstring \<Rightarrow> nat \<Rightarrow> unit adapter_prog" where
  "nodeInvalidate cluster watermarkKey futureBufferMs =
     pbind adapterNow (\<lambda>invalidatedAtMs.
     pbind (of_res (assertValidRedisTimestampMs (JNum (num_of_int invalidatedAtMs)))) (\<lambda>_.
     let invalidateArgs = buildRedisInvalidationScriptArguments futureBufferMs (nat invalidatedAtMs) in
     pbind (pcatch (sendKeyedCommand cluster watermarkKey (CEvalSha watermarkKey invalidateArgs))
              (\<lambda>_. sendKeyedCommand cluster watermarkKey (CEval watermarkKey invalidateArgs))) (\<lambda>raw.
     of_res (validateRedisScriptInvalidationReply raw))))"

subsection \<open>Valkey GLIDE\<close>

text \<open>The runtime's client classes: absent when the supplied object has no \<^verbatim>\<open>Symbol.hasInstance\<close>, otherwise whether the
  client is an instance.\<close>

definition matchesValkeyGlideIdentity :: "bool option \<Rightarrow> string \<Rightarrow> bool res" where
  "matchesValkeyGlideIdentity identity name =
     (case identity of None \<Rightarrow> Inl (PlainError (''Invalid Valkey GLIDE runtime: '' @ name @ '' must support Symbol.hasInstance''))
      | Some b \<Rightarrow> Inr b)"

definition classifyValkeyGlideClient :: "bool option \<Rightarrow> bool option \<Rightarrow> bool res" where
  "classifyValkeyGlideClient standalone cluster =
     res_bind (matchesValkeyGlideIdentity standalone ''GlideClient'') (\<lambda>isStandalone.
     res_bind (matchesValkeyGlideIdentity cluster ''GlideClusterClient'') (\<lambda>isCluster.
     res_bind (check (\<not> (isStandalone \<and> isCluster))
                 (PlainError ''Invalid Valkey GLIDE runtime: client matches both GlideClient and GlideClusterClient'')) (\<lambda>_.
     res_bind (check (isStandalone \<or> isCluster)
                 (PlainError ''Valkey GLIDE DialCache requires a direct GlideClient or GlideClusterClient instance'')) (\<lambda>_.
     Inr isCluster))))"

definition createValkeyGlideDialCacheClient :: "bool \<Rightarrow> bool option \<Rightarrow> bool option \<Rightarrow> bool res" where
  "createValkeyGlideDialCacheClient hasBatch standalone cluster =
     res_bind (check hasBatch (PlainError ''Valkey GLIDE DialCache requires a Batch constructor'')) (\<lambda>_.
     classifyValkeyGlideClient standalone cluster)"

definition keyedOptions :: "bool \<Rightarrow> jsstring \<Rightarrow> route" where
  "keyedOptions isCluster key = (if isCluster then SlotPrimary key else Direct)"

definition glideRead :: "bool \<Rightarrow> read_request \<Rightarrow> read_result adapter_prog" where
  "glideRead isCluster req =
     (case rd_watermarkKey req of
        None \<Rightarrow> pbind (send ByKey (CGet (rd_valueKey req))) (\<lambda>raw. of_res (decodeRedisReadResult (to_reply raw)))
      | Some watermarkKey \<Rightarrow>
          pbind
            (if isCluster then send (keyedOptions isCluster (rd_valueKey req)) (CMget (rd_valueKey req) watermarkKey)
             else pbind (send Direct (CBatchMget (rd_valueKey req) watermarkKey)) (\<lambda>raw.
               case raw of WArray [pair] \<Rightarrow> Ret pair | _ \<Rightarrow> Thr DialCacheRedisPayloadError)) (\<lambda>pair.
          case pair of WArray [a, b] \<Rightarrow> of_res (decodeTrackedRedisReadResult (to_reply a) (to_reply b))
          | _ \<Rightarrow> Thr DialCacheRedisPayloadError))"

definition glideWrite :: "bool \<Rightarrow> adapter_write \<Rightarrow> unit adapter_prog" where
  "glideWrite isCluster req =
     pbind (of_res (ceilSupportedCacheTtlMs (aw_cacheTtlMs req))) (\<lambda>cacheTtlMs.
     let execOptions = keyedOptions isCluster (aw_valueKey req) in
     pbind (if aw_createdAtMs req = JUndef then pbind adapterNow (\<lambda>t. Ret (JNum (num_of_int t))) else Ret (aw_createdAtMs req)) (\<lambda>createdAtMs.
     pbind (of_res (encodeRedisFrame (aw_value req) createdAtMs)) (\<lambda>frame.
     pbind (send execOptions (CSet (aw_valueKey req) frame (ttl_text cacheTtlMs))) (\<lambda>reply.
     of_res (validateRedisSetReply reply)))))"

text \<open>The retry's error is thrown as it is; attaching the first error as its \<^verbatim>\<open>cause\<close> does not change which error it is.\<close>

definition glideInvalidate :: "bool \<Rightarrow> jsstring \<Rightarrow> nat \<Rightarrow> unit adapter_prog" where
  "glideInvalidate isCluster watermarkKey futureBufferMs =
     pbind adapterNow (\<lambda>invalidatedAtMs.
     pbind (of_res (assertValidRedisTimestampMs (JNum (num_of_int invalidatedAtMs)))) (\<lambda>_.
     let invalidateArgs = buildRedisInvalidationScriptArguments futureBufferMs (nat invalidatedAtMs);
         options = keyedOptions isCluster watermarkKey
     in
     pbind (pcatch (send options (CEvalSha watermarkKey invalidateArgs))
              (\<lambda>_. pcatch (send options (CEval watermarkKey invalidateArgs)) (\<lambda>retryError. Thr retryError))) (\<lambda>raw.
     of_res (validateRedisScriptInvalidationReply raw))))"

subsection \<open>Both adapters are the same client\<close>

text \<open>A deployment behind a connection: how a routed command answers and changes the server's state.\<close>

type_synonym 's deployment = "route \<Rightarrow> command \<Rightarrow> 's \<Rightarrow> wire res \<times> 's"

definition adapter_env :: "'s deployment \<Rightarrow> int \<Rightarrow> adapter_req \<Rightarrow> 's \<Rightarrow> adapter_ans \<times> 's" where
  "adapter_env srv now q s =
     (case q of ADateNow \<Rightarrow> (ATime now, s)
      | ASend r c \<Rightarrow> (case srv r c s of (Inr w, s') \<Rightarrow> (AReply w, s') | (Inl e, s') \<Rightarrow> (AFail e, s')))"

text \<open>What GLIDE documents for a one-command batch executed with \<^verbatim>\<open>raiseOnError\<close>: the array of its replies.\<close>

definition batch_documented :: "'s deployment \<Rightarrow> bool" where
  "batch_documented srv \<longleftrightarrow> (\<forall>r k w s. srv r (CBatchMget k w) s =
     (case srv r (CMget k w) s of (Inr x, s') \<Rightarrow> (Inr (WArray [x]), s') | (Inl e, s') \<Rightarrow> (Inl e, s')))"

lemma serve_send: "serve (adapter_env srv now) (send r c) s = srv r c s"
  by (auto simp: send_def adapter_env_def split: prod.split sum.split)

lemma serve_pcatch: "serve h (pcatch p f) s = (case serve h p s of (Inl e, s') \<Rightarrow> serve h (f e) s' | (Inr x, s') \<Rightarrow> (Inr x, s'))"
  by (induction p arbitrary: s) auto

lemma pcatch_Thr: "pcatch p Thr = p"
  by (induction p) auto

lemma serve_of_res [simp]: "serve h (of_res r) s = (r, s)"
  by (cases r) auto

lemma serve_adapterNow: "serve (adapter_env srv now) adapterNow s = (Inr now, s)"
  by (simp add: adapterNow_def adapter_env_def)

lemmas serve_simps = serve_pbind serve_pcatch serve_send serve_adapterNow

lemma mget_reply: "(case pair of WArray [a, b] \<Rightarrow> of_res (f a b) | _ \<Rightarrow> Thr DialCacheRedisPayloadError) =
   pbind (of_res (validateRedisMGetReply pair)) (\<lambda>p. of_res (f (fst p) (snd p)))"
  by (auto simp: validateRedisMGetReply_def split: wire.split list.split)

text \<open>
  C19. The two adapters are interchangeable: on any deployment, standalone or cluster, where GLIDE's batches answer as
  documented, the node-redis and the GLIDE adapter give the same result (or the same error) for every read, write and
  invalidation, and leave the server in the same state.
\<close>

theorem adapters_agree:
  assumes "batch_documented srv"
  shows "serve (adapter_env srv now) (nodeRead cluster rd) s = serve (adapter_env srv now) (glideRead cluster rd) s \<and>
    serve (adapter_env srv now) (nodeWrite cluster wr) s = serve (adapter_env srv now) (glideWrite cluster wr) s \<and>
    serve (adapter_env srv now) (nodeInvalidate cluster k b) s = serve (adapter_env srv now) (glideInvalidate cluster k b) s"
proof (intro conjI)
  have batch: "srv r (CBatchMget k w) s = (case srv r (CMget k w) s of (Inr x, s') \<Rightarrow> (Inr (WArray [x]), s') | (Inl e, s') \<Rightarrow> (Inl e, s'))" for r k w s
    using assms by (simp add: batch_documented_def)
  show "serve (adapter_env srv now) (nodeRead cluster rd) s = serve (adapter_env srv now) (glideRead cluster rd) s"
  proof (cases "rd_watermarkKey rd")
    case (Some wk)
    then show ?thesis
      unfolding nodeRead_def glideRead_def readTracked_def sendKeyedCommand_def keyedOptions_def mget_reply
      by (cases cluster) (auto simp: serve_simps batch split: prod.split sum.split)
  qed (simp add: nodeRead_def glideRead_def)
  show "serve (adapter_env srv now) (nodeWrite cluster wr) s = serve (adapter_env srv now) (glideWrite cluster wr) s"
    by (simp add: nodeWrite_def glideWrite_def sendFrameSet_def sendKeyedCommand_def keyedOptions_def Let_def)
  show "serve (adapter_env srv now) (nodeInvalidate cluster k b) s = serve (adapter_env srv now) (glideInvalidate cluster k b) s"
    by (simp add: nodeInvalidate_def glideInvalidate_def sendKeyedCommand_def keyedOptions_def Let_def pcatch_Thr)
qed

subsection \<open>Invalidation through an unreliable connection\<close>

text \<open>
  The server runs the script on its watermark key. What can happen to one dispatch: it runs and answers, it runs and
  its answer is lost, or it does not run (a flushed script cache, a refused connection). The faults of the coming
  dispatches are part of the state.
\<close>

datatype fault = Delivered | ReplyLost jserror | NotRun jserror

fun script_server :: "(redis_key \<times> fault list) deployment" where
  "script_server r c (key, faults) =
     (let fault = (case faults of [] \<Rightarrow> Delivered | f # _ \<Rightarrow> f);
          run = (case c of CEvalSha k args \<Rightarrow> Some args | CEval k args \<Rightarrow> Some args | _ \<Rightarrow> None)
      in
      case run of None \<Rightarrow> (Inl (PlainError ''ERR''), (key, tl faults))
      | Some args \<Rightarrow>
          (case fault of NotRun e \<Rightarrow> (Inl e, (key, tl faults))
           | _ \<Rightarrow>
               (case INVALIDATE_CACHE_SCRIPT False (fst args) (snd args) key of (reply, key') \<Rightarrow>
                  (case fault of ReplyLost e \<Rightarrow> Inl e
                   | _ \<Rightarrow> (case reply of ScriptOk \<Rightarrow> Inr (WNumber (Fin 1)) | _ \<Rightarrow> Inl (PlainError ''ERR'')), (key', tl faults)))))"

lemma script_run:
  "INVALIDATE_CACHE_SCRIPT False (fst (buildRedisInvalidationScriptArguments b i)) (snd (buildRedisInvalidationScriptArguments b i)) key =
   INVALIDATE_CACHE_SCRIPT False (dec_bytes b) (dec_bytes i) key"
  by (simp add: buildRedisInvalidationScriptArguments_def)

lemma script_level:
  assumes "valid_invalidation b i"
  shows "\<exists>key'. INVALIDATE_CACHE_SCRIPT False (dec_bytes b) (dec_bytes i) key = (ScriptOk, key') \<and> watermark_of key' = max (watermark_of key) (i + b)"
proof -
  have "watermark_of (dispatch_invalidation (b, i) key) = max (watermark_of key) (i + b)"
    using dispatch_level [of "(b, i)" key] assms by (simp add: invalidation_target_def)
  with script_valid [OF assms, of key] show ?thesis
    by (simp add: dispatch_invalidation_def buildRedisInvalidationScriptArguments_def)
qed

text \<open>One dispatch: the watermark is advanced or untouched, and is advanced when the dispatch was answered.\<close>

lemma dispatch_once:
  assumes "valid_invalidation b i" "c = CEvalSha k (buildRedisInvalidationScriptArguments b i) \<or> c = CEval k (buildRedisInvalidationScriptArguments b i)"
  shows "(\<exists>key'. script_server r c (key, faults) = (Inr (WNumber (Fin 1)), (key', tl faults)) \<and> watermark_of key' = max (watermark_of key) (i + b)) \<or>
    (\<exists>e key'. script_server r c (key, faults) = (Inl e, (key', tl faults)) \<and> watermark_of key' \<in> {watermark_of key, max (watermark_of key) (i + b)})"
proof -
  obtain key' where "INVALIDATE_CACHE_SCRIPT False (dec_bytes b) (dec_bytes i) key = (ScriptOk, key')" "watermark_of key' = max (watermark_of key) (i + b)"
    using script_level [OF assms(1)] by blast
  with assms(2) show ?thesis by (auto simp: Let_def script_run split: list.split fault.split)
qed


text \<open>A store with no keys answers a batch as documented; one where the script cache is empty answers the retry.\<close>

definition empty_store :: "unit deployment" where
  "empty_store r c s =
     (case c of CGet _ \<Rightarrow> Inr WNull | CMget _ _ \<Rightarrow> Inr (WArray [WNull, WNull]) | CBatchMget _ _ \<Rightarrow> Inr (WArray [WArray [WNull, WNull]])
      | CSet _ _ _ \<Rightarrow> Inr (WText (js ''OK'')) | _ \<Rightarrow> Inr (WNumber (Fin 1)), s)"

theorem adapters_agree_witness:
  "batch_documented empty_store \<and>
   serve (adapter_env empty_store 5) (glideRead False \<lparr>rd_valueKey = js ''v'', rd_watermarkKey = Some (js ''w'')\<rparr>) () =
     (Inr (ReadMiss value_absent None), ())"
proof -
  have b: "batch_documented empty_store" by (simp add: batch_documented_def empty_store_def)
  show ?thesis
    using b adapters_agree [OF b, of 5 False "\<lparr>rd_valueKey = js ''v'', rd_watermarkKey = Some (js ''w'')\<rparr>" "()"]
    by (simp add: nodeRead_def readTracked_def sendKeyedCommand_def serve_simps empty_store_def validateRedisMGetReply_def
        decodeTrackedRedisReadResult_def validateRedisBulkStringReply_def redisReadMiss_def)
qed


end
