(* ===== verification/JsonSerializer.thy ===== *)
theory JsonSerializer
  imports ShadowLog Compression "HOL-Library.AList"
begin

section \<open>The default serializer\<close>

text \<open>
  \<^verbatim>\<open>serializer.ts\<close>: \<^verbatim>\<open>JsonSerializer\<close>, with the parts of \<^verbatim>\<open>JSON.stringify\<close> (\<open>json_text\<close>) and \<^verbatim>\<open>JSON.parse\<close>
  it uses. How a finite number prints (\<open>fmt\<close>) and what a numeric literal denotes (\<open>num\<close>) are parameters; what is used
  of them is that a printed number is a literal that reads back as itself. Members of an object are in their enumeration
  order.
\<close>

subsection \<open>JSON.parse\<close>

fun skip_space :: "jsstring \<Rightarrow> jsstring" where
  "skip_space [] = []"
| "skip_space (c # cs) = (if c \<in> {9, 10, 13, 32} then skip_space cs else c # cs)"

definition hex_value :: "16 word \<Rightarrow> nat option" where
  "hex_value u =
     (let n = unat u in
      if 48 \<le> n \<and> n \<le> 57 then Some (n - 48) else if 97 \<le> n \<and> n \<le> 102 then Some (n - 87)
      else if 65 \<le> n \<and> n \<le> 70 then Some (n - 55) else None)"

definition hex4 :: "16 word \<Rightarrow> 16 word \<Rightarrow> 16 word \<Rightarrow> 16 word \<Rightarrow> 16 word option" where
  "hex4 a b c d =
     (case (hex_value a, hex_value b, hex_value c, hex_value d) of
        (Some w, Some x, Some y, Some z) \<Rightarrow> Some (unit_of (w * 16 ^ 3 + x * 16 ^ 2 + y * 16 + z))
      | _ \<Rightarrow> None)"

definition simple_escape :: "16 word \<Rightarrow> 16 word option" where
  "simple_escape e = map_of [(34, 34), (92, 92), (47, 47), (98, 8), (102, 12), (110, 10), (114, 13), (116, 9)] e"

text \<open>The characters of a string after its opening quotation mark, and what follows the closing one.\<close>

fun parse_chars :: "jsstring \<Rightarrow> (jsstring \<times> jsstring) option" where
  "parse_chars [] = None"
| "parse_chars (c # cs) =
     (if c = 34 then Some ([], cs)
      else if c = 92 then
        (case cs of
           [] \<Rightarrow> None
         | e # cs' \<Rightarrow>
             if e = 117 then
               (case cs' of
                  p # q # r # s # rest \<Rightarrow>
                    (case hex4 p q r s of None \<Rightarrow> None
                     | Some u \<Rightarrow> map_option (\<lambda>(t, rest'). (u # t, rest')) (parse_chars rest))
                | _ \<Rightarrow> None)
             else
               (case simple_escape e of None \<Rightarrow> None
                | Some u \<Rightarrow> map_option (\<lambda>(t, rest'). (u # t, rest')) (parse_chars cs')))
      else if unat c < 32 then None
      else map_option (\<lambda>(t, rest'). (c # t, rest')) (parse_chars cs))"

definition number_char :: "16 word \<Rightarrow> bool" where
  "number_char u \<longleftrightarrow> 48 \<le> unat u \<and> unat u \<le> 57 \<or> u \<in> {43, 45, 46, 69, 101}"

definition parse_literal :: "jsstring \<Rightarrow> json \<Rightarrow> jsstring \<Rightarrow> (json \<times> jsstring) option" where
  "parse_literal word j s = (if take (length word) s = word then Some (j, drop (length word) s) else None)"

text \<open>A member written again replaces the value of the first.\<close>

definition own_members :: "(jsstring \<times> json) list \<Rightarrow> (jsstring \<times> json) list" where
  "own_members ms = fold (\<lambda>(k, v) acc. AList.update k v acc) ms []"

text \<open>The grammar, with one unit of fuel per call; every call but the ones it ends with consumes a character.\<close>

fun parse_value :: "(jsstring \<Rightarrow> rat option) \<Rightarrow> nat \<Rightarrow> jsstring \<Rightarrow> (json \<times> jsstring) option"
  and parse_items :: "(jsstring \<Rightarrow> rat option) \<Rightarrow> nat \<Rightarrow> jsstring \<Rightarrow> (json list \<times> jsstring) option"
  and parse_members :: "(jsstring \<Rightarrow> rat option) \<Rightarrow> nat \<Rightarrow> jsstring \<Rightarrow> ((jsstring \<times> json) list \<times> jsstring) option" where
  "parse_value num 0 s = None"
| "parse_value num (Suc n) s =
     (case skip_space s of
        [] \<Rightarrow> None
      | c # cs \<Rightarrow>
          if c = 34 then map_option (\<lambda>(t, rest). (JsString t, rest)) (parse_chars cs)
          else if c = 91 then
            (case skip_space cs of
               [] \<Rightarrow> None
             | d # ds \<Rightarrow> if d = 93 then Some (JsArray [], ds)
                         else map_option (\<lambda>(js, rest). (JsArray js, rest)) (parse_items num n (d # ds)))
          else if c = 123 then
            (case skip_space cs of
               [] \<Rightarrow> None
             | d # ds \<Rightarrow> if d = 125 then Some (JsObject [], ds)
                         else map_option (\<lambda>(ms, rest). (JsObject (own_members ms), rest)) (parse_members num n (d # ds)))
          else if c = 110 then parse_literal (js ''null'') JsNull (c # cs)
          else if c = 116 then parse_literal (js ''true'') (JsBool True) (c # cs)
          else if c = 102 then parse_literal (js ''false'') (JsBool False) (c # cs)
          else if \<not> number_char c then None
          else map_option (\<lambda>q. (JsNumber q, dropWhile number_char (c # cs))) (num (takeWhile number_char (c # cs))))"
| "parse_items num 0 s = None"
| "parse_items num (Suc n) s =
     (case parse_value num n s of
        None \<Rightarrow> None
      | Some (j, rest) \<Rightarrow>
          (case skip_space rest of
             [] \<Rightarrow> None
           | d # ds \<Rightarrow> if d = 93 then Some ([j], ds)
                       else if d = 44 then map_option (\<lambda>(js, rest'). (j # js, rest')) (parse_items num n ds)
                       else None))"
| "parse_members num 0 s = None"
| "parse_members num (Suc n) s =
     (case skip_space s of
        [] \<Rightarrow> None
      | c # cs \<Rightarrow>
          if c \<noteq> 34 then None
          else
            (case parse_chars cs of
               None \<Rightarrow> None
             | Some (name, rest) \<Rightarrow>
                 (case skip_space rest of
                    [] \<Rightarrow> None
                  | colon # vs \<Rightarrow>
                      if colon \<noteq> 58 then None
                      else
                        (case parse_value num n vs of
                           None \<Rightarrow> None
                         | Some (j, rest') \<Rightarrow>
                             (case skip_space rest' of
                                [] \<Rightarrow> None
                              | d # ds \<Rightarrow> if d = 125 then Some ([(name, j)], ds)
                                          else if d = 44 then map_option (\<lambda>(ms, r). ((name, j) # ms, r)) (parse_members num n ds)
                                          else None)))))"

definition JSON_parse :: "(jsstring \<Rightarrow> rat option) \<Rightarrow> jsstring \<Rightarrow> json res" where
  "JSON_parse num s =
     (case parse_value num (2 * length s + 2) s of
        Some (j, rest) \<Rightarrow> if skip_space rest = [] then Inr j else Inl (PlainError ''SyntaxError'')
      | None \<Rightarrow> Inl (PlainError ''SyntaxError''))"

subsection \<open>The serializer\<close>

text \<open>\<open>NoJson\<close> is a value \<^verbatim>\<open>JSON.stringify\<close> answers with undefined (a function, a symbol).\<close>

datatype cached_value = UndefinedValue | JsonData json | NoJson

definition JSON_UNDEFINED_SENTINEL :: jsstring where
  "JSON_UNDEFINED_SENTINEL = js ''__dialcache_json_undefined_v1__''"

definition json_dump :: "(rat \<Rightarrow> jsstring) \<Rightarrow> cached_value \<Rightarrow> jsstring res" where
  "json_dump fmt v =
     (case v of
        UndefinedValue \<Rightarrow> Inr JSON_UNDEFINED_SENTINEL
      | JsonData j \<Rightarrow> Inr (json_text fmt j)
      | NoJson \<Rightarrow> Inl (PlainError ''DialCache JSON serializer cannot serialize this value''))"

definition json_load :: "(jsstring \<Rightarrow> rat option) \<Rightarrow> payload \<Rightarrow> cached_value res" where
  "json_load num v =
     (let payload = (case v of Binary b \<Rightarrow> utf8_toString b | Text s \<Rightarrow> s) in
      if payload = JSON_UNDEFINED_SENTINEL then Inr UndefinedValue
      else map_sum id JsonData (JSON_parse num payload))"

subsection \<open>The fuel is enough\<close>

text \<open>Every call leaves less than it was given, so twice the length of the text bounds the nesting of calls.\<close>

lemma skip_space_length: "length (skip_space s) \<le> length s"
  by (induction s) auto

lemma parse_chars_length: "parse_chars s = Some (t, rest) \<Longrightarrow> length rest < length s"
proof (induction s arbitrary: t rest rule: length_induct)
  case (1 s)
  then have IH: "parse_chars s' = Some (t', rest) \<Longrightarrow> length s' < length s \<Longrightarrow> length rest < length s'" for s' t' by blast
  from 1(2) show ?case
    by (cases s) (auto split: if_splits list.splits option.splits dest!: IH)
qed

lemma skip_space_Cons: "skip_space s = c # cs \<Longrightarrow> length cs < length s"
  using skip_space_length [of s] by simp

lemma dropWhile_less: "P c \<Longrightarrow> length (dropWhile P (c # cs)) < length (c # cs)"
  by (simp add: length_dropWhile_le le_imp_less_Suc)

lemmas shrinks = skip_space_Cons parse_chars_length

lemma parse_shrinks:
  "parse_value num n s = Some (j, rest) \<Longrightarrow> length rest < length s"
  "parse_items num n s = Some (xs, rest) \<Longrightarrow> length rest < length s"
  "parse_members num n s = Some (ms, rest) \<Longrightarrow> length rest < length s"
proof (induction num n s and num n s and num n s arbitrary: j rest and xs rest and ms rest
    rule: parse_value_parse_items_parse_members.induct)
  case (2 num n s)
  then obtain c cs where s: "skip_space s = c # cs" by (auto split: list.splits)
  note cs = skip_space_Cons [OF s]
  have number: "length (dropWhile number_char (c # cs)) < length s" if "number_char c"
    using dropWhile_less [of number_char c cs] that cs by simp
  have literal: "length r < length s" if "parse_literal w v (c # cs) = Some (j, r)" "w \<noteq> []" for w v r
    using that cs by (cases w) (auto simp: parse_literal_def split: if_splits)
  have "length r < length s" if "skip_space cs = d # ds" "length r < length (d # ds)" for d ds r
    using that cs skip_space_length [of cs] by simp
  with 2 s cs number literal show ?case
    by (auto simp: js_def split: if_splits list.splits dest: shrinks) blast+
next
  case (4 num n s)
  then show ?case by (fastforce split: if_splits list.splits option.splits dest: shrinks)
next
  case (6 num n s)
  then show ?case by (fastforce split: if_splits list.splits option.splits dest: shrinks)
qed simp_all

lemma parse_fuel:
  "2 * length s < n \<Longrightarrow> parse_value num (Suc n) s = parse_value num n s"
  "2 * length s + 1 < n \<Longrightarrow> parse_items num (Suc n) s = parse_items num n s"
  "2 * length s + 1 < n \<Longrightarrow> parse_members num (Suc n) s = parse_members num n s"
proof (induction num n s and num n s and num n s rule: parse_value_parse_items_parse_members.induct)
  case (2 num n s)
  show ?case
  proof (cases "skip_space s")
    case (Cons c cs)
    show ?thesis
    proof (cases "skip_space cs")
      case Nil
      then show ?thesis using Cons by simp
    next
      case ds: (Cons d ds)
      have "length (d # ds) < length s" using skip_space_Cons [OF Cons] skip_space_length [of cs] ds by simp
      with 2 Cons ds show ?thesis by simp
    qed
  qed simp
next
  case (4 num n s)
  show ?case
  proof (cases "parse_value num n s")
    case (Some p)
    then obtain j rest where p: "parse_value num n s = Some (j, rest)" by (cases p) auto
    moreover have "length ds < length s" if "skip_space rest = d # ds" for d ds
      using parse_shrinks(1) [OF p] skip_space_Cons [OF that] by simp
    ultimately show ?thesis using 4 by (auto split: list.split)
  qed (use 4 in simp)
next
  case (6 num n s)
  have "parse_value num (Suc n) vs = parse_value num n vs \<and>
      (\<forall>j rest' d ds. parse_value num n vs = Some (j, rest') \<longrightarrow> skip_space rest' = d # ds \<longrightarrow> d = 44 \<longrightarrow> d \<noteq> 125 \<longrightarrow>
         parse_members num (Suc n) ds = parse_members num n ds)"
    if s: "skip_space s = 34 # cs" "parse_chars cs = Some (name, rest)" "skip_space rest = 58 # vs" for cs name rest vs
  proof (intro conjI allI impI)
    have vs: "length vs < length s"
      using skip_space_Cons [OF s(1)] parse_chars_length [OF s(2)] skip_space_Cons [OF s(3)] by simp
    then show "parse_value num (Suc n) vs = parse_value num n vs" using 6 s by simp
    fix j rest' d ds assume v: "parse_value num n vs = Some (j, rest')" "skip_space rest' = d # ds" "d = 44"
    have "length ds < length s" using vs parse_shrinks(1) [OF v(1)] skip_space_Cons [OF v(2)] by simp
    then show "parse_members num (Suc n) ds = parse_members num n ds" using 6 s v by simp
  qed
  then show ?case by (auto split: list.split option.split)
qed simp_all

lemma JSON_parse_fuel: "2 * length s + 2 \<le> n \<Longrightarrow> parse_value num n s = parse_value num (2 * length s + 2) s"
  by (induction n rule: dec_induct) (simp_all add: parse_fuel del: parse_value.simps)

subsection \<open>Strings read back\<close>

lemma hex_value_unit: "d < 16 \<Longrightarrow> hex_value (hex_unit d) = Some d"
  by (auto simp: hex_value_def hex_unit_def unat_unit_of Let_def)

lemma hex_digits: "(n :: nat) < 65536 \<Longrightarrow> n div 16 ^ 3 mod 16 * 16 ^ 3 + n div 16 ^ 2 mod 16 * 16 ^ 2 + n div 16 mod 16 * 16 + n mod 16 = n"
proof -
  assume "n < 65536"
  define a b c where "a = n div 16" and "b = a div 16" and "c = b div 16"
  have "n div 16 ^ 3 mod 16 = c" "n div 16 ^ 2 = b" using \<open>n < 65536\<close> by (auto simp: a_def b_def c_def div_mult2_eq [symmetric])
  moreover have "n = 16 * a + n mod 16" "a = 16 * b + a mod 16" "b = 16 * c + b mod 16" by (simp_all add: a_def b_def c_def)
  ultimately show ?thesis unfolding a_def [symmetric] by simp
qed

lemma hex4_escape:
  "hex4 (hex_unit (unat u div 16 ^ 3 mod 16)) (hex_unit (unat u div 16 ^ 2 mod 16)) (hex_unit (unat u div 16 mod 16)) (hex_unit (unat u mod 16)) = Some u"
  by (simp only: hex4_def hex_value_unit [OF mod_less_divisor [OF zero_less_numeral]] option.case prod.case
      hex_digits [OF unat_lt_16] unit_of_unat)

lemma unit_of_eq: "p < 65536 \<Longrightarrow> unat w = q \<Longrightarrow> unit_of p = w \<longleftrightarrow> p = q"
  by (metis unat_unit_of unit_of_unat)

lemma parse_plain_unit:
  "32 \<le> p \<Longrightarrow> p < 65536 \<Longrightarrow> p \<noteq> 34 \<Longrightarrow> p \<noteq> 92 \<Longrightarrow>
   parse_chars (unit_of p # s) = map_option (\<lambda>(t, rest). (unit_of p # t, rest)) (parse_chars s)"
  by (simp add: unit_of_eq [of p 34 34] unit_of_eq [of p 92 92] unat_unit_of)

lemma parse_quote_point:
  assumes "p < 0x110000"
  shows "parse_chars (quote_point p @ s) = map_option (\<lambda>(t, rest). (utf16_point p @ t, rest)) (parse_chars s)"
proof -
  consider "p \<in> {8, 9, 10, 12, 13, 34, 92}" | "p \<notin> {8, 9, 10, 12, 13, 34, 92}" "p < 32 \<or> is_surrogate p"
    | "p \<notin> {8, 9, 10, 12, 13, 34, 92}" "32 \<le> p" "\<not> is_surrogate p" by force
  then show ?thesis
  proof cases
    case 1
    then show ?thesis by (auto simp: quote_point_def simple_escape_def utf16_point_small unit_of_def)
  next
    case 2
    then have "p < 65536" by (auto simp: is_surrogate_def)
    moreover from 2 have "quote_point p = unicode_escape (unit_of p)" by (auto simp: quote_point_def)
    moreover have "parse_chars (unicode_escape u @ s) = map_option (\<lambda>(t, rest). (u # t, rest)) (parse_chars s)" for u
      using hex4_escape [of u] by (simp add: unicode_escape_def)
    ultimately show ?thesis by (simp add: utf16_point_small)
  next
    case 3
    then have q: "quote_point p = utf16_point p" by (auto simp: quote_point_def)
    show ?thesis
    proof (cases "p < 0x10000")
      case True
      with 3 q show ?thesis by (simp add: utf16_point_small parse_plain_unit del: parse_chars.simps)
    next
      case False
      define a b where "a = 0xD800 + (p - 0x10000) div 0x400" and "b = 0xDC00 + (p - 0x10000) mod 0x400"
      have "(p - 0x10000) div 0x400 < 0x400" using assms by auto
      then have "parse_chars (unit_of a # s) = map_option (\<lambda>(t, rest). (unit_of a # t, rest)) (parse_chars s)"
        "parse_chars (unit_of b # s) = map_option (\<lambda>(t, rest). (unit_of b # t, rest)) (parse_chars s)" for s
        by (intro parse_plain_unit; simp add: a_def b_def)+
      moreover have "utf16_point p = [unit_of a, unit_of b]" using False by (simp add: utf16_point_def a_def b_def)
      ultimately show ?thesis unfolding q by (simp add: option.map_comp comp_def case_prod_beta' del: parse_chars.simps)
    qed
  qed
qed

lemma parse_quoted: "parse_chars (concat (map quote_point (utf16_decode s)) @ 34 # rest) = Some (s, rest)"
proof -
  have "parse_chars (concat (map quote_point ps) @ 34 # rest) = Some (utf16_encode ps, rest)" if "\<forall>p \<in> set ps. p < 0x110000" for ps
    using that by (induction ps) (simp_all add: utf16_encode_def parse_quote_point del: parse_chars.simps, simp)
  from this [of "utf16_decode s"] show ?thesis using utf16_decode_bound by auto
qed

subsection \<open>Values read back\<close>

definition number_text :: "(rat \<Rightarrow> jsstring) \<Rightarrow> (jsstring \<Rightarrow> rat option) \<Rightarrow> (rat \<Rightarrow> bool) \<Rightarrow> bool" where
  "number_text fmt num double \<longleftrightarrow>
     (\<forall>q. double q \<longrightarrow> fmt q \<noteq> [] \<and> list_all number_char (fmt q) \<and> num (fmt q) = Some q)"

fun numbers_in :: "(rat \<Rightarrow> bool) \<Rightarrow> json \<Rightarrow> bool" where
  "numbers_in double (JsNumber q) = double q"
| "numbers_in double (JsArray xs) = list_all (numbers_in double) xs"
| "numbers_in double (JsObject ms) = list_all (\<lambda>m. numbers_in double (snd m)) ms"
| "numbers_in double j = True"

text \<open>What may follow a value in a text, so that a number ends there.\<close>

definition ends_number :: "jsstring \<Rightarrow> bool" where
  "ends_number rest \<longleftrightarrow> rest = [] \<or> \<not> number_char (hd rest)"

lemma ends_number_simps [simp]:
  "ends_number []" "ends_number (44 # s)" "ends_number (93 # s)" "ends_number (125 # s)"
  by (simp_all add: ends_number_def number_char_def)

definition reads :: "(jsstring \<Rightarrow> rat option) \<Rightarrow> jsstring \<Rightarrow> json \<Rightarrow> bool" where
  "reads num t j \<longleftrightarrow> t \<noteq> [] \<and> hd t \<notin> {9, 10, 13, 32, 93} \<and>
     (\<forall>n rest. length t \<le> n \<longrightarrow> ends_number rest \<longrightarrow> parse_value num n (t @ rest) = Some (j, rest))"

lemma readsD: "reads num t j \<Longrightarrow> length t \<le> n \<Longrightarrow> ends_number rest \<Longrightarrow> parse_value num n (t @ rest) = Some (j, rest)"
  by (simp add: reads_def)

lemma readsI:
  assumes "t \<noteq> []" "hd t \<notin> {9, 10, 13, 32, 93}" "\<And>n rest. parse_value num (Suc n) (t @ rest) = Some (j, rest)"
  shows "reads num t j"
proof -
  have "parse_value num n (t @ rest) = Some (j, rest)" if "length t \<le> n" for n rest
    using that assms(1,3) by (cases n) auto
  with assms show ?thesis by (simp add: reads_def)
qed

lemma parse_items_join:
  assumes "xs \<noteq> []" "\<forall>x \<in> set xs. reads num (f x) x" "length (join [44] (map f xs)) < n"
  shows "parse_items num n (join [44] (map f xs) @ 93 # rest) = Some (xs, rest)"
  using assms
proof (induction xs arbitrary: n rule: list_nonempty_induct)
  case (single x)
  then have "parse_value num (n - 1) (f x @ 93 # rest) = Some (x, 93 # rest)" by (intro readsD) auto
  with single show ?case by (cases n) simp_all
next
  case (cons x xs)
  then obtain y ys where xs: "xs = y # ys" by (cases xs) auto
  obtain m where m: "n = Suc m" using cons.prems by (cases n) auto
  have "parse_value num m (f x @ 44 # tail) = Some (x, 44 # tail)" for tail
    using cons.prems xs m by (intro readsD) auto
  with cons xs m show ?case by simp
qed

lemma parse_members_join:
  assumes "ms \<noteq> []" "\<forall>m \<in> set ms. reads num (f (snd m)) (snd m)"
    "length (join [44] (map (\<lambda>m. quote (fst m) @ [58] @ f (snd m)) ms)) < n"
  shows "parse_members num n (join [44] (map (\<lambda>m. quote (fst m) @ [58] @ f (snd m)) ms) @ 125 # rest) = Some (ms, rest)"
  using assms
proof (induction ms arbitrary: n rule: list_nonempty_induct)
  case (single m)
  then have "parse_value num (n - 1) (f (snd m) @ 125 # rest) = Some (snd m, 125 # rest)" by (intro readsD) auto
  with single show ?case by (cases n) (simp_all add: quote_def parse_quoted del: parse_chars.simps)
next
  case (cons m ms)
  then obtain y ys where ms: "ms = y # ys" by (cases ms) auto
  obtain k where k: "n = Suc k" using cons.prems by (cases n) auto
  have "parse_value num k (f (snd m) @ 44 # tail) = Some (snd m, 44 # tail)" for tail
    using cons.prems ms k by (intro readsD) auto
  with cons ms k show ?case by (simp add: quote_def parse_quoted del: parse_chars.simps)
qed

lemma own_members_distinct: "distinct (map fst ms) \<Longrightarrow> own_members ms = ms"
proof -
  have update: "AList.update k v al = al @ [(k, v)]" if "k \<notin> fst ` set al" for k and v :: json and al
    using that by (induction al) auto
  have "fold (\<lambda>(k, v) acc. AList.update k v acc) ms acc = acc @ ms" if "distinct (map fst (acc @ ms))" for acc
    using that by (induction ms arbitrary: acc) (auto simp: update)
  then show "distinct (map fst ms) \<Longrightarrow> own_members ms = ms" by (simp add: own_members_def)
qed

lemma reads_number:
  assumes "t \<noteq> []" "list_all number_char t" "num t = Some q"
  shows "reads num t (JsNumber q)"
proof -
  obtain c cs where t: "t = c # cs" using assms(1) by (cases t) auto
  then have c: "c \<notin> {9, 10, 13, 32, 34, 91, 93, 123, 110, 116, 102}" using assms(2) by (auto simp: number_char_def)
  have span: "takeWhile number_char (t @ rest) = t" "dropWhile number_char (t @ rest) = rest" if "ends_number rest" for rest
    using assms(2) that by (cases rest; auto simp: ends_number_def list_all_iff takeWhile_append2 dropWhile_append2)+
  have "parse_value num n (t @ rest) = Some (JsNumber q, rest)" if le: "length t \<le> n" and rest: "ends_number rest" for n rest
  proof -
    obtain m where "n = Suc m" using le t by (cases n) auto
    moreover have "skip_space (t @ rest) = t @ rest" using t c by simp
    ultimately show ?thesis using t c span [OF rest] assms(2,3)
      by (simp del: takeWhile.simps dropWhile.simps skip_space.simps)
  qed
  with t c show ?thesis by (simp add: reads_def)
qed

lemma json_text_reads:
  assumes "number_text fmt num double"
  shows "json_ok j \<Longrightarrow> numbers_in double j \<Longrightarrow> reads num (json_text fmt j) j"
proof (induction j)
  case (JsNumber q)
  with assms show ?case by (simp add: number_text_def reads_number)
next
  case (JsArray xs)
  show ?case
  proof (cases "xs = []")
    case False
    have IH: "\<forall>x \<in> set xs. reads num (json_text fmt x) x" using JsArray by (auto simp: list_all_iff)
    let ?body = "join [44] (map (json_text fmt) xs)"
    obtain c cs where body: "?body = c # cs" "c \<notin> {9, 10, 13, 32, 93}"
      using False IH by (cases xs; cases "tl xs") (auto simp: reads_def neq_Nil_conv)
    have "parse_value num n ((91 # ?body @ [93]) @ rest) = Some (JsArray xs, rest)" if le: "length (91 # ?body @ [93]) \<le> n" for n rest
    proof -
      obtain m where m: "n = Suc m" "length ?body < m" using le by (cases n) auto
      show ?thesis using parse_items_join [OF False IH m(2), of rest] body m(1) by simp
    qed
    then show ?thesis by (simp add: reads_def js_def)
  qed (auto intro!: readsI simp: js_def)
next
  case (JsObject ms)
  show ?case
  proof (cases "ms = []")
    case False
    have IH: "\<forall>m \<in> set ms. reads num (json_text fmt (snd m)) (snd m)" using JsObject by (fastforce simp: list_all_iff)
    let ?body = "join [44] (map (\<lambda>m. quote (fst m) @ [58] @ json_text fmt (snd m)) ms)"
    obtain cs where body: "?body = 34 # cs" using False by (cases ms; cases "tl ms") (auto simp: quote_def)
    have "parse_value num n ((123 # ?body @ [125]) @ rest) = Some (JsObject ms, rest)" if le: "length (123 # ?body @ [125]) \<le> n" for n rest
    proof -
      obtain m where m: "n = Suc m" "length ?body < m" using le by (cases n) auto
      show ?thesis using parse_members_join [OF False IH m(2), of rest] body m(1) own_members_distinct JsObject.prems by simp
    qed
    then show ?thesis by (simp add: reads_def js_def)
  qed (auto intro!: readsI simp: js_def own_members_def)
qed (auto intro!: readsI simp: js_def parse_literal_def quote_def parse_quoted simp del: parse_chars.simps)

lemma JSON_parse_text:
  assumes "number_text fmt num double" "json_ok j" "numbers_in double j"
  shows "JSON_parse num (json_text fmt j) = Inr j"
  using readsD [OF json_text_reads [OF assms], of "2 * length (json_text fmt j) + 2" "[]"] by (simp add: JSON_parse_def)

subsection \<open>Texts are well-formed\<close>

definition scalar_text :: "jsstring \<Rightarrow> bool" where
  "scalar_text s \<longleftrightarrow> (\<exists>ps. list_all is_scalar ps \<and> s = utf16_encode ps)"

lemma scalar_text_append: "scalar_text a \<Longrightarrow> scalar_text b \<Longrightarrow> scalar_text (a @ b)"
  unfolding scalar_text_def utf16_encode_def by (metis concat_append list_all_append map_append)

lemma scalar_text_ascii: "list_all (\<lambda>u. unat u < 128) s \<Longrightarrow> scalar_text s"
  unfolding scalar_text_def
proof (intro exI conjI)
  assume a: "list_all (\<lambda>u. unat u < 128) s"
  then show "list_all is_scalar (map unat s)" by (auto simp: list_all_iff is_scalar_def is_surrogate_def)
  from a show "s = utf16_encode (map unat s)" by (induction s) (simp_all add: utf16_encode_def utf16_point_small)
qed

lemma scalar_text_Cons: "unat u < 128 \<Longrightarrow> scalar_text s \<Longrightarrow> scalar_text (u # s)"
  using scalar_text_append [OF scalar_text_ascii, of "[u]" s] by simp

lemma scalar_text_point: "is_scalar p \<Longrightarrow> scalar_text (utf16_point p)"
  unfolding scalar_text_def by (rule exI [of _ "[p]"]) (simp add: utf16_encode_def)

lemma scalar_text_concat: "(\<And>x. x \<in> set xs \<Longrightarrow> scalar_text x) \<Longrightarrow> scalar_text (concat xs)"
  by (induction xs) (simp_all add: scalar_text_append scalar_text_ascii)

lemma scalar_text_join: "scalar_text sep \<Longrightarrow> (\<And>x. x \<in> set xs \<Longrightarrow> scalar_text x) \<Longrightarrow> scalar_text (join sep xs)"
  by (induction sep xs rule: join.induct) (simp_all add: scalar_text_append scalar_text_ascii)

lemma scalar_text_well_formed: "scalar_text s \<Longrightarrow> well_formed s"
proof -
  have "utf16_decode (utf16_encode ps) = ps" if "list_all is_scalar ps" for ps
    using that by (induction ps) (simp_all add: utf16_encode_def utf16_decode_point)
  then show "scalar_text s \<Longrightarrow> well_formed s" by (auto simp: scalar_text_def well_formed_def is_scalar_def list_all_iff)
qed

lemma scalar_text_quote: "scalar_text (quote s)"
proof -
  have "scalar_text (quote_point p)" if "p < 0x110000" for p
  proof (cases "p < 32 \<or> is_surrogate p \<or> p = 34 \<or> p = 92")
    case True
    have "unat (hex_unit (d mod 16)) < 128" for d :: nat
      using mod_less_divisor [of 16 d] by (auto simp: hex_unit_def unat_unit_of intro: less_trans [of _ 16])
    then have "list_all (\<lambda>u. unat u < 128) (unicode_escape v)" for v by (simp add: unicode_escape_def del: One_nat_def)
    with True show ?thesis by (auto simp: quote_point_def intro!: scalar_text_ascii)
  next
    case False
    then show ?thesis using that scalar_text_point [of p] by (auto simp: quote_point_def is_scalar_def)
  qed
  then have "scalar_text (concat (map quote_point (utf16_decode s)))" using utf16_decode_bound by (auto intro!: scalar_text_concat)
  then show ?thesis unfolding quote_def by (intro scalar_text_append) (simp_all add: scalar_text_ascii)
qed

lemma json_text_scalar: "number_text fmt num double \<Longrightarrow> numbers_in double j \<Longrightarrow> scalar_text (json_text fmt j)"
proof (induction j)
  case (JsNumber q)
  then have "list_all number_char (fmt q)" by (simp add: number_text_def)
  then have "list_all (\<lambda>u. unat u < 128) (fmt q)" by (auto simp: list_all_iff number_char_def)
  then show ?case by (simp add: scalar_text_ascii)
next
  case (JsArray xs)
  then have "scalar_text (join (js '','') (map (json_text fmt) xs))"
    by (intro scalar_text_join) (auto simp: list_all_iff js_def intro: scalar_text_ascii)
  then show ?case by (simp add: scalar_text_Cons scalar_text_append scalar_text_ascii js_def)
next
  case (JsObject ms)
  have "scalar_text (json_text fmt (snd m))" if "m \<in> set ms" for m
    using JsObject.IH [of m "snd m"] JsObject.prems that by (cases m) (auto simp: list_all_iff)
  then have "scalar_text (join (js '','') (map (\<lambda>m. quote (fst m) @ js '':'' @ json_text fmt (snd m)) ms))"
    by (intro scalar_text_join) (auto simp: js_def scalar_text_ascii intro!: scalar_text_append [OF scalar_text_quote] scalar_text_Cons)
  then show ?case by (simp add: scalar_text_Cons scalar_text_append scalar_text_ascii js_def)
qed (auto simp: js_def scalar_text_quote intro!: scalar_text_ascii)

subsection \<open>The round trip\<close>

text \<open>A value the serializer takes: undefined, or JSON data whose numbers are finite and whose member names differ.\<close>

fun storable :: "(rat \<Rightarrow> bool) \<Rightarrow> cached_value \<Rightarrow> bool" where
  "storable double (JsonData j) \<longleftrightarrow> json_ok j \<and> numbers_in double j"
| "storable double UndefinedValue = True"
| "storable double NoJson = False"

lemma json_dump_text:
  assumes "number_text fmt num double" "storable double v"
  obtains t where "json_dump fmt v = Inr t" "well_formed t" "json_load num (Text t) = Inr v"
proof (cases v)
  case (JsonData j)
  have "reads num (json_text fmt j) j" using json_text_reads assms JsonData by simp
  then have "json_text fmt j \<noteq> JSON_UNDEFINED_SENTINEL"
    by (auto simp: reads_def JSON_UNDEFINED_SENTINEL_def js_def number_char_def dest!: spec [of _ "Suc _"] spec [of _ "[]"])
  then show ?thesis using that [of "json_text fmt j"] JsonData assms JSON_parse_text [OF assms(1)]
      scalar_text_well_formed [OF json_text_scalar [OF assms(1)]]
    by (simp add: json_dump_def json_load_def)
next
  case UndefinedValue
  then show ?thesis using that [of JSON_UNDEFINED_SENTINEL]
    by (simp add: json_dump_def json_load_def JSON_UNDEFINED_SENTINEL_def js_def well_formed_ascii)
qed (use assms in auto)


text \<open>Digits: a number format for small naturals, and an object with an array, a lone surrogate and a null.\<close>

definition digit_text :: "rat \<Rightarrow> jsstring" where
  "digit_text q = (if q = 7 then [55] else [48])"

definition digit_value :: "jsstring \<Rightarrow> rat option" where
  "digit_value t = (if t = [55] then Some 7 else if t = [48] then Some 0 else None)"

definition sample_value :: cached_value where
  "sample_value = JsonData (JsObject [(js ''a'', JsArray [JsNumber 7, JsNull]), ([0xD800, 34], JsString [10, 0xE9])])"

lemma digit_number_text: "number_text digit_text digit_value (\<lambda>q. q \<in> {0, 7})"
  by (auto simp: number_text_def digit_text_def digit_value_def number_char_def)


end
