(* ===== verification/MetricBackends.thy ===== *)
theory MetricBackends
  imports Metrics
begin

section \<open>The bundled metrics adapters\<close>

text \<open>
  \<^verbatim>\<open>datadog.ts\<close> and \<^verbatim>\<open>prometheus.ts\<close>: the labels, names and collectors each adapter uses for every metric
  event, and their constructors. The DogStatsD client receives calls; the Prometheus registry is a list of the named
  collectors it holds, and \<open>newCollector\<close>, prom-client's constructor of a collector, is a parameter.
\<close>

subsection \<open>Label values\<close>

fun layer_text :: "metric_layer \<Rightarrow> string" where
  "layer_text LayerLocal = ''local''"
| "layer_text LayerRemote = ''remote''"
| "layer_text LayerRequestLocal = ''request_local''"
| "layer_text LayerRemoteShadow = ''remote_shadow''"
| "layer_text LayerNone = ''noop''"

fun scope_text :: "coalescing_scope \<Rightarrow> string" where
  "scope_text scope_request_local = ''request_local''"
| "scope_text scope_process = ''process''"

fun shadow_text :: "shadow_outcome \<Rightarrow> string" where
  "shadow_text sv_match = ''match''"
| "shadow_text sv_mismatch = ''mismatch''"
| "shadow_text sv_superseded = ''superseded''"
| "shadow_text sv_filled = ''filled''"
| "shadow_text sv_fill_fenced = ''fill_fenced''"
| "shadow_text sv_fill_error = ''fill_error''"
| "shadow_text sv_redis_error = ''redis_error''"
| "shadow_text sv_source_error = ''source_error''"
| "shadow_text sv_deserialization_error = ''deserialization_error''"
| "shadow_text sv_comparison_error = ''comparison_error''"
| "shadow_text sv_confirmation_error = ''confirmation_error''"
| "shadow_text sv_timeout = ''timeout''"
| "shadow_text sv_dropped = ''dropped''"

fun logging_text :: "mismatch_logging_outcome \<Rightarrow> string" where
  "logging_text ml_logged = ''logged''"
| "logging_text ml_hook_error = ''hook_error''"
| "logging_text ml_render_error = ''render_error''"
| "logging_text ml_logger_error = ''logger_error''"

fun stale_text :: "stale_outcome \<Rightarrow> string" where
  "stale_text stale_served = ''served''"
| "stale_text stale_miss = ''miss''"
| "stale_text stale_deserialization_error = ''deserialization_error''"

text \<open>A read that was passed through is never reported (\<open>deserializePayload\<close>); its text stands for no metric.\<close>

fun compression_text :: "compression_outcome \<Rightarrow> string" where
  "compression_text (WriteOutcome compressed) = ''compressed''"
| "compression_text (WriteOutcome below_threshold) = ''below_threshold''"
| "compression_text (WriteOutcome not_smaller) = ''not_smaller''"
| "compression_text (WriteOutcome write_over_limit) = ''write_over_limit''"
| "compression_text (ReadOutcome decompressed) = ''decompressed''"
| "compression_text (ReadOutcome fallback_raw) = ''fallback_raw''"
| "compression_text (ReadOutcome read_over_limit) = ''read_over_limit''"
| "compression_text (ReadOutcome passthrough) = ''passthrough''"

fun disabled_text :: "disabled_reason \<Rightarrow> string" where
  "disabled_text context_disabled = ''context''"
| "disabled_text policy_disabled = ''policy_disabled''"
| "disabled_text invalid_ttl = ''invalid_ttl''"
| "disabled_text invalid_ramp = ''invalid_ramp''"
| "disabled_text ramped_down = ''ramped_down''"
| "disabled_text config_error = ''config_error''"

fun error_text :: "error_kind \<Rightarrow> string" where
  "error_text key_construction = ''key_construction''"
| "error_text config_resolution = ''config_resolution''"
| "error_text cache_read = ''cache_read''"
| "error_text cache_read_timeout = ''cache_read_timeout''"
| "error_text cache_write = ''cache_write''"
| "error_text tracked_ttl_clamped = ''tracked_ttl_clamped''"
| "error_text serialization_load = ''serialization_load''"
| "error_text serialization_dump = ''serialization_dump''"
| "error_text compression_failure = ''compression''"
| "error_text invalidation_failure = ''invalidation''"
| "error_text fallback_failure = ''fallback''"
| "error_text unknown_failure = ''unknown''"

fun miss_text :: "miss_reason \<Rightarrow> string" where
  "miss_text value_absent = ''value_absent''"
| "miss_text expired = ''expired''"
| "miss_text watermark_fenced = ''watermark_fenced''"
| "miss_text unclassified = ''unclassified''"

type_synonym labels = "(string \<times> jsstring) list"

subsection \<open>Datadog\<close>

datatype observation_type = histogram_type | distribution_type

datatype statsd_call = Increment jsstring rat labels | Histogram jsstring rat labels | Distribution jsstring rat labels

record datadog =
  dd_metricNames :: "(string \<times> jsstring) list"
  dd_observe :: observation_type

definition cacheTags :: "CacheMetricLabels \<Rightarrow> labels" where
  "cacheTags l =
     [(''cache_namespace'', lb_namespace l), (''use_case'', lb_useCase l), (''key_type'', lb_keyType l),
      (''layer'', js (layer_text (lb_layer l)))]"

definition outcomeTags :: "KeyMetricLabels \<Rightarrow> string \<Rightarrow> labels" where
  "outcomeTags l outcome =
     [(''cache_namespace'', kl_namespace l), (''use_case'', kl_useCase l), (''key_type'', kl_keyType l), (''outcome'', js outcome)]"

definition DATADOG_METRIC_NAME_MAX_LENGTH :: nat where
  "DATADOG_METRIC_NAME_MAX_LENGTH = 200"

definition METRIC_SUFFIXES :: "(string \<times> string) list" where
  "METRIC_SUFFIXES =
     [(''request'', ''request.count''), (''miss'', ''miss.count''), (''disabled'', ''disabled.count''),
      (''error'', ''error.count''), (''invalidation'', ''invalidation.count''), (''coalesced'', ''coalesced.count''),
      (''shadowValidation'', ''shadow.count''), (''shadowValueAge'', ''shadow.value_age''), (''shadowMismatchLogging'', ''shadow_mismatch_logging.count''),
      (''futureTimestampOffset'', ''future_timestamp_offset''), (''staleRecovery'', ''stale_recovery.count''), (''staleRecoveryValueAge'', ''stale_recovery.value_age''),
      (''compression'', ''compression.count''), (''get'', ''get.duration''), (''fallback'', ''fallback.duration''),
      (''serialization'', ''serialization.duration''), (''size'', ''serialization.size''), (''storedSize'', ''stored.size''),
      (''compressionRatio'', ''compression.ratio''), (''compressionDuration'', ''compression.duration'')]"

text \<open>\<^verbatim>\<open>NAMESPACE_PATTERN\<close>: word segments separated by single dots, the first beginning with a letter.\<close>

definition is_word_unit :: "16 word \<Rightarrow> bool" where
  "is_word_unit u \<longleftrightarrow>
     (let n = unat u in 48 \<le> n \<and> n \<le> 57 \<or> 65 \<le> n \<and> n \<le> 90 \<or> 97 \<le> n \<and> n \<le> 122 \<or> n = 95)"

definition is_letter_unit :: "16 word \<Rightarrow> bool" where
  "is_letter_unit u \<longleftrightarrow> (let n = unat u in 65 \<le> n \<and> n \<le> 90 \<or> 97 \<le> n \<and> n \<le> 122)"

fun segments :: "jsstring \<Rightarrow> jsstring list" where
  "segments [] = [[]]"
| "segments (u # us) =
     (if u = 46 then [] # segments us else (case segments us of [] \<Rightarrow> [[u]] | s # ss \<Rightarrow> (u # s) # ss))"

definition namespace_pattern :: "jsstring \<Rightarrow> bool" where
  "namespace_pattern ns \<longleftrightarrow>
     list_all (\<lambda>s. s \<noteq> [] \<and> list_all is_word_unit s) (segments ns) \<and> ns \<noteq> [] \<and> is_letter_unit (hd ns)"

definition validateNamespace :: "jsval \<Rightarrow> jsstring res" where
  "validateNamespace v =
     (case v of JStr ns \<Rightarrow> if namespace_pattern ns then Inr ns else Inl (TypeError ''Datadog namespace'')
      | _ \<Rightarrow> Inl (TypeError ''Datadog namespace''))"

text \<open>\<^verbatim>\<open>v !== null && typeof v === "object"\<close>.\<close>

definition is_object :: "jsval \<Rightarrow> bool" where
  "is_object v = (case v of JObj _ \<Rightarrow> True | JArr _ \<Rightarrow> True | _ \<Rightarrow> False)"

definition validateClient :: "jsval \<Rightarrow> unit res" where
  "validateClient client =
     (if is_object client
      then check (list_all (\<lambda>m. get_prop client m = JFun) [''increment'', ''histogram'', ''distribution''])
             (TypeError ''Datadog metrics client must implement increment(), histogram() and distribution()'')
      else Inl (TypeError ''Datadog metrics client must be an object.''))"

definition validateObservationMetricType :: "jsval \<Rightarrow> observation_type res" where
  "validateObservationMetricType v =
     (if v = JStr (js ''histogram'') then Inr histogram_type
      else if v = JStr (js ''distribution'') then Inr distribution_type
      else Inl (TypeError ''Datadog observationMetricType must be either histogram or distribution''))"

definition metricNames :: "jsstring \<Rightarrow> (string \<times> jsstring) list res" where
  "metricNames ns =
     map_res (\<lambda>(metric, suffix).
       let name = ns @ js ''.'' @ js suffix in
       if length name > DATADOG_METRIC_NAME_MAX_LENGTH then Inl (RangeError ''Datadog metric name'') else Inr (metric, name))
     METRIC_SUFFIXES"

definition DatadogDialCacheMetrics :: "jsval \<Rightarrow> datadog res" where
  "DatadogDialCacheMetrics options =
     (if \<not> is_object options then Inl (TypeError ''Datadog metrics options must be an object.'')
      else
        res_bind (validateClient (get_prop options ''client'')) (\<lambda>_.
        res_bind (validateNamespace (if get_prop options ''namespace'' = JUndef then JStr (js ''dialcache'') else get_prop options ''namespace''))
          (\<lambda>ns.
        res_bind (validateObservationMetricType (get_prop options ''observationMetricType'')) (\<lambda>ty.
        res_bind (metricNames ns) (\<lambda>names. Inr \<lparr>dd_metricNames = names, dd_observe = ty\<rparr>)))))"

definition dd_name :: "datadog \<Rightarrow> string \<Rightarrow> jsstring" where
  "dd_name dd metric = (case map_of (dd_metricNames dd) metric of Some n \<Rightarrow> n | None \<Rightarrow> [])"

definition dd_increment :: "datadog \<Rightarrow> string \<Rightarrow> labels \<Rightarrow> statsd_call" where
  "dd_increment dd metric tags = Increment (dd_name dd metric) 1 tags"

definition dd_observation :: "datadog \<Rightarrow> string \<Rightarrow> rat \<Rightarrow> labels \<Rightarrow> statsd_call" where
  "dd_observation dd metric v tags =
     (case dd_observe dd of distribution_type \<Rightarrow> Distribution (dd_name dd metric) v tags
      | histogram_type \<Rightarrow> Histogram (dd_name dd metric) v tags)"

definition dd_emit :: "datadog \<Rightarrow> metric_event \<Rightarrow> statsd_call" where
  "dd_emit dd e =
     (case e of
        m_request l \<Rightarrow> dd_increment dd ''request'' (cacheTags l)
      | m_miss l reason \<Rightarrow> dd_increment dd ''miss'' (cacheTags l @ [(''reason'', js (miss_text reason))])
      | m_disabled l reason \<Rightarrow> dd_increment dd ''disabled'' (cacheTags l @ [(''reason'', js (disabled_text reason))])
      | m_error l k inFallback \<Rightarrow>
          dd_increment dd ''error''
            (cacheTags l @ [(''error'', js (error_text k)), (''in_fallback'', js (if inFallback then ''true'' else ''false''))])
      | m_invalidation ns kt layer \<Rightarrow>
          dd_increment dd ''invalidation'' [(''cache_namespace'', ns), (''key_type'', kt), (''layer'', js (layer_text layer))]
      | m_coalesced l scope \<Rightarrow>
          dd_increment dd ''coalesced''
            [(''cache_namespace'', kl_namespace l), (''use_case'', kl_useCase l), (''key_type'', kl_keyType l), (''scope'', js (scope_text scope))]
      | m_shadowValidation l outcome \<Rightarrow> dd_increment dd ''shadowValidation'' (outcomeTags l (shadow_text outcome))
      | m_observeShadowValueAge l outcome s \<Rightarrow> dd_observation dd ''shadowValueAge'' s (outcomeTags l (shadow_text outcome))
      | m_shadowMismatchLogging l outcome \<Rightarrow> dd_increment dd ''shadowMismatchLogging'' (outcomeTags l (logging_text outcome))
      | m_observeFutureTimestampOffset l s \<Rightarrow> dd_observation dd ''futureTimestampOffset'' s (cacheTags l)
      | m_staleRecovery l outcome \<Rightarrow> dd_increment dd ''staleRecovery'' (outcomeTags l (stale_text outcome))
      | m_observeStaleRecoveryValueAge l outcome s \<Rightarrow> dd_observation dd ''staleRecoveryValueAge'' s (outcomeTags l (stale_text outcome))
      | m_compression l outcome \<Rightarrow> dd_increment dd ''compression'' (cacheTags l @ [(''outcome'', js (compression_text outcome))])
      | m_observeGet l s \<Rightarrow> dd_observation dd ''get'' s (cacheTags l)
      | m_observeFallback l s \<Rightarrow> dd_observation dd ''fallback'' s (cacheTags l)
      | m_observeSerialization l operation s \<Rightarrow> dd_observation dd ''serialization'' s (cacheTags l @ [(''operation'', js operation)])
      | m_observeSize l n \<Rightarrow> dd_observation dd ''size'' (of_nat n) (cacheTags l)
      | m_observeStoredSize l n \<Rightarrow> dd_observation dd ''storedSize'' (of_nat n) (cacheTags l)
      | m_observeCompressionRatio l r \<Rightarrow> dd_observation dd ''compressionRatio'' r (cacheTags l)
      | m_observeCompression l operation s \<Rightarrow>
          dd_observation dd ''compressionDuration'' s (cacheTags l @ [(''operation'', js operation)]))"

subsection \<open>Prometheus\<close>

record collector =
  co_name :: jsstring
  co_help :: jsstring
  co_labelNames :: "string list"
  co_buckets :: "rat list option"

text \<open>A collector with buckets is a histogram, one without a counter.\<close>

definition TIMER_BUCKETS :: "rat list" where
  "TIMER_BUCKETS = [1/1000, 5/1000, 1/100, 25/1000, 5/100, 1/10, 25/100, 1/2, 1, 5/2, 5, 10]"

definition SIZE_BUCKETS :: "rat list" where
  "SIZE_BUCKETS = [100, 1000, 10000, 100000, 1000000, 10000000]"

definition RATIO_BUCKETS :: "rat list" where
  "RATIO_BUCKETS = [5/100, 1/10, 2/10, 3/10, 5/10, 7/10, 9/10, 1]"

definition VALUE_AGE_BUCKETS :: "rat list" where
  "VALUE_AGE_BUCKETS = [1, 5, 15, 60, 300, 900, 3600, 10800, 43200, 86400, 259200, 604800]"

definition FUTURE_TIMESTAMP_OFFSET_BUCKETS :: "rat list" where
  "FUTURE_TIMESTAMP_OFFSET_BUCKETS =
     [1/1000, 5/1000, 1/100, 25/1000, 5/100, 1/10, 25/100, 1/2, 1, 5, 15, 60, 300, 900, 3600, 10800, 43200]"

definition collectorConfigs :: "jsstring \<Rightarrow> (string \<times> collector) list" where
  "collectorConfigs prefix =
     [
      (''disabledCounter'', \<lparr>co_name = prefix @ js ''dialcache_disabled_counter'', co_help = js ''Requests where DialCache skipped a cache layer.'',
         co_labelNames = [''cache_namespace'', ''use_case'', ''key_type'', ''layer'', ''reason''], co_buckets = None\<rparr>),
      (''missCounter'', \<lparr>co_name = prefix @ js ''dialcache_miss_counter'', co_help = js ''DialCache cache misses.'',
         co_labelNames = [''cache_namespace'', ''use_case'', ''key_type'', ''layer'', ''reason''], co_buckets = None\<rparr>),
      (''requestCounter'', \<lparr>co_name = prefix @ js ''dialcache_request_counter'', co_help = js ''Total DialCache cache-layer requests.'',
         co_labelNames = [''cache_namespace'', ''use_case'', ''key_type'', ''layer''], co_buckets = None\<rparr>),
      (''errorCounter'', \<lparr>co_name = prefix @ js ''dialcache_error_counter'', co_help = js ''Errors during DialCache cache operations or fallback execution.'',
         co_labelNames = [''cache_namespace'', ''use_case'', ''key_type'', ''layer'', ''error'', ''in_fallback''], co_buckets = None\<rparr>),
      (''invalidationCounter'', \<lparr>co_name = prefix @ js ''dialcache_invalidation_counter'', co_help = js ''DialCache invalidation calls by key type and layer.'',
         co_labelNames = [''cache_namespace'', ''key_type'', ''layer''], co_buckets = None\<rparr>),
      (''coalescedCounter'', \<lparr>co_name = prefix @ js ''dialcache_coalesced_counter'', co_help = js ''DialCache requests coalesced onto in-flight work by sharing scope.'',
         co_labelNames = [''cache_namespace'', ''use_case'', ''key_type'', ''scope''], co_buckets = None\<rparr>),
      (''shadowValidationCounter'', \<lparr>co_name = prefix @ js ''dialcache_shadow_validation_counter'', co_help = js ''Sampled DialCache Redis shadow-validation outcomes.'',
         co_labelNames = [''cache_namespace'', ''use_case'', ''key_type'', ''outcome''], co_buckets = None\<rparr>),
      (''shadowValueAgeHistogram'', \<lparr>co_name = prefix @ js ''dialcache_shadow_value_age_histogram'', co_help = js ''Age in seconds of the validated Redis value at DialCache shadow verdict time.'',
         co_labelNames = [''cache_namespace'', ''use_case'', ''key_type'', ''outcome''], co_buckets = Some VALUE_AGE_BUCKETS\<rparr>),
      (''shadowMismatchLoggingCounter'', \<lparr>co_name = prefix @ js ''dialcache_shadow_mismatch_logging_counter'', co_help = js ''DialCache confirmed shadow-mismatch warning outcomes.'',
         co_labelNames = [''cache_namespace'', ''use_case'', ''key_type'', ''outcome''], co_buckets = None\<rparr>),
      (''futureTimestampOffsetHistogram'', \<lparr>co_name = prefix @ js ''dialcache_future_timestamp_offset_histogram'', co_help = js ''Positive offset in seconds of Redis frames dated after the observing DialCache process clock.'',
         co_labelNames = [''cache_namespace'', ''use_case'', ''key_type'', ''layer''], co_buckets = Some FUTURE_TIMESTAMP_OFFSET_BUCKETS\<rparr>),
      (''staleRecoveryCounter'', \<lparr>co_name = prefix @ js ''dialcache_stale_recovery_counter'', co_help = js ''DialCache stale-on-error Redis recovery outcomes.'',
         co_labelNames = [''cache_namespace'', ''use_case'', ''key_type'', ''outcome''], co_buckets = None\<rparr>),
      (''staleRecoveryValueAgeHistogram'', \<lparr>co_name = prefix @ js ''dialcache_stale_recovery_value_age_histogram'', co_help = js ''Age in seconds of Redis values served by DialCache stale-on-error recovery.'',
         co_labelNames = [''cache_namespace'', ''use_case'', ''key_type'', ''outcome''], co_buckets = Some VALUE_AGE_BUCKETS\<rparr>),
      (''compressionCounter'', \<lparr>co_name = prefix @ js ''dialcache_compression_counter'', co_help = js ''DialCache Redis payload compression and decompression outcomes.'',
         co_labelNames = [''cache_namespace'', ''use_case'', ''key_type'', ''layer'', ''outcome''], co_buckets = None\<rparr>),
      (''getTimer'', \<lparr>co_name = prefix @ js ''dialcache_get_timer'', co_help = js ''DialCache cache get latency in seconds.'',
         co_labelNames = [''cache_namespace'', ''use_case'', ''key_type'', ''layer''], co_buckets = Some TIMER_BUCKETS\<rparr>),
      (''fallbackTimer'', \<lparr>co_name = prefix @ js ''dialcache_fallback_timer'', co_help = js ''Time DialCache waited for the fallback function in seconds.'',
         co_labelNames = [''cache_namespace'', ''use_case'', ''key_type'', ''layer''], co_buckets = Some TIMER_BUCKETS\<rparr>),
      (''serializationTimer'', \<lparr>co_name = prefix @ js ''dialcache_serialization_timer'', co_help = js ''DialCache serialization latency in seconds.'',
         co_labelNames = [''cache_namespace'', ''use_case'', ''key_type'', ''layer'', ''operation''], co_buckets = Some TIMER_BUCKETS\<rparr>),
      (''sizeHistogram'', \<lparr>co_name = prefix @ js ''dialcache_size_histogram'', co_help = js ''Serialized DialCache value sizes in bytes.'',
         co_labelNames = [''cache_namespace'', ''use_case'', ''key_type'', ''layer''], co_buckets = Some SIZE_BUCKETS\<rparr>),
      (''storedSizeHistogram'', \<lparr>co_name = prefix @ js ''dialcache_stored_size_histogram'', co_help = js ''Stored DialCache payload sizes in bytes, after compression and escaping.'',
         co_labelNames = [''cache_namespace'', ''use_case'', ''key_type'', ''layer''], co_buckets = Some SIZE_BUCKETS\<rparr>),
      (''compressionRatioHistogram'', \<lparr>co_name = prefix @ js ''dialcache_compression_ratio_histogram'', co_help = js ''Compressed-to-original DialCache payload size ratio for compressed writes.'',
         co_labelNames = [''cache_namespace'', ''use_case'', ''key_type'', ''layer''], co_buckets = Some RATIO_BUCKETS\<rparr>),
      (''compressionTimer'', \<lparr>co_name = prefix @ js ''dialcache_compression_timer'', co_help = js ''DialCache payload compression and decompression latency in seconds.'',
         co_labelNames = [''cache_namespace'', ''use_case'', ''key_type'', ''layer'', ''operation''], co_buckets = Some TIMER_BUCKETS\<rparr>)]"

definition arraysEqual :: "jsval \<Rightarrow> jsval list \<Rightarrow> bool" where
  "arraysEqual actual expected = (case actual of JArr xs \<Rightarrow> xs = expected | _ \<Rightarrow> False)"

definition compatible :: "jsval \<Rightarrow> collector \<Rightarrow> bool" where
  "compatible c config \<longleftrightarrow>
     get_prop c ''name'' = JStr (co_name config) \<and> get_prop c ''help'' = JStr (co_help config) \<and>
     get_prop c ''type'' = JStr (js (if co_buckets config = None then ''counter'' else ''histogram'')) \<and>
     get_prop c ''enableExemplars'' \<noteq> JBool True \<and>
     arraysEqual (get_prop c ''labelNames'') (map (\<lambda>n. JStr (js n)) (co_labelNames config)) \<and>
     (case co_buckets config of None \<Rightarrow> True | Some bs \<Rightarrow> arraysEqual (get_prop c ''buckets'') (map (\<lambda>b. JNum (Fin b)) bs))"

type_synonym registry = "(jsstring \<times> jsval) list"

fun validateExistingCollectors :: "registry \<Rightarrow> collector list \<Rightarrow> unit res" where
  "validateExistingCollectors reg [] = Inr ()"
| "validateExistingCollectors reg (config # configs) =
     (case map_of reg (co_name config) of
        None \<Rightarrow> validateExistingCollectors reg configs
      | Some existing \<Rightarrow>
          if compatible existing config then validateExistingCollectors reg configs
          else Inl (PlainError ''Prometheus collector already exists with an incompatible schema.''))"

text \<open>\<^verbatim>\<open>counter\<close> and \<^verbatim>\<open>histogram\<close>: the registered collector of that name, or a new one.\<close>

definition obtain_collector :: "(collector \<Rightarrow> jsval res) \<Rightarrow> collector \<Rightarrow> registry \<Rightarrow> jsval res \<times> registry" where
  "obtain_collector newCollector config reg =
     (case map_of reg (co_name config) of
        Some existing \<Rightarrow> (Inr existing, reg)
      | None \<Rightarrow> (case newCollector config of Inl e \<Rightarrow> (Inl e, reg) | Inr c \<Rightarrow> (Inr c, (co_name config, c) # reg)))"

fun obtain_collectors :: "(collector \<Rightarrow> jsval res) \<Rightarrow> collector list \<Rightarrow> registry \<Rightarrow> jsval list res \<times> registry" where
  "obtain_collectors newCollector [] reg = (Inr [], reg)"
| "obtain_collectors newCollector (config # configs) reg =
     (case obtain_collector newCollector config reg of
        (Inl e, reg') \<Rightarrow> (Inl e, reg')
      | (Inr c, reg') \<Rightarrow>
          (case obtain_collectors newCollector configs reg' of
             (Inl e, reg'') \<Rightarrow> (Inl e, reg'') | (Inr cs, reg'') \<Rightarrow> (Inr (c # cs), reg'')))"

definition PrometheusDialCacheMetrics :: "(collector \<Rightarrow> jsval res) \<Rightarrow> registry \<Rightarrow> jsstring \<Rightarrow> jsval list res \<times> registry" where
  "PrometheusDialCacheMetrics newCollector reg prefix =
     (let collectors = map snd (collectorConfigs prefix) in
      case validateExistingCollectors reg collectors of
        Inl e \<Rightarrow> (Inl e, reg)
      | Inr _ \<Rightarrow> obtain_collectors newCollector collectors reg)"

datatype prom_call = Inc string labels | Observe string labels rat

definition cacheLabels :: "CacheMetricLabels \<Rightarrow> labels" where
  "cacheLabels l =
     [(''cache_namespace'', lb_namespace l), (''use_case'', lb_useCase l), (''key_type'', lb_keyType l),
      (''layer'', js (layer_text (lb_layer l)))]"

definition outcomeLabels :: "KeyMetricLabels \<Rightarrow> string \<Rightarrow> labels" where
  "outcomeLabels l outcome =
     [(''cache_namespace'', kl_namespace l), (''use_case'', kl_useCase l), (''key_type'', kl_keyType l), (''outcome'', js outcome)]"

definition prom_emit :: "metric_event \<Rightarrow> prom_call option" where
  "prom_emit e =
     (case e of
        m_request l \<Rightarrow> Some (Inc ''requestCounter'' (cacheLabels l))
      | m_miss l reason \<Rightarrow> Some (Inc ''missCounter'' (cacheLabels l @ [(''reason'', js (miss_text reason))]))
      | m_disabled l reason \<Rightarrow> Some (Inc ''disabledCounter'' (cacheLabels l @ [(''reason'', js (disabled_text reason))]))
      | m_error l k inFallback \<Rightarrow>
          Some (Inc ''errorCounter''
            (cacheLabels l @ [(''error'', js (error_text k)), (''in_fallback'', js (if inFallback then ''true'' else ''false''))]))
      | m_invalidation ns kt layer \<Rightarrow>
          Some (Inc ''invalidationCounter'' [(''cache_namespace'', ns), (''key_type'', kt), (''layer'', js (layer_text layer))])
      | m_coalesced l scope \<Rightarrow>
          Some (Inc ''coalescedCounter''
            [(''cache_namespace'', kl_namespace l), (''use_case'', kl_useCase l), (''key_type'', kl_keyType l), (''scope'', js (scope_text scope))])
      | m_shadowValidation l outcome \<Rightarrow> Some (Inc ''shadowValidationCounter'' (outcomeLabels l (shadow_text outcome)))
      | m_observeShadowValueAge l outcome s \<Rightarrow> Some (Observe ''shadowValueAgeHistogram'' (outcomeLabels l (shadow_text outcome)) s)
      | m_shadowMismatchLogging l outcome \<Rightarrow> Some (Inc ''shadowMismatchLoggingCounter'' (outcomeLabels l (logging_text outcome)))
      | m_observeFutureTimestampOffset l s \<Rightarrow>
          (if s \<le> 0 then None else Some (Observe ''futureTimestampOffsetHistogram'' (cacheLabels l) s))
      | m_staleRecovery l outcome \<Rightarrow> Some (Inc ''staleRecoveryCounter'' (outcomeLabels l (stale_text outcome)))
      | m_observeStaleRecoveryValueAge l outcome s \<Rightarrow> Some (Observe ''staleRecoveryValueAgeHistogram'' (outcomeLabels l (stale_text outcome)) s)
      | m_compression l outcome \<Rightarrow> Some (Inc ''compressionCounter'' (cacheLabels l @ [(''outcome'', js (compression_text outcome))]))
      | m_observeGet l s \<Rightarrow> Some (Observe ''getTimer'' (cacheLabels l) s)
      | m_observeFallback l s \<Rightarrow> Some (Observe ''fallbackTimer'' (cacheLabels l) s)
      | m_observeSerialization l operation s \<Rightarrow> Some (Observe ''serializationTimer'' (cacheLabels l @ [(''operation'', js operation)]) s)
      | m_observeSize l n \<Rightarrow> Some (Observe ''sizeHistogram'' (cacheLabels l) (of_nat n))
      | m_observeStoredSize l n \<Rightarrow> Some (Observe ''storedSizeHistogram'' (cacheLabels l) (of_nat n))
      | m_observeCompressionRatio l r \<Rightarrow> Some (Observe ''compressionRatioHistogram'' (cacheLabels l) r)
      | m_observeCompression l operation s \<Rightarrow> Some (Observe ''compressionTimer'' (cacheLabels l @ [(''operation'', js operation)]) s))"

subsection \<open>The adapters report the same\<close>

text \<open>Which Datadog metric and which Prometheus collector stand for the same thing.\<close>

definition metric_pairs :: "(string \<times> string) list" where
  "metric_pairs =
     [(''request'', ''requestCounter''), (''miss'', ''missCounter''), (''disabled'', ''disabledCounter''), (''error'', ''errorCounter''),
      (''invalidation'', ''invalidationCounter''), (''coalesced'', ''coalescedCounter''), (''shadowValidation'', ''shadowValidationCounter''),
      (''shadowValueAge'', ''shadowValueAgeHistogram''), (''shadowMismatchLogging'', ''shadowMismatchLoggingCounter''),
      (''futureTimestampOffset'', ''futureTimestampOffsetHistogram''), (''staleRecovery'', ''staleRecoveryCounter''),
      (''staleRecoveryValueAge'', ''staleRecoveryValueAgeHistogram''), (''compression'', ''compressionCounter''), (''get'', ''getTimer''),
      (''fallback'', ''fallbackTimer''), (''serialization'', ''serializationTimer''), (''size'', ''sizeHistogram''),
      (''storedSize'', ''storedSizeHistogram''), (''compressionRatio'', ''compressionRatioHistogram''), (''compressionDuration'', ''compressionTimer'')]"

text \<open>The same report on both sides: the paired names, the same labels and value, and the labels and kind the collector declares.\<close>

fun same_report :: "datadog \<Rightarrow> jsstring \<Rightarrow> statsd_call \<Rightarrow> prom_call \<Rightarrow> bool" where
  "same_report dd prefix (Increment n v ts) (Inc f ls) \<longleftrightarrow>
     v = 1 \<and> ts = ls \<and> list_ex (\<lambda>(m, f'). f' = f \<and> dd_name dd m = n) metric_pairs \<and>
     (\<exists>c. map_of (collectorConfigs prefix) f = Some c \<and> map fst ls = co_labelNames c \<and> co_buckets c = None)"
| "same_report dd prefix (Histogram n v ts) (Observe f ls v') \<longleftrightarrow>
     dd_observe dd = histogram_type \<and> v = v' \<and> ts = ls \<and> list_ex (\<lambda>(m, f'). f' = f \<and> dd_name dd m = n) metric_pairs \<and>
     (\<exists>c. map_of (collectorConfigs prefix) f = Some c \<and> map fst ls = co_labelNames c \<and> co_buckets c \<noteq> None)"
| "same_report dd prefix (Distribution n v ts) (Observe f ls v') \<longleftrightarrow>
     dd_observe dd = distribution_type \<and> v = v' \<and> ts = ls \<and> list_ex (\<lambda>(m, f'). f' = f \<and> dd_name dd m = n) metric_pairs \<and>
     (\<exists>c. map_of (collectorConfigs prefix) f = Some c \<and> map fst ls = co_labelNames c \<and> co_buckets c \<noteq> None)"
| "same_report dd prefix _ _ \<longleftrightarrow> False"

lemma label_names:
  "map fst (cacheLabels l) = [''cache_namespace'', ''use_case'', ''key_type'', ''layer'']"
  "map fst (outcomeLabels k t) = [''cache_namespace'', ''use_case'', ''key_type'', ''outcome'']"
  by (simp_all add: cacheLabels_def outcomeLabels_def)

lemma tags_are_labels: "cacheTags l = cacheLabels l" "outcomeTags k t = outcomeLabels k t"
  by (simp_all add: cacheTags_def cacheLabels_def outcomeTags_def outcomeLabels_def)

lemma paired:
  "list_ex (\<lambda>(m, f'). f' = f \<and> dd_name dd m = dd_name dd metric) metric_pairs" if "(metric, f) \<in> set metric_pairs"
  using that by (auto simp: list_ex_iff)


subsection \<open>Registration\<close>

text \<open>What prom-client documents of a new collector: it has the name, help, kind, labels and buckets it was made with.\<close>

definition collector_documented :: "(collector \<Rightarrow> jsval res) \<Rightarrow> bool" where
  "collector_documented newCollector \<longleftrightarrow> (\<forall>config c. newCollector config = Inr c \<longrightarrow> compatible c config)"

lemma collector_names_distinct: "distinct (map co_name (map snd (collectorConfigs prefix)))"
  by (simp add: collectorConfigs_def js_def)

text \<open>\<open>holds reg cs configs\<close>: the registry has the collectors \<open>cs\<close> under the names of \<open>configs\<close>, each compatible.\<close>

definition holds :: "registry \<Rightarrow> jsval list \<Rightarrow> collector list \<Rightarrow> bool" where
  "holds reg cs configs \<longleftrightarrow>
     list_all2 (\<lambda>c config. map_of reg (co_name config) = Some c \<and> compatible c config) cs configs"

lemma validate_Inr_iff:
  "validateExistingCollectors reg configs = Inr () \<longleftrightarrow>
     (\<forall>config \<in> set configs. \<forall>c. map_of reg (co_name config) = Some c \<longrightarrow> compatible c config)"
  by (induction configs) (auto split: option.split)

lemma holds_validate: "holds reg cs configs \<Longrightarrow> validateExistingCollectors reg configs = Inr ()"
  unfolding holds_def by (induction rule: list_all2_induct) simp_all

lemma holds_obtain: "holds reg cs configs \<Longrightarrow> obtain_collectors newCollector configs reg = (Inr cs, reg)"
  unfolding holds_def by (induction rule: list_all2_induct) (simp_all add: obtain_collector_def)

lemma holds_extend: "holds reg cs configs \<Longrightarrow> map_of reg \<subseteq>\<^sub>m map_of reg' \<Longrightarrow> holds reg' cs configs"
  unfolding holds_def by (erule list_all2_mono) (auto simp: map_le_def dom_def)

lemma obtain_collector_extends:
  "obtain_collector newCollector config reg = (r, reg') \<Longrightarrow> map_of reg \<subseteq>\<^sub>m map_of reg'"
  by (auto simp: obtain_collector_def map_le_def dom_def split: option.splits sum.splits)

lemma obtain_collectors_Inr:
  assumes "collector_documented newCollector"
  shows "distinct (map co_name configs) \<Longrightarrow> validateExistingCollectors reg configs = Inr () \<Longrightarrow>
    obtain_collectors newCollector configs reg = (Inr cs, reg') \<Longrightarrow> map_of reg \<subseteq>\<^sub>m map_of reg' \<and> holds reg' cs configs"
proof (induction configs arbitrary: reg cs)
  case (Cons config configs)
  from Cons.prems(3) obtain c reg1 cs' where first: "obtain_collector newCollector config reg = (Inr c, reg1)"
    and rest: "obtain_collectors newCollector configs reg1 = (Inr cs', reg')" and cs: "cs = c # cs'"
    by (auto split: prod.splits sum.splits)
  have c: "map_of reg1 (co_name config) = Some c" "compatible c config"
    using first Cons.prems(2) assms
    by (auto simp: obtain_collector_def validate_Inr_iff collector_documented_def split: option.splits sum.splits if_splits)
  have same: "map_of reg1 n = map_of reg n" if "n \<noteq> co_name config" for n
    using first that by (auto simp: obtain_collector_def split: option.splits sum.splits)
  have "compatible c' config'" if "config' \<in> set configs" "map_of reg1 (co_name config') = Some c'" for config' c'
  proof -
    have "co_name config' \<noteq> co_name config" using Cons.prems(1) that(1) by (auto simp: image_iff)
    with that same Cons.prems(2) [unfolded validate_Inr_iff] show ?thesis by simp
  qed
  then have "validateExistingCollectors reg1 configs = Inr ()" by (simp add: validate_Inr_iff)
  with Cons.IH [OF _ _ rest] Cons.prems(1) have IH: "map_of reg1 \<subseteq>\<^sub>m map_of reg'" "holds reg' cs' configs" by auto
  from c IH(1) have "map_of reg' (co_name config) = Some c" by (auto simp: map_le_def dom_def)
  with c IH cs show ?case using map_le_trans [OF obtain_collector_extends [OF first] IH(1)] by (simp add: holds_def)
qed (auto simp: holds_def)

lemma obtain_collectors_Inl:
  "obtain_collectors newCollector configs reg = (Inl e, reg') \<Longrightarrow> \<exists>config \<in> set configs. newCollector config = Inl e"
  by (induction configs arbitrary: reg) (fastforce simp: obtain_collector_def split: prod.splits sum.splits option.splits)+

text \<open>
  C40. Making the Prometheus adapter on a registry fails on an incompatible collector of one of its names before it
  registered anything, or because prom-client refused a collector. When it succeeds it has a compatible collector for
  every configuration and replaced none of the registry's, and making a second adapter on the same registry gives the
  same collectors and changes nothing.
\<close>

theorem prometheus_registration:
  assumes "collector_documented newCollector"
  shows "case PrometheusDialCacheMetrics newCollector reg prefix of
      (Inl e, reg') \<Rightarrow>
        (\<exists>config \<in> set (map snd (collectorConfigs prefix)). \<exists>c. map_of reg (co_name config) = Some c \<and> \<not> compatible c config) \<and> reg' = reg \<or>
        (\<exists>config \<in> set (map snd (collectorConfigs prefix)). newCollector config = Inl e)
    | (Inr cs, reg') \<Rightarrow>
        map_of reg \<subseteq>\<^sub>m map_of reg' \<and> list_all2 compatible cs (map snd (collectorConfigs prefix)) \<and>
        PrometheusDialCacheMetrics newCollector reg' prefix = (Inr cs, reg')"
proof -
  let ?configs = "map snd (collectorConfigs prefix)"
  note defs = PrometheusDialCacheMetrics_def Let_def
  show ?thesis
  proof (cases "validateExistingCollectors reg ?configs")
    case (Inl e)
    then have "\<exists>config \<in> set ?configs. \<exists>c. map_of reg (co_name config) = Some c \<and> \<not> compatible c config"
      using validate_Inr_iff [of reg ?configs] by auto
    then show ?thesis unfolding defs Inl by simp
  next
    case (Inr u)
    then have valid: "validateExistingCollectors reg ?configs = Inr ()" by simp
    obtain r reg' where run: "obtain_collectors newCollector ?configs reg = (r, reg')" by fastforce
    show ?thesis
    proof (cases r)
      case (Inl e)
      then show ?thesis using obtain_collectors_Inl [of newCollector ?configs reg e reg'] run unfolding defs valid by simp
    next
      case (Inr cs)
      then have "map_of reg \<subseteq>\<^sub>m map_of reg'" "holds reg' cs ?configs"
        using obtain_collectors_Inr [OF assms collector_names_distinct valid] run by auto
      moreover from this(2) have "list_all2 compatible cs ?configs" unfolding holds_def by (rule list_all2_mono) simp
      ultimately show ?thesis using run Inr holds_validate holds_obtain unfolding defs valid by simp
    qed
  qed
qed

text \<open>A collector as prom-client exposes it, and a registry that already has a request counter.\<close>

definition sample_collector :: "collector \<Rightarrow> jsval" where
  "sample_collector config =
     JObj ([(''name'', JStr (co_name config)), (''help'', JStr (co_help config)),
            (''type'', JStr (js (if co_buckets config = None then ''counter'' else ''histogram''))),
            (''labelNames'', JArr (map (\<lambda>n. JStr (js n)) (co_labelNames config)))] @
           (case co_buckets config of None \<Rightarrow> [] | Some bs \<Rightarrow> [(''buckets'', JArr (map (\<lambda>b. JNum (Fin b)) bs))]))"

lemma sample_collector_documented: "collector_documented (\<lambda>config. Inr (sample_collector config))"
  by (auto simp: collector_documented_def compatible_def sample_collector_def arraysEqual_def split: option.split)

theorem prometheus_registration_witness:
  "\<exists>cs reg'. PrometheusDialCacheMetrics (\<lambda>config. Inr (sample_collector config)) [(js ''other'', JNull)] (js ''app_'') = (Inr cs, reg') \<and>
     length cs = 20 \<and> map_of reg' (js ''other'') = Some JNull \<and>
     PrometheusDialCacheMetrics (\<lambda>config. Inr (sample_collector config)) reg' (js ''app_'') = (Inr cs, reg')"
proof -
  let ?run = "PrometheusDialCacheMetrics (\<lambda>config. Inr (sample_collector config)) [(js ''other'', JNull)] (js ''app_'')"
  have "js ''other'' \<notin> co_name ` set (map snd (collectorConfigs (js ''app_'')))" by (simp add: collectorConfigs_def js_def)
  then have free: "\<not> (\<exists>config \<in> set (map snd (collectorConfigs (js ''app_''))). \<exists>c.
      map_of [(js ''other'', JNull)] (co_name config) = Some c \<and> \<not> compatible c config)"
    by (auto simp: image_iff split: if_splits)
  obtain r reg' where run: "?run = (r, reg')" by fastforce
  with prometheus_registration [OF sample_collector_documented, where reg = "[(js ''other'', JNull)]" and prefix = "js ''app_''"] free
  obtain cs where cs: "r = Inr cs" "map_of [(js ''other'', JNull)] \<subseteq>\<^sub>m map_of reg'"
    "list_all2 compatible cs (map snd (collectorConfigs (js ''app_'')))"
    "PrometheusDialCacheMetrics (\<lambda>config. Inr (sample_collector config)) reg' (js ''app_'') = (Inr cs, reg')"
    by (cases r) auto
  have "length cs = 20" using list_all2_lengthD [OF cs(3)] by (simp add: collectorConfigs_def)
  with run cs show ?thesis by (auto simp: map_le_def dom_def)
qed

end
