(* ===== verification/Spec2Isabelle.thy ===== *)
theory Spec2Isabelle
  imports InvocationSpec Deadline RequestContext Registration LocalCacheSpec ShadowTable Adapters JsonSerializer MetricBackends
begin

text \<open>
  A verification library for DialCache, the caching library of this repository. It models the TypeScript
  implementation (\<^verbatim>\<open>typescript/src\<close>).

  \<^bold>\<open>The program.\<close> An application registers cached operations (\<^verbatim>\<open>cached\<close>, \<^verbatim>\<open>getOrLoad\<close>). An invocation builds a
  key, asks a provider for a policy, and walks request-local cache, process-local cache and Redis before it runs the
  application's loader. Concurrent invocations of one key share one flight. Redis values carry a timestamp; a tracked
  key has an invalidation watermark, advanced by a Lua script, that fences older values. Expired values can be served
  after the loader failed. A sampled shadow job compares what Redis holds with the loader's value and may log the
  difference. Everything but the loader fails open.

  \<^bold>\<open>The theories and the code.\<close>
  \<^item> \<open>JS_Prelude\<close>: numbers, strings (16-bit code units), untyped values, errors as values, shared list lemmas.
    \<open>Effects\<close>: asynchronous code as programs that ask their environment and continue, with a big-step semantics
    (\<open>runs\<close>), its weakest precondition (\<open>always\<close>) and handlers (\<open>serve\<close>). \<open>Utf8\<close>: UTF-16 and UTF-8.
  \<^item> \<open>Durations\<close> (\<^verbatim>\<open>internal/duration.ts\<close>), \<open>KeyConfig\<close> (\<^verbatim>\<open>config.ts\<close>), \<open>Keys\<close> (\<^verbatim>\<open>key.ts\<close>), \<open>Ramp\<close>
    (\<^verbatim>\<open>internal/ramp.ts\<close>), \<open>RuntimeConfig\<close> (\<^verbatim>\<open>internal/runtime-config.ts\<close>): key identity and policy.
  \<^item> \<open>RedisPayload\<close> (\<^verbatim>\<open>internal/redis-payload.ts\<close>), \<open>Compression\<close> (\<^verbatim>\<open>internal/compression.ts\<close>), \<open>InvalidateScript\<close>
    (\<^verbatim>\<open>internal/redis-scripts.ts\<close>, \<^verbatim>\<open>internal/redis-invalidation.ts\<close>), \<open>JsonSerializer\<close> (\<^verbatim>\<open>serializer.ts\<close>),
    \<open>Adapters\<close> (\<^verbatim>\<open>node-redis.ts\<close>, \<^verbatim>\<open>valkey-glide.ts\<close>, \<^verbatim>\<open>internal/redis-script-reply.ts\<close>): the Redis protocol.
  \<^item> \<open>Metrics\<close> (\<^verbatim>\<open>metrics.ts\<close>), \<open>MetricBackends\<close> (\<^verbatim>\<open>datadog.ts\<close>, \<^verbatim>\<open>prometheus.ts\<close>): metric events and adapters.
  \<^item> \<open>Requests\<close>: the requests and answers of an invocation. \<open>RedisCache\<close> (\<^verbatim>\<open>internal/redis-cache.ts\<close>) with its
    specification \<open>RedisCacheSpec\<close>; \<open>ReadPath\<close> (one invocation in \<^verbatim>\<open>dialcache.ts\<close>, \<^verbatim>\<open>internal/cache-result.ts\<close>) with
    \<open>ReadPathSpec\<close> and \<open>InvocationSpec\<close>; \<open>LocalCacheSpec\<close> (\<^verbatim>\<open>internal/local-cache.ts\<close> against an LRU with TTLs).
  \<^item> \<open>Deadline\<close> (\<^verbatim>\<open>internal/deadline.ts\<close>), \<open>Coalescing\<close> (the flight tables of \<^verbatim>\<open>dialcache.ts\<close> across callers),
    \<open>RequestContext\<close> (\<^verbatim>\<open>context.ts\<close>), \<open>Registration\<close> (constructor, \<^verbatim>\<open>cached\<close> and \<^verbatim>\<open>getOrLoad\<close> of \<^verbatim>\<open>dialcache.ts\<close>):
    state machines over explicit states, in which callers interleave.
  \<^item> \<open>ShadowJson\<close> and \<open>ShadowLog\<close> (\<^verbatim>\<open>internal/shadow-log-json.ts\<close>), \<open>ShadowValidation\<close> (the shadow job of
    \<^verbatim>\<open>dialcache.ts\<close>), \<open>ShadowTable\<close> (its flight table).

  \<^bold>\<open>What is shown.\<close>
  \<^item> Identity: URNs are injective; the constructor accepts exactly the well-formed initializers.
  \<^item> Policy: a disabled overlay turns everything off; a resolved layer has valid TTLs, ramps and stale windows; an
    accepted default stays valid.
  \<^item> Storage: payloads survive escaping, compression and framing, and JSON values survive the default serializer and
    the store; tracked reads are fenced by valid watermarks; dispatches of the script commute, never lower the
    watermark and outlive the values they fence; both parsers of a watermark agree; the two client adapters agree,
    also when dispatches are lost.
  \<^item> Invocations, on every answer of their environment: the loader runs at most once and only its rejection (or the
    deadline's, or a joined flight's) reaches the caller; reads are classified by age; writes carry the loader's own
    value, under its own key and above the observed fence; tracked values do not bypass Redis; stale values appear
    only after a rejection and inside their window.
  \<^item> Concurrency: the deadline machine computes the first decision and is live; one flight per key, with exact
    counts; requests are isolated and inert after they closed; shadow jobs stay within capacity.
  \<^item> Shadow jobs: verdicts are sound, warnings are bounded and counted once; the JSON comparison terminates, and the
    walk reports exactly the first differing places.
  \<^item> Metrics: both adapters report every event alike; Prometheus registration checks every schema before it registers
    anything, and is idempotent.

  \<^bold>\<open>Bounds, fuel and termination.\<close> Integers are mathematical where the code checks safe-integer or duration bounds,
  and words in the ramp hash, in text and in frames. Lua numbers are rounded to 53 bits where the script may exceed
  them. The work-stack loop of the JSON comparison is a partial function, shown to return on every input. The JSON
  parser has fuel of twice the length of its text and two, and more fuel never changes its result. All other recursion
  is structural or has a termination proof.

  \<^bold>\<open>Parameters.\<close> zstd, the Redis server, the native clients, lru-cache, prom-client, number printing and the
  application's callbacks are parameters or answers of the environment. What is used of them is named where it is
  assumed (\<open>zstd_contract\<close>, \<open>batch_documented\<close>, \<open>number_text\<close>, \<open>collector_documented\<close>), with an instance that has it.

  \<^bold>\<open>Not modelled.\<close> The isolation of injected loggers and metrics adapters (\<^verbatim>\<open>safeLogger\<close>, \<^verbatim>\<open>safeMetrics\<close>,
  \<^verbatim>\<open>internal/thenable.ts\<close>) appears only as requests whose answers carry nothing. Error classes are constructors of one
  type without their message formats. Abort signals of reads, timer unreferencing and the turn on which a shadow job
  starts are below the model. \<^verbatim>\<open>index.ts\<close> and \<^verbatim>\<open>redis-protocol.ts\<close> only re-export. The Python, Go and Rust
  implementations, the Quint models with their replay tools, the release scripts and the tests are other programs.
\<close>

end
